(* ===== verification/Prelude.thy ===== *)
theory Prelude
  imports Main "HOL-Library.Monad_Syntax" "HOL-Library.Multiset" "HOL-Library.AList"
begin

text \<open>
  Shared vocabulary of the development: the theorem collections, the generic facts on lists,
  association lists and the option monad that the component theories use, and two interfaces
  (locales) that several components implement: keyed first-match lookup up to an equivalence on
  keys, and transition systems with an inductive invariant.
\<close>

section \<open>Theorem collections\<close>

named_theorems go_simps \<open>rewrite rules that evaluate the model's library calls\<close>
named_theorems frame_simps \<open>which state components an operation leaves unchanged\<close>
named_theorems hist_simps \<open>which events an operation appends to the call history\<close>

section \<open>Lists\<close>

lemma find_mem: "find P xs = Some x \<Longrightarrow> x \<in> set xs \<and> P x"
  by (induction xs) (auto split: if_splits)

lemma find_first_split:
  "find P xs = Some x \<Longrightarrow> \<exists>ys zs. xs = ys @ x # zs \<and> P x \<and> (\<forall>y \<in> set ys. \<not> P y)"
proof (induction xs)
  case Nil
  then show ?case by simp
next
  case (Cons a xs)
  show ?case
  proof (cases "P a")
    case True
    with Cons.prems have "a # xs = [] @ x # xs \<and> P x" by simp
    then show ?thesis by (metis empty_iff list.set(1))
  next
    case False
    with Cons.prems have "find P xs = Some x" by simp
    then obtain ys zs where "xs = ys @ x # zs \<and> P x \<and> (\<forall>y \<in> set ys. \<not> P y)"
      using Cons.IH by blast
    with False have "a # xs = (a # ys) @ x # zs \<and> P x \<and> (\<forall>y \<in> set (a # ys). \<not> P y)"
      by simp
    then show ?thesis by blast
  qed
qed

lemma find_cong_pred: "(\<And>x. x \<in> set xs \<Longrightarrow> P x = Q x) \<Longrightarrow> find P xs = find Q xs"
  by (induction xs) auto

lemma filter_length_le_take: "length (take n (filter P xs)) \<le> length xs"
  by (induction xs) (auto intro: le_trans)

lemma last_append_butlast: "xs \<noteq> [] \<Longrightarrow> mset xs = add_mset (last xs) (mset (butlast xs))"
  by (metis append_butlast_last_id mset_append union_mset_add_mset_right mset.simps add_0_right)

section \<open>Association lists: Go maps and sync.Map\<close>

text \<open>
  A Go map, or a \<^verbatim>\<open>sync.Map\<close>, is an association list with distinct keys: it has a length and its
  keys can be ranged over. \<open>map_ok\<close> is its representation invariant.
\<close>

type_synonym ('k, 'v) gomap = "('k \<times> 'v) list"

definition map_ok :: "('k, 'v) gomap \<Rightarrow> bool" where
  "map_ok m \<longleftrightarrow> distinct (map fst m)"

lemma map_ok_empty [simp, intro]: "map_ok []"
  by (simp add: map_ok_def)

lemma map_ok_update [simp, intro]: "map_ok m \<Longrightarrow> map_ok (AList.update k v m)"
  by (simp add: map_ok_def distinct_update)

lemma map_ok_delete [simp, intro]: "map_ok m \<Longrightarrow> map_ok (AList.delete k m)"
  by (simp add: map_ok_def distinct_delete)

lemma lookup_update [simp]: "map_of (AList.update k v m) = (map_of m)(k \<mapsto> v)"
  by (rule update_conv')

lemma lookup_delete [simp]: "map_of (AList.delete k m) = (map_of m)(k := None)"
  by (rule delete_conv')

lemma map_ok_card: "map_ok m \<Longrightarrow> length m = card (dom (map_of m))"
  by (metis distinct_card dom_map_of_conv_image_fst length_map list.set_map map_ok_def)

lemma length_delete_present:
  assumes "map_ok m" and "map_of m k \<noteq> None"
  shows "Suc (length (AList.delete k m)) = length m"
proof -
  have "dom (map_of (AList.delete k m)) = dom (map_of m) - {k}" by simp
  moreover have "k \<in> dom (map_of m)" using assms(2) by blast
  ultimately show ?thesis
    using map_ok_card [OF assms(1)] map_ok_card [OF map_ok_delete [OF assms(1)], of k]
    using card_Suc_Diff1 [OF finite_dom_map_of] by metis
qed

lemma length_update_absent:
  "map_of m k = None \<Longrightarrow> length (AList.update k v m) = Suc (length m)"
  by (induction m) (auto split: if_splits)

lemma length_update_present:
  "map_of m k \<noteq> None \<Longrightarrow> length (AList.update k v m) = length m"
  by (induction m) (auto split: if_splits)

section \<open>First match by key\<close>

text \<open>
  The contract shared by the lookup helpers of the providers: scan a list in order and return the
  first element whose key is equivalent to the name asked for, or a default.
\<close>

locale key_equivalence =
  fixes eqf :: "'k \<Rightarrow> 'k \<Rightarrow> bool"
  assumes eqf_refl: "eqf x x"
    and eqf_sym: "eqf x y \<Longrightarrow> eqf y x"
    and eqf_trans: "eqf x y \<Longrightarrow> eqf y z \<Longrightarrow> eqf x z"
begin

lemma eqf_left_cong: "eqf x y \<Longrightarrow> eqf x z = eqf y z"
  by (meson eqf_sym eqf_trans)

lemma eqf_right_cong: "eqf x y \<Longrightarrow> eqf z x = eqf z y"
  by (meson eqf_sym eqf_trans)

end

locale first_match = key_equivalence eqf
  for eqf :: "'k \<Rightarrow> 'k \<Rightarrow> bool" +
  fixes key :: "'b \<Rightarrow> 'k"
    and inj :: "'b \<Rightarrow> 'c"
    and dflt :: 'c
    and select :: "'k \<Rightarrow> 'b list \<Rightarrow> 'c"
  assumes select_nil: "select n [] = dflt"
    and select_cons: "select n (x # xs) = (if eqf (key x) n then inj x else select n xs)"
begin

lemma select_find:
  "select n xs = (case find (\<lambda>x. eqf (key x) n) xs of None \<Rightarrow> dflt | Some x \<Rightarrow> inj x)"
  by (induction xs) (auto simp: select_nil select_cons)

lemma select_missing: "\<forall>x \<in> set xs. \<not> eqf (key x) n \<Longrightarrow> select n xs = dflt"
  by (induction xs) (auto simp: select_nil select_cons)

lemma select_result:
  "select n xs \<noteq> dflt \<Longrightarrow> \<exists>x \<in> set xs. select n xs = inj x \<and> eqf (key x) n"
  by (induction xs) (auto simp: select_nil select_cons split: if_splits)

lemma select_first:
  "\<forall>y \<in> set ys. \<not> eqf (key y) n \<Longrightarrow> eqf (key x) n \<Longrightarrow> select n (ys @ x # zs) = inj x"
  by (induction ys) (auto simp: select_cons)

lemma select_name_cong: "eqf m n \<Longrightarrow> select m xs = select n xs"
  by (induction xs) (auto simp: select_nil select_cons eqf_right_cong [of m n])

end

section \<open>Transition systems with an inductive invariant\<close>

text \<open>
  A component that interleaves steps is a set of initial states, a step relation and a candidate
  invariant. Clients prove the two laws for their relation and obtain the invariant for every
  reachable state.
\<close>

locale invariant_system =
  fixes init :: "'s \<Rightarrow> bool"
    and step :: "'s \<Rightarrow> 's \<Rightarrow> bool"
    and inv :: "'s \<Rightarrow> bool"
  assumes inv_init: "init s \<Longrightarrow> inv s"
    and inv_step: "inv s \<Longrightarrow> step s t \<Longrightarrow> inv t"
begin

lemma inv_steps: "step\<^sup>*\<^sup>* s t \<Longrightarrow> inv s \<Longrightarrow> inv t"
  by (induction rule: rtranclp_induct) (auto intro: inv_step)

lemma inv_reachable: "init s \<Longrightarrow> step\<^sup>*\<^sup>* s t \<Longrightarrow> inv t"
  using inv_init inv_steps by blast

end

end
