(* ===== verification/Go_Strings.thy ===== *)
theory Go_Strings
  imports Prelude "HOL-Library.Char_ord" "HOL-Library.List_Lexorder" "HOL-Library.Sublist"
begin

text \<open>
  The parts of Go's \<^verbatim>\<open>strings\<close>, \<^verbatim>\<open>strconv\<close>, \<^verbatim>\<open>sort\<close> and \<^verbatim>\<open>errors\<close> packages that the sources
  call. Strings are byte strings; resource names, instance ids and strategy names are ASCII, so
  \<open>EqualFold\<close> folds the letters A to Z (on ASCII input this is Go's Unicode folding).
  Shown: \<open>EqualFold\<close> is an equivalence, \<open>Contains\<close> is the sublist test, and
  \<open>Atoi\<close> reads back what \<open>Itoa\<close> prints on the whole range of a 64-bit integer.
\<close>

section \<open>Errors\<close>

text \<open>An error value: the Kubernetes client's not-found errors are told apart by their type.\<close>

datatype error = NotFoundError string | OtherError string

fun error_msg :: "error \<Rightarrow> string" where
  "error_msg (NotFoundError s) = s"
| "error_msg (OtherError s) = s"

fun IsNotFound :: "error \<Rightarrow> bool" where
  "IsNotFound (NotFoundError _) = True"
| "IsNotFound (OtherError _) = False"

abbreviation Errorf :: "string \<Rightarrow> error" where
  "Errorf s \<equiv> OtherError s"

section \<open>Case folding\<close>

definition fold_char :: "char \<Rightarrow> char" where
  "fold_char c =
     (let n = (of_char c :: nat) in if 65 \<le> n \<and> n \<le> 90 then char_of (n + 32) else c)"

definition EqualFold :: "string \<Rightarrow> string \<Rightarrow> bool" where
  "EqualFold s t \<longleftrightarrow> map fold_char s = map fold_char t"

interpretation fold: key_equivalence EqualFold
  by unfold_locales (auto simp: EqualFold_def)

lemma EqualFold_refl [simp, intro]: "EqualFold s s"
  by (rule fold.eqf_refl)

lemma EqualFold_commute: "EqualFold s t \<longleftrightarrow> EqualFold t s"
  using fold.eqf_sym by blast

lemma EqualFold_length: "EqualFold s t \<Longrightarrow> length s = length t"
  unfolding EqualFold_def by (metis length_map)

lemma EqualFold_empty [simp]: "EqualFold s [] \<longleftrightarrow> s = []" "EqualFold [] s \<longleftrightarrow> s = []"
  by (auto simp: EqualFold_def)

section \<open>Substrings, splitting, trimming\<close>

fun Contains :: "string \<Rightarrow> string \<Rightarrow> bool" where
  "Contains [] sub \<longleftrightarrow> sub = []"
| "Contains (c # s) sub \<longleftrightarrow> prefix sub (c # s) \<or> Contains s sub"

lemma Contains_sublist: "Contains s sub \<longleftrightarrow> sublist sub s"
  by (induction s) (auto simp: sublist_Cons_right)

text \<open>\<open>Split s c\<close> is \<^verbatim>\<open>strings.Split(s, c)\<close> for a one-byte separator: never the empty list.\<close>

fun Split :: "string \<Rightarrow> char \<Rightarrow> string list" where
  "Split [] sep = [[]]"
| "Split (c # s) sep =
     (if c = sep then [] # Split s sep
      else (case Split s sep of [] \<Rightarrow> [[c]] | t # ts \<Rightarrow> (c # t) # ts))"

lemma Split_nonempty [simp]: "Split s sep \<noteq> []"
  by (induction s) (auto split: list.splits)

lemma Split_no_sep: "sep \<notin> set s \<Longrightarrow> Split s sep = [s]"
  by (induction s) auto

lemma Split_append_sep: "Split (s @ sep # t) sep = Split s sep @ Split t sep"
  by (induction s) (auto split: list.splits)

lemma last_Split: "sep \<notin> set t \<Longrightarrow> last (Split (s @ sep # t) sep) = t"
  by (simp add: Split_append_sep Split_no_sep)

text \<open>\<^verbatim>\<open>strings.Trim(s, c)\<close> for a one-byte cut set.\<close>

definition Trim :: "string \<Rightarrow> char \<Rightarrow> string" where
  "Trim s c = rev (dropWhile (\<lambda>x. x = c) (rev (dropWhile (\<lambda>x. x = c) s)))"

lemma dropWhile_absent: "c \<notin> set s \<Longrightarrow> dropWhile (\<lambda>x. x = c) s = s"
  by (cases s) auto

lemma Trim_no_cut: "c \<notin> set s \<Longrightarrow> Trim s c = s"
  by (simp add: Trim_def dropWhile_absent)

lemma Trim_snoc: "c \<notin> set s \<Longrightarrow> Trim (s @ [c]) c = s"
  by (cases s) (auto simp: Trim_def dropWhile_absent dropWhile_append3)

section \<open>Decimal integers\<close>

abbreviation max_int64 :: int where "max_int64 \<equiv> 9223372036854775807"
abbreviation min_int64 :: int where "min_int64 \<equiv> - 9223372036854775808"

definition digit_char :: "nat \<Rightarrow> char" where
  "digit_char d = char_of (48 + d)"

definition is_digit :: "char \<Rightarrow> bool" where
  "is_digit c \<longleftrightarrow> 48 \<le> (of_char c :: nat) \<and> (of_char c :: nat) \<le> 57"

definition digit_val :: "char \<Rightarrow> nat" where
  "digit_val c = of_char c - 48"

definition digits_val :: "string \<Rightarrow> nat" where
  "digits_val s = foldl (\<lambda>n c. 10 * n + digit_val c) 0 s"

text \<open>
  \<^verbatim>\<open>strconv.Atoi\<close>: an optional sign, then at least one digit. The second component is false when
  the call returns an error: the value is then 0 for a syntax error, and the nearest 64-bit
  integer for a number out of range.
\<close>

definition Atoi :: "string \<Rightarrow> int \<times> bool" where
  "Atoi s =
     (let neg = (s \<noteq> [] \<and> hd s = CHR ''-'');
          body = (if s \<noteq> [] \<and> (hd s = CHR ''-'' \<or> hd s = CHR ''+'') then tl s else s)
      in if body = [] \<or> \<not> list_all is_digit body then (0, False)
         else let n = (if neg then - int (digits_val body) else int (digits_val body))
              in if n < min_int64 then (min_int64, False)
                 else if max_int64 < n then (max_int64, False)
                 else (n, True))"

fun nat_digits :: "nat \<Rightarrow> string" where
  "nat_digits n = (if n < 10 then [digit_char n] else nat_digits (n div 10) @ [digit_char (n mod 10)])"

declare nat_digits.simps [simp del]

text \<open>\<^verbatim>\<open>strconv.Itoa\<close> and \<^verbatim>\<open>strconv.FormatInt(n, 10)\<close>.\<close>

definition Itoa :: "int \<Rightarrow> string" where
  "Itoa n = (if n < 0 then CHR ''-'' # nat_digits (nat (- n)) else nat_digits (nat n))"

lemma of_char_digit: "d < 10 \<Longrightarrow> of_char (digit_char d) = (48 + d :: nat)"
  by (simp add: digit_char_def)

lemma is_digit_digit_char: "d < 10 \<Longrightarrow> is_digit (digit_char d)"
  by (simp add: is_digit_def of_char_digit)

lemma digit_val_digit_char: "d < 10 \<Longrightarrow> digit_val (digit_char d) = d"
  by (simp add: digit_val_def of_char_digit)

lemma digits_val_snoc: "digits_val (s @ [c]) = 10 * digits_val s + digit_val c"
  by (simp add: digits_val_def)

lemma nat_digits_nonempty [simp]: "nat_digits n \<noteq> []"
  by (subst nat_digits.simps) simp

lemma nat_digits_are_digits: "list_all is_digit (nat_digits n)"
proof (induction n rule: nat_digits.induct)
  case (1 n)
  then show ?case by (subst nat_digits.simps) (simp add: is_digit_digit_char)
qed

lemma digits_val_nat_digits: "digits_val (nat_digits n) = n"
proof (induction n rule: nat_digits.induct)
  case (1 n)
  show ?case
  proof (cases "n < 10")
    case True
    then show ?thesis
      by (subst nat_digits.simps) (simp add: digits_val_def digit_val_digit_char)
  next
    case False
    with "1.IH" show ?thesis
      by (subst nat_digits.simps) (simp add: digits_val_snoc digit_val_digit_char)
  qed
qed

lemma sign_not_digit: "\<not> is_digit CHR ''-''" "\<not> is_digit CHR ''+''"
  by (simp_all add: is_digit_def)

lemma hd_nat_digits: "hd (nat_digits n) \<noteq> CHR ''-''" "hd (nat_digits n) \<noteq> CHR ''+''"
  using nat_digits_are_digits [of n] sign_not_digit
  by (metis list.pred_set list.set_sel(1) nat_digits_nonempty)+

lemma Atoi_nat_digits:
  "Atoi (nat_digits n) =
     (if max_int64 < int n then (max_int64, False) else (int n, True))"
  using nat_digits_are_digits [of n]
  by (auto simp: Atoi_def Let_def hd_nat_digits digits_val_nat_digits)

lemma Atoi_neg_nat_digits:
  "Atoi (CHR ''-'' # nat_digits n) =
     (if - int n < min_int64 then (min_int64, False) else (- int n, True))"
  using nat_digits_are_digits [of n]
  by (auto simp: Atoi_def Let_def digits_val_nat_digits)

lemma Atoi_range: "min_int64 \<le> fst (Atoi s) \<and> fst (Atoi s) \<le> max_int64"
  by (auto simp: Atoi_def Let_def)

text \<open>Reading back a printed 64-bit integer gives that integer, without an error.\<close>

lemma Atoi_Itoa: "min_int64 \<le> n \<Longrightarrow> n \<le> max_int64 \<Longrightarrow> Atoi (Itoa n) = (n, True)"
  by (auto simp: Itoa_def Atoi_nat_digits Atoi_neg_nat_digits)

section \<open>Sorting strings\<close>

text \<open>\<^verbatim>\<open>sort.Strings\<close>: increasing byte-wise lexicographic order.\<close>

abbreviation sort_Strings :: "string list \<Rightarrow> string list" where
  "sort_Strings xs \<equiv> sort xs"

end
