(* ===== verification/Go_Numbers.thy ===== *)
theory Go_Numbers
  imports Complex_Main Go_Strings "HOL-Library.Log_Nat"
begin

text \<open>
  Go's fixed-width integers, \<^verbatim>\<open>float64\<close>, \<^verbatim>\<open>time.Duration\<close> and \<^verbatim>\<open>time.Time\<close>, as far as the sources
  use them. A \<^verbatim>\<open>float64\<close> is the rational number it denotes, every operation rounded to 53
  significant bits (nearest, ties to even); the sources stay far from overflow and subnormals.
  Times are nanoseconds since the Unix epoch. Shown: rounding is exact on integers below \<open>2 ^ 53\<close>
  and never crosses such an integer.
\<close>

section \<open>Two's complement\<close>

definition wrap64 :: "int \<Rightarrow> int" where
  "wrap64 n = (n + 2 ^ 63) mod 2 ^ 64 - 2 ^ 63"

definition wrap32 :: "int \<Rightarrow> int" where
  "wrap32 n = (n + 2 ^ 31) mod 2 ^ 32 - 2 ^ 31"

lemma wrap64_id: "min_int64 \<le> n \<Longrightarrow> n \<le> max_int64 \<Longrightarrow> wrap64 n = n"
  by (simp add: wrap64_def)

lemma wrap64_range: "min_int64 \<le> wrap64 n \<and> wrap64 n \<le> max_int64"
proof -
  have "0 \<le> (n + 2 ^ 63) mod 2 ^ 64" and "(n + 2 ^ 63) mod 2 ^ 64 < (2 ^ 64 :: int)"
    by simp_all
  then show ?thesis by (simp add: wrap64_def)
qed

lemma wrap64_mod: "wrap64 n mod 2 ^ 64 = n mod 2 ^ 64"
  unfolding wrap64_def by (metis add_diff_cancel_right' mod_diff_left_eq)

lemma wrap64_cong: "m mod 2 ^ 64 = n mod 2 ^ 64 \<Longrightarrow> wrap64 m = wrap64 n"
  unfolding wrap64_def by (metis mod_add_left_eq)

lemma wrap64_add: "wrap64 (wrap64 m + n) = wrap64 (m + n)"
  by (rule wrap64_cong) (metis mod_add_left_eq wrap64_mod)

lemma wrap32_cong: "m mod 2 ^ 32 = n mod 2 ^ 32 \<Longrightarrow> wrap32 m = wrap32 n"
  unfolding wrap32_def by (metis mod_add_left_eq)

lemma wrap32_mod: "wrap32 n mod 2 ^ 32 = n mod 2 ^ 32"
  unfolding wrap32_def by (metis add_diff_cancel_right' mod_diff_left_eq)

lemma wrap32_add: "wrap32 (wrap32 m + n) = wrap32 (m + n)"
  by (rule wrap32_cong) (metis mod_add_left_eq wrap32_mod)

section \<open>Double precision\<close>

type_synonym float64 = rat

text \<open>Nearest integer, ties to even.\<close>

definition rne :: "rat \<Rightarrow> int" where
  "rne x = (let f = \<lfloor>x\<rfloor>; d = x - of_int f
            in if d < 1 / 2 then f else if 1 / 2 < d then f + 1 else if even f then f else f + 1)"

lemma rne_int [simp]: "rne (of_int n) = n"
  by (simp add: rne_def)

lemma rne_le: "x \<le> of_int n \<Longrightarrow> rne x \<le> n"
proof -
  assume x: "x \<le> of_int n"
  then have "\<lfloor>x\<rfloor> \<le> n" by linarith
  moreover have "\<lfloor>x\<rfloor> = n \<Longrightarrow> rne x = n" using x by (simp add: rne_def Let_def)
  moreover have "rne x \<le> \<lfloor>x\<rfloor> + 1" by (simp add: rne_def Let_def)
  ultimately show ?thesis by (cases "\<lfloor>x\<rfloor> = n") auto
qed

lemma rne_ge: "of_int n \<le> x \<Longrightarrow> n \<le> rne x"
proof -
  assume "of_int n \<le> x"
  then have "n \<le> \<lfloor>x\<rfloor>" by (simp add: le_floor_iff)
  moreover have "\<lfloor>x\<rfloor> \<le> rne x" by (simp add: rne_def Let_def)
  ultimately show ?thesis by simp
qed

text \<open>The exponent \<open>e\<close> with \<open>2 ^ e \<le> q < 2 ^ (e + 1)\<close>, from the bit lengths of the fraction.\<close>

definition binade :: "rat \<Rightarrow> int" where
  "binade q =
     (let (a, b) = quotient_of q; k = bitlen a - bitlen b
      in if 2 powi k \<le> q then k else k - 1)"

definition round64 :: "rat \<Rightarrow> float64" where
  "round64 q =
     (if q = 0 then 0
      else let e = binade \<bar>q\<bar> - 52 in sgn q * (of_int (rne (\<bar>q\<bar> / 2 powi e)) * 2 powi e))"

lemma bitlen_bound: "0 < a \<Longrightarrow> 2 powi (bitlen a - 1) \<le> (of_int a :: rat) \<and> (of_int a :: rat) < 2 powi bitlen a"
proof -
  assume a: "0 < a"
  have pos: "0 < bitlen a"
    using a bitlen_eq_zero_iff [of a] bitlen_nonneg [of a] by linarith
  have powi: "(2 :: rat) powi k = 2 ^ nat k" if "0 \<le> k" for k
    using that power_int_of_nat [of "2 :: rat" "nat k"] by simp
  have "2 ^ nat (bitlen a - 1) \<le> a \<and> a < 2 ^ nat (bitlen a)"
    using bitlen_bounds [OF a] .
  then have "(2 ^ nat (bitlen a - 1) :: rat) \<le> of_int a \<and> of_int a < (2 ^ nat (bitlen a) :: rat)"
    by (metis of_int_le_iff of_int_less_iff of_int_numeral of_int_power)
  then show ?thesis using pos by (simp add: powi)
qed

lemma binade_lt: "0 < q \<Longrightarrow> q < 2 powi (binade q + 1)"
proof -
  assume q: "0 < q"
  obtain a b where ab: "quotient_of q = (a, b)" by (cases "quotient_of q")
  have b: "0 < b" using quotient_of_denom_pos [OF ab] .
  have q_eq: "q = of_int a / of_int b" using quotient_of_div [OF ab] .
  have a: "0 < a" using q b by (simp add: q_eq zero_less_divide_iff)
  have "(of_int a :: rat) < 2 powi bitlen a" "2 powi (bitlen b - 1) \<le> (of_int b :: rat)"
    using bitlen_bound a b by blast+
  then have "q < 2 powi bitlen a / 2 powi (bitlen b - 1)"
    unfolding q_eq using a b by (intro frac_less) auto
  also have "\<dots> = 2 powi (bitlen a - (bitlen b - 1))"
    by (simp add: power_int_diff)
  finally have "q < 2 powi (bitlen a - bitlen b + 1)" by (simp add: algebra_simps)
  then show ?thesis by (auto simp: binade_def ab Let_def)
qed

lemma binade_ge: "0 < q \<Longrightarrow> 2 powi binade q \<le> q"
proof -
  assume q: "0 < q"
  obtain a b where ab: "quotient_of q = (a, b)" by (cases "quotient_of q")
  have b: "0 < b" using quotient_of_denom_pos [OF ab] .
  have q_eq: "q = of_int a / of_int b" using quotient_of_div [OF ab] .
  have a: "0 < a" using q b by (simp add: q_eq zero_less_divide_iff)
  have "2 powi (bitlen a - 1) \<le> (of_int a :: rat)" "(of_int b :: rat) < 2 powi bitlen b"
    using bitlen_bound a b by blast+
  then have "2 powi (bitlen a - 1) / 2 powi bitlen b \<le> q"
    unfolding q_eq using a b by (intro frac_le) auto
  moreover have "2 powi (bitlen a - 1) / 2 powi bitlen b = (2 :: rat) powi (bitlen a - 1 - bitlen b)"
    by (simp add: power_int_diff power_int_add)
  ultimately have "2 powi (bitlen a - bitlen b - 1) \<le> q" by (simp add: algebra_simps)
  then show ?thesis by (auto simp: binade_def ab Let_def)
qed

lemma binade_small: "0 < q \<Longrightarrow> q < 2 ^ 53 \<Longrightarrow> binade q \<le> 52"
proof (rule ccontr)
  assume q: "0 < q" "q < 2 ^ 53" and "\<not> binade q \<le> 52"
  then have "(2 :: rat) powi 53 \<le> 2 powi binade q"
    by (intro power_int_increasing) auto
  with binade_ge [OF q(1)] q(2) show False by simp
qed

lemma powi_neg_int: "e \<le> 0 \<Longrightarrow> (of_int n :: rat) / 2 powi e = of_int (n * 2 ^ nat (- e))"
proof -
  assume "e \<le> 0"
  then have e: "e = - int (nat (- e))" by simp
  have "(2 :: rat) powi - int (nat (- e)) = inverse (2 ^ nat (- e))"
    by (simp only: power_int_minus power_int_of_nat)
  then have "(2 :: rat) powi e = inverse (2 ^ nat (- e))" using e by simp
  then show ?thesis by (simp add: divide_inverse)
qed

lemma round64_zero [simp]: "round64 0 = 0"
  by (simp add: round64_def)

lemma round64_nonneg: "0 \<le> q \<Longrightarrow> 0 \<le> round64 q"
proof -
  assume q: "0 \<le> q"
  have "0 \<le> rne (\<bar>q\<bar> / 2 powi e)" for e by (rule rne_ge) simp
  with q show ?thesis by (auto simp: round64_def Let_def sgn_if)
qed

lemma round64_le_int:
  assumes "0 \<le> q" and "q \<le> of_int n" and "q < 2 ^ 53"
  shows "round64 q \<le> of_int n"
proof (cases "q = 0")
  case True
  with assms show ?thesis by simp
next
  case False
  with assms(1) have q: "0 < q" by simp
  define e where "e = binade q - 52"
  have e: "e \<le> 0" using binade_small [OF q assms(3)] by (simp add: e_def)
  have "q / 2 powi e \<le> of_int n / 2 powi e"
    using assms(2) by (simp add: divide_right_mono)
  then have "rne (q / 2 powi e) \<le> n * 2 ^ nat (- e)"
    by (intro rne_le) (simp add: powi_neg_int [OF e])
  then have "(of_int (rne (q / 2 powi e)) :: rat) \<le> of_int n / 2 powi e"
    by (metis of_int_le_iff powi_neg_int [OF e])
  then have "of_int (rne (q / 2 powi e)) * 2 powi e \<le> (of_int n :: rat)"
    by (simp add: field_simps)
  with q show ?thesis by (simp add: round64_def e_def Let_def)
qed

lemma round64_int: "\<bar>n\<bar> < 2 ^ 53 \<Longrightarrow> round64 (of_int n) = of_int n"
proof (cases "n = 0")
  case True
  then show ?thesis by simp
next
  case False
  assume n: "\<bar>n\<bar> < 2 ^ 53"
  define e where "e = binade \<bar>of_int n\<bar> - 52"
  have "\<bar>of_int n\<bar> < (2 ^ 53 :: rat)"
    using n by (metis of_int_abs of_int_less_iff of_int_numeral of_int_power)
  then have "e \<le> 0" using binade_small [of "\<bar>of_int n\<bar>"] False by (simp add: e_def)
  then have "\<bar>of_int n\<bar> / 2 powi e = (of_int (\<bar>n\<bar> * 2 ^ nat (- e)) :: rat)"
    using powi_neg_int [of e "\<bar>n\<bar>"] by simp
  then have "of_int (rne (\<bar>of_int n\<bar> / 2 powi e)) * 2 powi e = (\<bar>of_int n\<bar> :: rat)"
    by (metis nonzero_eq_divide_eq power_int_not_zero rne_int zero_neq_numeral)
  then show ?thesis using False
    by (simp add: round64_def Let_def e_def sgn_mult_abs del: of_int_mult)
qed

definition float_of_int :: "int \<Rightarrow> float64" where
  "float_of_int n = round64 (of_int n)"

definition fadd :: "float64 \<Rightarrow> float64 \<Rightarrow> float64" where
  "fadd x y = round64 (x + y)"

definition fmul :: "float64 \<Rightarrow> float64 \<Rightarrow> float64" where
  "fmul x y = round64 (x * y)"

definition fdiv :: "float64 \<Rightarrow> float64 \<Rightarrow> float64" where
  "fdiv x y = round64 (x / y)"

text \<open>\<^verbatim>\<open>math.Round\<close>: to the nearest integer, halves away from zero.\<close>

definition math_Round :: "float64 \<Rightarrow> int" where
  "math_Round x = (if 0 \<le> x then \<lfloor>x + 1 / 2\<rfloor> else - \<lfloor>1 / 2 - x\<rfloor>)"

lemma math_Round_int [simp]: "math_Round (of_int n) = n"
proof -
  have "\<lfloor>of_int n + (1 / 2 :: rat)\<rfloor> = n" by linarith
  moreover have "- \<lfloor>1 / 2 - (of_int n :: rat)\<rfloor> = n" by linarith
  ultimately show ?thesis by (simp add: math_Round_def)
qed

lemma math_Round_bounds: "0 \<le> x \<Longrightarrow> x \<le> of_int n \<Longrightarrow> 0 \<le> math_Round x \<and> math_Round x \<le> n"
  unfolding math_Round_def by (simp, linarith)

section \<open>Time\<close>

type_synonym duration = int
type_synonym time = int

abbreviation Second :: duration where "Second \<equiv> 1000000000"
abbreviation Millisecond :: duration where "Millisecond \<equiv> 1000000"

text \<open>The zero \<^verbatim>\<open>time.Time\<close>: January 1, year 1, in nanoseconds since the Unix epoch.\<close>

definition zero_time :: time where
  "zero_time = - 62135596800 * Second"

text \<open>\<^verbatim>\<open>Time.Sub\<close> saturates at the ends of the duration range.\<close>

definition time_Sub :: "time \<Rightarrow> time \<Rightarrow> duration" where
  "time_Sub t u = max min_int64 (min max_int64 (t - u))"

lemma time_Sub_exact: "min_int64 \<le> t - u \<Longrightarrow> t - u \<le> max_int64 \<Longrightarrow> time_Sub t u = t - u"
  by (simp add: time_Sub_def)

text \<open>\<^verbatim>\<open>Duration.Seconds\<close>: whole seconds and the truncated remainder, added in \<^verbatim>\<open>float64\<close>.\<close>

definition duration_Seconds :: "duration \<Rightarrow> float64" where
  "duration_Seconds d =
     (let sec = sgn d * (\<bar>d\<bar> div Second); nsec = sgn d * (\<bar>d\<bar> mod Second)
      in fadd (float_of_int sec) (fdiv (float_of_int nsec) (float_of_int Second)))"

text \<open>A duration of a whole number of seconds (below \<open>2 ^ 53\<close>) is read exactly.\<close>

lemma duration_Seconds_whole:
  assumes "\<bar>n\<bar> < 2 ^ 53"
  shows "duration_Seconds (n * Second) = of_int n"
proof -
  have "sgn (n * Second) * (\<bar>n * Second\<bar> div Second) = n"
    by (simp add: abs_mult sgn_mult sgn_mult_abs)
  moreover have "\<bar>n * Second\<bar> mod Second = 0"
    by (simp add: abs_mult)
  ultimately show ?thesis
    using round64_int [OF assms] by (simp add: duration_Seconds_def Let_def float_of_int_def fdiv_def fadd_def)
qed

end
