(* ===== verification/Go_Sync.thy ===== *)
theory Go_Sync
  imports Go_Strings
begin

text \<open>
  Go's \<^verbatim>\<open>sync.Map\<close> as the controllers use it: \<^verbatim>\<open>Load\<close>, \<^verbatim>\<open>Store\<close>, \<^verbatim>\<open>Delete\<close>, \<^verbatim>\<open>LoadOrStore\<close> and
  \<^verbatim>\<open>Range\<close> on an association list. The locale \<open>sync_map\<close> states the contract the controllers
  rely on, and the list implementation is shown to meet it.
\<close>

definition sm_Load :: "('k, 'v) gomap \<Rightarrow> 'k \<Rightarrow> 'v option" where
  "sm_Load m k = map_of m k"

definition sm_Store :: "'k \<Rightarrow> 'v \<Rightarrow> ('k, 'v) gomap \<Rightarrow> ('k, 'v) gomap" where
  "sm_Store k v m = AList.update k v m"

definition sm_Delete :: "'k \<Rightarrow> ('k, 'v) gomap \<Rightarrow> ('k, 'v) gomap" where
  "sm_Delete k m = AList.delete k m"

text \<open>The value now stored, whether it was loaded, and the map afterwards.\<close>

definition sm_LoadOrStore :: "'k \<Rightarrow> 'v \<Rightarrow> ('k, 'v) gomap \<Rightarrow> 'v \<times> bool \<times> ('k, 'v) gomap" where
  "sm_LoadOrStore k v m =
     (case sm_Load m k of Some w \<Rightarrow> (w, True, m) | None \<Rightarrow> (v, False, sm_Store k v m))"

text \<open>\<^verbatim>\<open>Range\<close> with a callback that stops at the first entry it accepts.\<close>

definition sm_Range_any :: "('k \<Rightarrow> 'v \<Rightarrow> bool) \<Rightarrow> ('k, 'v) gomap \<Rightarrow> bool" where
  "sm_Range_any f m = list_ex (\<lambda>(k, v). f k v) m"

locale sync_map =
  fixes load :: "'m \<Rightarrow> 'k \<Rightarrow> 'v option"
    and store :: "'k \<Rightarrow> 'v \<Rightarrow> 'm \<Rightarrow> 'm"
    and delete :: "'k \<Rightarrow> 'm \<Rightarrow> 'm"
    and load_or_store :: "'k \<Rightarrow> 'v \<Rightarrow> 'm \<Rightarrow> 'v \<times> bool \<times> 'm"
    and range_any :: "('k \<Rightarrow> 'v \<Rightarrow> bool) \<Rightarrow> 'm \<Rightarrow> bool"
    and size_of :: "'m \<Rightarrow> nat"
    and ok :: "'m \<Rightarrow> bool"
  assumes load_store: "load (store k v m) = (load m)(k \<mapsto> v)"
    and load_delete: "load (delete k m) = (load m)(k := None)"
    and load_or_store_eq:
      "load_or_store k v m = (case load m k of Some w \<Rightarrow> (w, True, m) | None \<Rightarrow> (v, False, store k v m))"
    and range_any_iff: "ok m \<Longrightarrow> range_any f m \<longleftrightarrow> (\<exists>k v. load m k = Some v \<and> f k v)"
    and size_of_card: "ok m \<Longrightarrow> size_of m = card (dom (load m)) \<and> finite (dom (load m))"
    and ok_store: "ok m \<Longrightarrow> ok (store k v m)"
    and ok_delete: "ok m \<Longrightarrow> ok (delete k m)"
begin

lemma load_or_store_fresh:
  "load m k = None \<Longrightarrow> load_or_store k v m = (v, False, store k v m)"
  by (simp add: load_or_store_eq)

lemma load_or_store_present:
  "load m k = Some w \<Longrightarrow> load_or_store k v m = (w, True, m)"
  by (simp add: load_or_store_eq)

lemma ok_load_or_store: "ok m \<Longrightarrow> ok (snd (snd (load_or_store k v m)))"
  by (auto simp: load_or_store_eq ok_store split: option.splits)

lemma load_after_load_or_store:
  "load (snd (snd (load_or_store k v m))) = (case load m k of None \<Rightarrow> (load m)(k \<mapsto> v) | Some _ \<Rightarrow> load m)"
  by (auto simp: load_or_store_eq load_store split: option.splits)

lemma size_store_fresh: "ok m \<Longrightarrow> load m k = None \<Longrightarrow> size_of (store k v m) = Suc (size_of m)"
  using size_of_card [of m] size_of_card [OF ok_store, of m k v] by (simp add: load_store domIff)

lemma size_store_present: "ok m \<Longrightarrow> load m k = Some w \<Longrightarrow> size_of (store k v m) = size_of m"
  using size_of_card [of m] size_of_card [OF ok_store, of m k v]
  by (simp add: load_store insert_absorb domIff)

lemma size_delete_le: "ok m \<Longrightarrow> size_of (delete k m) \<le> size_of m"
  using size_of_card [of m] size_of_card [OF ok_delete, of m k]
  by (simp add: load_delete card_Diff1_le)

end

interpretation sm: sync_map sm_Load sm_Store sm_Delete sm_LoadOrStore sm_Range_any length map_ok
proof unfold_locales
  fix m :: "('k, 'v) gomap" and f :: "'k \<Rightarrow> 'v \<Rightarrow> bool"
  assume "map_ok m"
  then have "(k, v) \<in> set m \<longleftrightarrow> map_of m k = Some v" for k v
    by (simp add: map_ok_def)
  then show "sm_Range_any f m \<longleftrightarrow> (\<exists>k v. sm_Load m k = Some v \<and> f k v)"
    by (auto simp: sm_Range_any_def sm_Load_def list_ex_iff)
next
  fix m :: "('k, 'v) gomap"
  assume "map_ok m"
  then show "length m = card (dom (sm_Load m)) \<and> finite (dom (sm_Load m))"
    by (metis finite_dom_map_of map_ok_card sm_Load_def ext)
qed (auto simp: sm_Load_def sm_Store_def sm_Delete_def sm_LoadOrStore_def fun_eq_iff)

lemmas sync_map_defs = sm_Load_def sm_Store_def sm_Delete_def sm_LoadOrStore_def

end
