(* ===== verification/Common_Utils.thy ===== *)
theory Common_Utils
  imports Go_Sync
begin

text \<open>
  \<^verbatim>\<open>controllers/common/utils.go\<close>: case-insensitive membership, integer extrema, splitting a slice
  into chunks and the length of a \<^verbatim>\<open>sync.Map\<close>. Shown: membership is invariant under case changes;
  \<open>GetChunks\<close> returns for every positive chunk size, its chunks concatenate to the input, none is
  empty or longer than the size, and only the last may be shorter; \<open>GetSyncMapLen\<close> counts keys.
\<close>

section \<open>Definitions\<close>

fun ContainsEqualFold :: "string list \<Rightarrow> string \<Rightarrow> bool" where
  "ContainsEqualFold [] s = False"
| "ContainsEqualFold (item # slice) s = (if EqualFold item s then True else ContainsEqualFold slice s)"

definition IntMax :: "int \<Rightarrow> int \<Rightarrow> int" where
  "IntMax a b = (if a > b then a else b)"

definition IntMin :: "int \<Rightarrow> int \<Rightarrow> int" where
  "IntMin a b = (if a < b then a else b)"

text \<open>
  The loop of \<open>GetChunks\<close> from index \<open>i\<close>. The slice expression panics unless
  \<open>0 \<le> i \<le> end\<close>, and the loop does not end for a chunk size of 0: both are \<open>None\<close>.
\<close>

partial_function (option) GetChunks_loop ::
  "string list \<Rightarrow> int \<Rightarrow> int \<Rightarrow> string list list \<Rightarrow> string list list option" where
  "GetChunks_loop items chunkSize i chunks =
     (if i < int (length items)
      then let e = IntMin (i + chunkSize) (int (length items))
           in if 0 \<le> i \<and> i \<le> e
              then GetChunks_loop items chunkSize (i + chunkSize)
                     (chunks @ [take (nat (e - i)) (drop (nat i) items)])
              else None
      else Some chunks)"

definition GetChunks :: "string list \<Rightarrow> int \<Rightarrow> string list list option" where
  "GetChunks items chunkSize = GetChunks_loop items chunkSize 0 []"

definition GetSyncMapLen :: "('k, 'v) gomap \<Rightarrow> int" where
  "GetSyncMapLen m = fold (\<lambda>_ count. count + 1) m 0"

section \<open>Membership up to case\<close>

lemma ContainsEqualFold_iff: "ContainsEqualFold slice s \<longleftrightarrow> (\<exists>item \<in> set slice. EqualFold item s)"
  by (induction slice) auto

lemma ContainsEqualFold_cong: "EqualFold s t \<Longrightarrow> ContainsEqualFold slice s = ContainsEqualFold slice t"
  using fold.eqf_right_cong by (simp add: ContainsEqualFold_iff)

lemma ContainsEqualFold_mem [intro]: "s \<in> set slice \<Longrightarrow> ContainsEqualFold slice s"
  by (auto simp: ContainsEqualFold_iff)

lemma ContainsEqualFold_set: "set xs = set ys \<Longrightarrow> ContainsEqualFold xs s = ContainsEqualFold ys s"
  by (simp add: ContainsEqualFold_iff)

lemma ContainsEqualFold_append [simp]:
  "ContainsEqualFold (xs @ ys) s \<longleftrightarrow> ContainsEqualFold xs s \<or> ContainsEqualFold ys s"
  by (auto simp: ContainsEqualFold_iff)

section \<open>Chunks\<close>

text \<open>The reference: take \<open>n\<close> elements at a time.\<close>

fun chunks_of :: "nat \<Rightarrow> 'a list \<Rightarrow> 'a list list" where
  "chunks_of n [] = []"
| "chunks_of n (x # xs) = (x # take (n - 1) xs) # chunks_of n (drop (n - 1) xs)"

lemma chunks_of_step: "0 < n \<Longrightarrow> xs \<noteq> [] \<Longrightarrow> chunks_of n xs = take n xs # chunks_of n (drop n xs)"
  by (cases xs; cases n) auto

lemma concat_chunks_of: "concat (chunks_of n xs) = xs"
  by (induction n xs rule: chunks_of.induct) auto

lemma chunks_of_length: "0 < n \<Longrightarrow> c \<in> set (chunks_of n xs) \<Longrightarrow> 0 < length c \<and> length c \<le> n"
proof (induction n xs rule: chunks_of.induct)
  case (2 n x xs)
  show ?case
  proof (cases "c \<in> set (chunks_of n (drop (n - 1) xs))")
    case True
    with "2.IH" "2.prems"(1) show ?thesis by blast
  next
    case False
    with "2.prems" have "c = x # take (n - 1) xs" by simp
    with "2.prems"(1) show ?thesis by simp
  qed
qed simp

lemma chunks_of_full:
  "0 < n \<Longrightarrow> c \<in> set (butlast (chunks_of n xs)) \<Longrightarrow> length c = n"
proof (induction n xs rule: chunks_of.induct)
  case (2 n x xs)
  show ?case
  proof (cases "chunks_of n (drop (n - 1) xs) = []")
    case True
    with "2.prems" show ?thesis by simp
  next
    case False
    then have "drop (n - 1) xs \<noteq> []" by (cases "drop (n - 1) xs") auto
    then have "n - 1 < length xs" by simp
    with False "2.prems" "2.IH" show ?thesis by auto
  qed
qed simp

lemma GetChunks_loop_chunks_of:
  "0 < chunkSize \<Longrightarrow>
   GetChunks_loop items chunkSize (int i) chunks = Some (chunks @ chunks_of (nat chunkSize) (drop i items))"
proof (induction "length items - i" arbitrary: i chunks rule: less_induct)
  case less
  show ?case
  proof (cases "i < length items")
    case False
    then show ?thesis by (subst GetChunks_loop.simps) simp
  next
    case True
    define n where "n = nat chunkSize"
    have n: "0 < n" "chunkSize = int n" using less.prems by (auto simp: n_def)
    have len: "nat (IntMin (int i + chunkSize) (int (length items)) - int i) = min n (length items - i)"
      using True n by (auto simp: IntMin_def)
    have le: "0 \<le> int i \<and> int i \<le> IntMin (int i + chunkSize) (int (length items))"
      using True n by (auto simp: IntMin_def)
    have tk: "take (min n (length items - i)) (drop i items) = take n (drop i items)"
      by (simp add: min_def)
    have "GetChunks_loop items chunkSize (int i) chunks =
          GetChunks_loop items chunkSize (int (i + n)) (chunks @ [take n (drop i items)])"
      using True le by (subst GetChunks_loop.simps) (simp add: Let_def len [unfolded n(2)] tk n(2))
    also have "\<dots> = Some ((chunks @ [take n (drop i items)]) @ chunks_of n (drop (i + n) items))"
      using less.hyps [of "i + n", OF _ less.prems] n(1) True by (simp add: n_def [symmetric])
    also have "\<dots> = Some (chunks @ chunks_of n (drop i items))"
      using chunks_of_step [of n "drop i items"] n True by (simp add: add.commute)
    finally show ?thesis by (simp add: n_def)
  qed
qed

lemma GetChunks_chunks_of: "0 < chunkSize \<Longrightarrow> GetChunks items chunkSize = Some (chunks_of (nat chunkSize) items)"
  using GetChunks_loop_chunks_of [of chunkSize items 0 "[]"] by (simp add: GetChunks_def)

section \<open>Length of a sync.Map\<close>

lemma GetSyncMapLen_length: "GetSyncMapLen m = int (length m)"
proof -
  have "fold (\<lambda>_ count. count + 1) m c = c + int (length m)" for c :: int
    by (induction m arbitrary: c) auto
  then show ?thesis by (simp add: GetSyncMapLen_def)
qed

lemma GetSyncMapLen_card: "map_ok m \<Longrightarrow> GetSyncMapLen m = int (card (dom (map_of m)))"
  by (simp add: GetSyncMapLen_length map_ok_card)

section \<open>Properties\<close>

text \<open>C30: \<open>GetChunks\<close> with a positive chunk size always returns; the chunks joined in order are the
  input, every chunk has between one and \<open>chunkSize\<close> items, and every chunk but the last is full.\<close>

theorem GetChunks_correct:
  assumes "0 < chunkSize"
  shows "\<exists>chunks. GetChunks items chunkSize = Some chunks \<and> concat chunks = items \<and>
    (\<forall>c \<in> set chunks. 0 < length c \<and> int (length c) \<le> chunkSize) \<and>
    (\<forall>c \<in> set (butlast chunks). int (length c) = chunkSize)"
proof (intro exI conjI ballI)
  let ?chunks = "chunks_of (nat chunkSize) items"
  have n: "0 < nat chunkSize" using assms by simp
  show "GetChunks items chunkSize = Some ?chunks" using assms by (rule GetChunks_chunks_of)
  show "concat ?chunks = items" by (rule concat_chunks_of)
  fix c assume "c \<in> set ?chunks"
  then have "0 < length c \<and> length c \<le> nat chunkSize" by (rule chunks_of_length [OF n])
  with assms show "0 < length c" "int (length c) \<le> chunkSize" by auto
next
  fix c assume "c \<in> set (butlast (chunks_of (nat chunkSize) items))"
  then have "length c = nat chunkSize" using assms by (intro chunks_of_full) simp_all
  with assms show "int (length c) = chunkSize" by simp
qed

theorem GetChunks_correct_witness:
  "\<exists>chunks. GetChunks [''a'', ''b'', ''c''] 2 = Some chunks \<and> concat chunks = [''a'', ''b'', ''c''] \<and>
    (\<forall>c \<in> set chunks. 0 < length c \<and> int (length c) \<le> 2) \<and>
    (\<forall>c \<in> set (butlast chunks). int (length c) = 2)"
  using GetChunks_correct [of 2 "[''a'', ''b'', ''c'']"] by simp

end
