(* ===== verification/Api_Types.thy ===== *)
theory Api_Types
  imports Go_Numbers Common_Utils
begin

text \<open>
  \<^verbatim>\<open>api/v1alpha1/rollingupgrade_types.go\<close>: the RollingUpgrade resource. Structs are records whose
  fields carry the struct's short name as a prefix, pointers and nil-able fields are options,
  maps are association lists or partial functions. The accessor methods keep their names.
  Validation is split at the four checks of \<^verbatim>\<open>Validate\<close>. Shown: which resources are accepted, that
  an accepted resource satisfies \<open>strategy_ok\<close> with every default filled in and nothing else
  changed, and that validation is idempotent.
\<close>

section \<open>Data\<close>

named_theorems api_defs \<open>definitions of the resource's accessors\<close>

text \<open>\<^verbatim>\<open>intstr.IntOrString\<close> of the Kubernetes API machinery, a tagged pair.\<close>

datatype IntOrStringType = IntType | StringType

record IntOrString =
  ios_Type :: IntOrStringType
  ios_IntVal :: int
  ios_StrVal :: string

record UpdateStrategy =
  strategy_Type :: string
  strategy_Mode :: string
  strategy_MaxUnavailable :: IntOrString
  strategy_DrainTimeout :: "int option"

record PreDrainSpec =
  preDrain_Script :: string

record PostDrainSpec =
  postDrain_Script :: string
  postDrain_WaitSeconds :: int
  postDrain_PostWaitScript :: string

record PostTerminateSpec =
  postTerminate_Script :: string

record NodeReadinessGate =
  gate_MatchLabels :: "(string, string) gomap"

record RollingUpgradeSpec =
  spec_PostDrainDelaySeconds :: int
  spec_NodeIntervalSeconds :: int
  spec_AsgName :: string
  spec_PreDrain :: PreDrainSpec
  spec_PostDrain :: PostDrainSpec
  spec_PostTerminate :: PostTerminateSpec
  spec_Strategy :: UpdateStrategy
  spec_IgnoreDrainFailures :: "bool option"
  spec_ForceRefresh :: bool
  spec_ReadinessGates :: "NodeReadinessGate list"

type_synonym RollingUpgradeStep = string

record RollingUpgradeCondition =
  cond_Type :: string
  cond_Status :: string

record RollingUpgradeStatistics =
  stat_StepName :: RollingUpgradeStep
  stat_DurationSum :: duration
  stat_DurationCount :: int

record NodeStepDuration =
  nsd_GroupName :: string
  nsd_NodeName :: string
  nsd_StepName :: RollingUpgradeStep
  nsd_Duration :: duration

record NodeInProcessing =
  nip_NodeName :: string
  nip_StepName :: RollingUpgradeStep
  nip_UpgradeStartTime :: time
  nip_StepStartTime :: time
  nip_StepEndTime :: time

record RollingUpgradeStatus =
  status_CurrentStatus :: string
  status_StartTime :: string
  status_EndTime :: string
  status_TotalProcessingTime :: string
  status_NodesProcessed :: int
  status_TotalNodes :: int
  status_CompletePercentage :: string
  status_Conditions :: "RollingUpgradeCondition list"
  status_LastNodeTerminationTime :: "time option"
  status_LastNodeDrainTime :: "time option"
  status_Statistics :: "RollingUpgradeStatistics list"
  status_LastBatchNodes :: "string list"
  status_NodeInProcessing :: "(string, NodeInProcessing) gomap"

text \<open>Of the object metadata, the fields the controllers read or write.\<close>

record RollingUpgrade =
  meta_Name :: string
  meta_Namespace :: string
  meta_UID :: string
  meta_ResourceVersion :: string
  meta_Labels :: "string \<rightharpoonup> string"
  meta_CreationTimestamp :: time
  meta_DeletionTimestamp :: "time option"
  ru_Spec :: RollingUpgradeSpec
  ru_Status :: RollingUpgradeStatus

section \<open>Constants\<close>

abbreviation StatusInit :: string where
  "StatusInit \<equiv> ''init''"
abbreviation StatusRunning :: string where
  "StatusRunning \<equiv> ''running''"
abbreviation StatusComplete :: string where
  "StatusComplete \<equiv> ''completed''"
abbreviation StatusError :: string where
  "StatusError \<equiv> ''error''"

abbreviation NodeRotationTotal :: string where
  "NodeRotationTotal \<equiv> ''total''"
abbreviation NodeRotationKickoff :: string where
  "NodeRotationKickoff \<equiv> ''kickoff''"
abbreviation NodeRotationDesiredNodeReady :: string where
  "NodeRotationDesiredNodeReady \<equiv> ''desired_node_ready''"
abbreviation NodeRotationPredrainScript :: string where
  "NodeRotationPredrainScript \<equiv> ''predrain_script''"
abbreviation NodeRotationDrain :: string where
  "NodeRotationDrain \<equiv> ''drain''"
abbreviation NodeRotationPostdrainScript :: string where
  "NodeRotationPostdrainScript \<equiv> ''postdrain_script''"
abbreviation NodeRotationPostWait :: string where
  "NodeRotationPostWait \<equiv> ''post_wait''"
abbreviation NodeRotationTerminate :: string where
  "NodeRotationTerminate \<equiv> ''terminate''"
abbreviation NodeRotationPostTerminate :: string where
  "NodeRotationPostTerminate \<equiv> ''post_terminate''"
abbreviation NodeRotationTerminated :: string where
  "NodeRotationTerminated \<equiv> ''terminated''"
abbreviation NodeRotationCompleted :: string where
  "NodeRotationCompleted \<equiv> ''completed''"

abbreviation LabelKeyRollingUpgradeCurrentStatus :: string where
  "LabelKeyRollingUpgradeCurrentStatus \<equiv> ''rollingupgrade.keikoproj.io/current-status''"

abbreviation RandomUpdateStrategy :: string where
  "RandomUpdateStrategy \<equiv> ''randomUpdate''"
abbreviation UniformAcrossAzUpdateStrategy :: string where
  "UniformAcrossAzUpdateStrategy \<equiv> ''uniformAcrossAzUpdate''"
abbreviation UpdateStrategyModeLazy :: string where
  "UpdateStrategyModeLazy \<equiv> ''lazy''"
abbreviation UpdateStrategyModeEager :: string where
  "UpdateStrategyModeEager \<equiv> ''eager''"

text \<open>A missing key of a Go map reads as the zero value, here 0.\<close>

definition NodeRotationStepOrders :: "RollingUpgradeStep \<Rightarrow> int" where
  "NodeRotationStepOrders step =
     (case map_of
        [(NodeRotationKickoff, 10), (NodeRotationDesiredNodeReady, 20),
         (NodeRotationPredrainScript, 30), (NodeRotationDrain, 40),
         (NodeRotationPostdrainScript, 50), (NodeRotationPostWait, 60),
         (NodeRotationTerminate, 70), (NodeRotationPostTerminate, 80),
         (NodeRotationTerminated, 90), (NodeRotationCompleted, 1000)] step of
        None \<Rightarrow> 0 | Some n \<Rightarrow> n)"

definition FiniteStates :: "string list" where
  "FiniteStates = [StatusComplete, StatusError]"

definition AllowedStrategyType :: "string list" where
  "AllowedStrategyType = [RandomUpdateStrategy, UniformAcrossAzUpdateStrategy]"

definition AllowedStrategyMode :: "string list" where
  "AllowedStrategyMode = [UpdateStrategyModeLazy, UpdateStrategyModeEager]"

definition DefaultRequeueTime :: duration where
  "DefaultRequeueTime = Second * 30"

section \<open>Accessors\<close>

definition NamespacedName :: "RollingUpgrade \<Rightarrow> string" where
  "NamespacedName r = meta_Namespace r @ ''/'' @ meta_Name r"

definition ScalingGroupName :: "RollingUpgrade \<Rightarrow> string" where
  [api_defs]: "ScalingGroupName r = spec_AsgName (ru_Spec r)"

definition DrainTimeout :: "RollingUpgrade \<Rightarrow> int option" where
  [api_defs]: "DrainTimeout r = strategy_DrainTimeout (spec_Strategy (ru_Spec r))"

definition PostTerminateScript :: "RollingUpgrade \<Rightarrow> string" where
  [api_defs]: "PostTerminateScript r = postTerminate_Script (spec_PostTerminate (ru_Spec r))"

definition PostWaitScript :: "RollingUpgrade \<Rightarrow> string" where
  [api_defs]: "PostWaitScript r = postDrain_PostWaitScript (spec_PostDrain (ru_Spec r))"

definition PreDrainScript :: "RollingUpgrade \<Rightarrow> string" where
  [api_defs]: "PreDrainScript r = preDrain_Script (spec_PreDrain (ru_Spec r))"

definition PostDrainScript :: "RollingUpgrade \<Rightarrow> string" where
  [api_defs]: "PostDrainScript r = postDrain_Script (spec_PostDrain (ru_Spec r))"

definition CurrentStatus :: "RollingUpgrade \<Rightarrow> string" where
  [api_defs]: "CurrentStatus r = status_CurrentStatus (ru_Status r)"

definition UpdateStrategyType :: "RollingUpgrade \<Rightarrow> string" where
  [api_defs]: "UpdateStrategyType r = strategy_Type (spec_Strategy (ru_Spec r))"

definition MaxUnavailable :: "RollingUpgrade \<Rightarrow> IntOrString" where
  [api_defs]: "MaxUnavailable r = strategy_MaxUnavailable (spec_Strategy (ru_Spec r))"

definition LastNodeTerminationTime :: "RollingUpgrade \<Rightarrow> time option" where
  [api_defs]: "LastNodeTerminationTime r = status_LastNodeTerminationTime (ru_Status r)"

definition LastNodeDrainTime :: "RollingUpgrade \<Rightarrow> time option" where
  [api_defs]: "LastNodeDrainTime r = status_LastNodeDrainTime (ru_Status r)"

definition NodeIntervalSeconds :: "RollingUpgrade \<Rightarrow> int" where
  [api_defs]: "NodeIntervalSeconds r = spec_NodeIntervalSeconds (ru_Spec r)"

definition PostDrainDelaySeconds :: "RollingUpgrade \<Rightarrow> int" where
  [api_defs]: "PostDrainDelaySeconds r = spec_PostDrainDelaySeconds (ru_Spec r)"

definition StartTime :: "RollingUpgrade \<Rightarrow> string" where
  [api_defs]: "StartTime r = status_StartTime (ru_Status r)"

definition EndTime :: "RollingUpgrade \<Rightarrow> string" where
  [api_defs]: "EndTime r = status_EndTime (ru_Status r)"

definition IsForceRefresh :: "RollingUpgrade \<Rightarrow> bool" where
  [api_defs]: "IsForceRefresh r = spec_ForceRefresh (ru_Spec r)"

definition IsIgnoreDrainFailures :: "RollingUpgrade \<Rightarrow> bool option" where
  [api_defs]: "IsIgnoreDrainFailures r = spec_IgnoreDrainFailures (ru_Spec r)"

definition StrategyMode :: "RollingUpgrade \<Rightarrow> string" where
  [api_defs]: "StrategyMode r = strategy_Mode (spec_Strategy (ru_Spec r))"

definition GetStatus :: "RollingUpgrade \<Rightarrow> RollingUpgradeStatus" where
  [api_defs]: "GetStatus r = ru_Status r"

section \<open>Mutators\<close>

abbreviation upd_status ::
  "(RollingUpgradeStatus \<Rightarrow> RollingUpgradeStatus) \<Rightarrow> RollingUpgrade \<Rightarrow> RollingUpgrade" where
  "upd_status f r \<equiv> r\<lparr>ru_Status := f (ru_Status r)\<rparr>"

definition SetCurrentStatus :: "string \<Rightarrow> RollingUpgrade \<Rightarrow> RollingUpgrade" where
  [api_defs]: "SetCurrentStatus status r = upd_status (\<lambda>s. s\<lparr>status_CurrentStatus := status\<rparr>) r"

definition SetLabel :: "string \<Rightarrow> string \<Rightarrow> RollingUpgrade \<Rightarrow> RollingUpgrade" where
  [api_defs]: "SetLabel key value r = r\<lparr>meta_Labels := (meta_Labels r)(key \<mapsto> value)\<rparr>"

definition SetLastNodeTerminationTime :: "time option \<Rightarrow> RollingUpgrade \<Rightarrow> RollingUpgrade" where
  [api_defs]: "SetLastNodeTerminationTime t r =
     upd_status (\<lambda>s. s\<lparr>status_LastNodeTerminationTime := t\<rparr>) r"

definition SetLastNodeDrainTime :: "time option \<Rightarrow> RollingUpgrade \<Rightarrow> RollingUpgrade" where
  [api_defs]: "SetLastNodeDrainTime t r = upd_status (\<lambda>s. s\<lparr>status_LastNodeDrainTime := t\<rparr>) r"

definition SetStartTime :: "string \<Rightarrow> RollingUpgrade \<Rightarrow> RollingUpgrade" where
  [api_defs]: "SetStartTime t r = upd_status (\<lambda>s. s\<lparr>status_StartTime := t\<rparr>) r"

definition SetEndTime :: "string \<Rightarrow> RollingUpgrade \<Rightarrow> RollingUpgrade" where
  [api_defs]: "SetEndTime t r = upd_status (\<lambda>s. s\<lparr>status_EndTime := t\<rparr>) r"

definition SetTotalProcessingTime :: "string \<Rightarrow> RollingUpgrade \<Rightarrow> RollingUpgrade" where
  [api_defs]: "SetTotalProcessingTime t r = upd_status (\<lambda>s. s\<lparr>status_TotalProcessingTime := t\<rparr>) r"

definition SetTotalNodes :: "int \<Rightarrow> RollingUpgrade \<Rightarrow> RollingUpgrade" where
  [api_defs]: "SetTotalNodes n r = upd_status (\<lambda>s. s\<lparr>status_TotalNodes := n\<rparr>) r"

definition SetNodesProcessed :: "int \<Rightarrow> RollingUpgrade \<Rightarrow> RollingUpgrade" where
  [api_defs]: "SetNodesProcessed n r = upd_status (\<lambda>s. s\<lparr>status_NodesProcessed := n\<rparr>) r"

definition SetCompletePercentage :: "int \<Rightarrow> RollingUpgrade \<Rightarrow> RollingUpgrade" where
  [api_defs]: "SetCompletePercentage n r =
     upd_status (\<lambda>s. s\<lparr>status_CompletePercentage := Itoa n @ ''%''\<rparr>) r"

text \<open>\<^verbatim>\<open>SetCondition\<close>: overwrite the first condition of that type, otherwise append.\<close>

fun set_condition :: "RollingUpgradeCondition \<Rightarrow> RollingUpgradeCondition list \<Rightarrow> RollingUpgradeCondition list"
where
  "set_condition cond [] = [cond]"
| "set_condition cond (c # cs) =
     (if cond_Type c = cond_Type cond then cond # cs else c # set_condition cond cs)"

definition SetCondition :: "RollingUpgradeCondition \<Rightarrow> RollingUpgradeStatus \<Rightarrow> RollingUpgradeStatus" where
  "SetCondition cond s = s\<lparr>status_Conditions := set_condition cond (status_Conditions s)\<rparr>"

section \<open>Validation\<close>

abbreviation upd_strategy ::
  "(UpdateStrategy \<Rightarrow> UpdateStrategy) \<Rightarrow> RollingUpgrade \<Rightarrow> RollingUpgrade" where
  "upd_strategy f r \<equiv> r\<lparr>ru_Spec := (ru_Spec r)\<lparr>spec_Strategy := f (spec_Strategy (ru_Spec r))\<rparr>\<rparr>"

definition Validate_Type :: "UpdateStrategy \<Rightarrow> RollingUpgrade \<Rightarrow> error option \<times> RollingUpgrade" where
  "Validate_Type strategy r =
     (if strategy_Type strategy = '''' then
        (None, upd_strategy (\<lambda>s. s\<lparr>strategy_Type := RandomUpdateStrategy\<rparr>) r)
      else if \<not> ContainsEqualFold AllowedStrategyType (strategy_Type strategy) then
        (Some (Errorf (meta_Name r @ '': Invalid value for startegy Type - ''
           @ Itoa (ios_IntVal (strategy_MaxUnavailable strategy)))), r)
      else (None, r))"

definition Validate_Mode :: "UpdateStrategy \<Rightarrow> RollingUpgrade \<Rightarrow> error option \<times> RollingUpgrade" where
  "Validate_Mode strategy r =
     (if strategy_Mode strategy = '''' then
        (None, upd_strategy (\<lambda>s. s\<lparr>strategy_Mode := UpdateStrategyModeLazy\<rparr>) r)
      else if \<not> ContainsEqualFold AllowedStrategyMode (strategy_Mode strategy) then
        (Some (Errorf (meta_Name r @ '': Invalid value for startegy Mode - ''
           @ Itoa (ios_IntVal (strategy_MaxUnavailable strategy)))), r)
      else (None, r))"

definition Validate_MaxUnavailable ::
  "UpdateStrategy \<Rightarrow> RollingUpgrade \<Rightarrow> error option \<times> RollingUpgrade" where
  "Validate_MaxUnavailable strategy r =
     (let m = strategy_MaxUnavailable strategy in
      if ios_Type m = IntType \<and> ios_IntVal m = 0 then
        (None, upd_strategy (\<lambda>s. s\<lparr>strategy_MaxUnavailable :=
           (strategy_MaxUnavailable s)\<lparr>ios_IntVal := 1\<rparr>\<rparr>) r)
      else if ios_Type m = IntType \<and> ios_IntVal m < 0 then
        (Some (Errorf (meta_Name r @ '': Invalid value for startegy maxUnavailable - ''
           @ Itoa (ios_IntVal m))), r)
      else if ios_Type m = StringType then
        (let intValue = fst (Atoi (Trim (ios_StrVal m) CHR ''%'')) in
         if intValue \<le> 0 \<or> intValue > 100 then
           (Some (Errorf (meta_Name r @ '': Invalid value for startegy maxUnavailable - ''
              @ ios_StrVal m)), r)
         else (None, r))
      else (None, r))"

definition Validate_DrainTimeout ::
  "UpdateStrategy \<Rightarrow> RollingUpgrade \<Rightarrow> error option \<times> RollingUpgrade" where
  "Validate_DrainTimeout strategy r =
     (case strategy_DrainTimeout strategy of
        None \<Rightarrow> (None, r)
      | Some t \<Rightarrow>
          if t = 0 then (None, upd_strategy (\<lambda>s. s\<lparr>strategy_DrainTimeout := Some (-1)\<rparr>) r)
          else if t < -1 then
            (Some (Errorf (meta_Name r @ '': Invalid value for startegy DrainTimeout - ''
               @ Itoa (ios_IntVal (strategy_MaxUnavailable strategy)))), r)
          else (None, r))"

text \<open>The checks run in order on the strategy as it was at entry; the first error returns.\<close>

definition Validate :: "RollingUpgrade \<Rightarrow> (bool \<times> error option) \<times> RollingUpgrade" where
  "Validate r =
     (let strategy = spec_Strategy (ru_Spec r);
          (e1, r1) = Validate_Type strategy r
      in if e1 \<noteq> None then ((False, e1), r1) else
      let (e2, r2) = Validate_Mode strategy r1
      in if e2 \<noteq> None then ((False, e2), r2) else
      let (e3, r3) = Validate_MaxUnavailable strategy r2
      in if e3 \<noteq> None then ((False, e3), r3) else
      let (e4, r4) = Validate_DrainTimeout strategy r3
      in if e4 \<noteq> None then ((False, e4), r4) else ((True, None), r4))"

section \<open>A sample object\<close>

text \<open>A resource as submitted with only the scaling group set.\<close>

definition sample_RollingUpgrade :: RollingUpgrade where
  "sample_RollingUpgrade =
    \<lparr>meta_Name = ''ru'', meta_Namespace = ''ns'', meta_UID = ''uid-1'', meta_ResourceVersion = ''7'', meta_Labels = Map.empty, meta_CreationTimestamp = 1,
     meta_DeletionTimestamp = None,
     ru_Spec =
      \<lparr>spec_PostDrainDelaySeconds = 0, spec_NodeIntervalSeconds = 0, spec_AsgName = ''asg'',
       spec_PreDrain = \<lparr>preDrain_Script = ''''\<rparr>,
       spec_PostDrain = \<lparr>postDrain_Script = '''', postDrain_WaitSeconds = 0, postDrain_PostWaitScript = ''''\<rparr>,
       spec_PostTerminate = \<lparr>postTerminate_Script = ''''\<rparr>,
       spec_Strategy = \<lparr>strategy_Type = '''', strategy_Mode = '''',
         strategy_MaxUnavailable = \<lparr>ios_Type = IntType, ios_IntVal = 0, ios_StrVal = ''''\<rparr>,
         strategy_DrainTimeout = None\<rparr>,
       spec_IgnoreDrainFailures = None, spec_ForceRefresh = False, spec_ReadinessGates = []\<rparr>,
     ru_Status =
      \<lparr>status_CurrentStatus = '''', status_StartTime = '''', status_EndTime = '''',
       status_TotalProcessingTime = '''', status_NodesProcessed = 0, status_TotalNodes = 0,
       status_CompletePercentage = '''', status_Conditions = [],
       status_LastNodeTerminationTime = None, status_LastNodeDrainTime = None,
       status_Statistics = [], status_LastBatchNodes = [], status_NodeInProcessing = []\<rparr>\<rparr>"

section \<open>What validation guarantees\<close>

text \<open>The specification: what is accepted, how it is completed, and what then holds.\<close>

definition size_acceptable :: "IntOrString \<Rightarrow> bool" where
  "size_acceptable m \<longleftrightarrow>
     (case ios_Type m of
        IntType \<Rightarrow> 0 \<le> ios_IntVal m
      | StringType \<Rightarrow> 1 \<le> fst (Atoi (Trim (ios_StrVal m) CHR ''%''))
                    \<and> fst (Atoi (Trim (ios_StrVal m) CHR ''%'')) \<le> 100)"

definition strategy_acceptable :: "UpdateStrategy \<Rightarrow> bool" where
  "strategy_acceptable s \<longleftrightarrow>
     (strategy_Type s = '''' \<or> ContainsEqualFold AllowedStrategyType (strategy_Type s)) \<and>
     (strategy_Mode s = '''' \<or> ContainsEqualFold AllowedStrategyMode (strategy_Mode s)) \<and>
     size_acceptable (strategy_MaxUnavailable s) \<and>
     (case strategy_DrainTimeout s of None \<Rightarrow> True | Some t \<Rightarrow> -1 \<le> t)"

definition complete_strategy :: "UpdateStrategy \<Rightarrow> UpdateStrategy" where
  "complete_strategy s =
     \<lparr>strategy_Type = (if strategy_Type s = '''' then RandomUpdateStrategy else strategy_Type s),
      strategy_Mode = (if strategy_Mode s = '''' then UpdateStrategyModeLazy else strategy_Mode s),
      strategy_MaxUnavailable =
        (if ios_Type (strategy_MaxUnavailable s) = IntType \<and> ios_IntVal (strategy_MaxUnavailable s) = 0
         then (strategy_MaxUnavailable s)\<lparr>ios_IntVal := 1\<rparr> else strategy_MaxUnavailable s),
      strategy_DrainTimeout =
        (if strategy_DrainTimeout s = Some 0 then Some (-1) else strategy_DrainTimeout s)\<rparr>"

definition size_ok :: "IntOrString \<Rightarrow> bool" where
  "size_ok m \<longleftrightarrow> size_acceptable m \<and> (ios_Type m = IntType \<longrightarrow> 1 \<le> ios_IntVal m)"

definition strategy_ok :: "UpdateStrategy \<Rightarrow> bool" where
  "strategy_ok s \<longleftrightarrow>
     ContainsEqualFold AllowedStrategyType (strategy_Type s) \<and>
     ContainsEqualFold AllowedStrategyMode (strategy_Mode s) \<and>
     size_ok (strategy_MaxUnavailable s) \<and>
     (case strategy_DrainTimeout s of None \<Rightarrow> True | Some t \<Rightarrow> t = -1 \<or> 0 < t)"

lemma ContainsEqualFold_allowed:
  "ContainsEqualFold AllowedStrategyType RandomUpdateStrategy"
  "ContainsEqualFold AllowedStrategyMode UpdateStrategyModeLazy"
  by (auto simp: AllowedStrategyType_def AllowedStrategyMode_def)

lemma Validate_Type_result:
  "fst (Validate_Type s r) = None \<longleftrightarrow>
     strategy_Type s = '''' \<or> ContainsEqualFold AllowedStrategyType (strategy_Type s)"
  by (auto simp: Validate_Type_def)

lemma Validate_Mode_result:
  "fst (Validate_Mode s r) = None \<longleftrightarrow>
     strategy_Mode s = '''' \<or> ContainsEqualFold AllowedStrategyMode (strategy_Mode s)"
  by (auto simp: Validate_Mode_def)

lemma Validate_MaxUnavailable_result:
  "fst (Validate_MaxUnavailable s r) = None \<longleftrightarrow> size_acceptable (strategy_MaxUnavailable s)"
  by (auto simp: Validate_MaxUnavailable_def size_acceptable_def Let_def
           split: IntOrStringType.splits if_splits)

lemma Validate_DrainTimeout_result:
  "fst (Validate_DrainTimeout s r) = None \<longleftrightarrow>
     (case strategy_DrainTimeout s of None \<Rightarrow> True | Some t \<Rightarrow> -1 \<le> t)"
  by (auto simp: Validate_DrainTimeout_def split: option.splits)

lemma Validate_rejects:
  assumes "\<not> strategy_acceptable (spec_Strategy (ru_Spec r))"
  shows "\<exists>e r'. Validate r = ((False, Some e), r')"
proof -
  let ?s = "spec_Strategy (ru_Spec r)"
  obtain e1 r1 where 1: "Validate_Type ?s r = (e1, r1)" by fastforce
  obtain e2 r2 where 2: "Validate_Mode ?s r1 = (e2, r2)" by fastforce
  obtain e3 r3 where 3: "Validate_MaxUnavailable ?s r2 = (e3, r3)" by fastforce
  obtain e4 r4 where 4: "Validate_DrainTimeout ?s r3 = (e4, r4)" by fastforce
  have "e1 \<noteq> None \<or> e2 \<noteq> None \<or> e3 \<noteq> None \<or> e4 \<noteq> None"
    using assms Validate_Type_result [of ?s r] Validate_Mode_result [of ?s r1]
      Validate_MaxUnavailable_result [of ?s r2] Validate_DrainTimeout_result [of ?s r3]
    unfolding 1 2 3 4 strategy_acceptable_def by auto
  then show ?thesis
    by (cases e1; cases e2; cases e3; cases e4) (simp_all add: Validate_def Let_def 1 2 3 4)
qed

lemma Validate_accepts:
  assumes "strategy_acceptable (spec_Strategy (ru_Spec r))"
  shows "Validate r = ((True, None), upd_strategy complete_strategy r)"
proof -
  let ?s = "spec_Strategy (ru_Spec r)"
  note acc = assms [unfolded strategy_acceptable_def]
  have 1: "Validate_Type ?s r =
      (None, upd_strategy (\<lambda>s. s\<lparr>strategy_Type := strategy_Type (complete_strategy ?s)\<rparr>) r)"
    using acc by (auto simp: Validate_Type_def complete_strategy_def)
  have 2: "Validate_Mode ?s r' =
      (None, upd_strategy (\<lambda>s. s\<lparr>strategy_Mode := strategy_Mode (complete_strategy ?s)\<rparr>) r')"
    if "strategy_Mode (spec_Strategy (ru_Spec r')) = strategy_Mode ?s" for r'
    using acc that by (auto simp: Validate_Mode_def complete_strategy_def)
  have 3: "Validate_MaxUnavailable ?s r' =
      (None, upd_strategy (\<lambda>s. s\<lparr>strategy_MaxUnavailable := strategy_MaxUnavailable (complete_strategy ?s)\<rparr>) r')"
    if "strategy_MaxUnavailable (spec_Strategy (ru_Spec r')) = strategy_MaxUnavailable ?s" for r'
    using acc that
    by (auto simp: Validate_MaxUnavailable_def complete_strategy_def size_acceptable_def Let_def
             split: IntOrStringType.splits)
  have 4: "Validate_DrainTimeout ?s r' =
      (None, upd_strategy (\<lambda>s. s\<lparr>strategy_DrainTimeout := strategy_DrainTimeout (complete_strategy ?s)\<rparr>) r')"
    if "strategy_DrainTimeout (spec_Strategy (ru_Spec r')) = strategy_DrainTimeout ?s" for r'
    using acc that by (auto simp: Validate_DrainTimeout_def complete_strategy_def split: option.splits)
  show ?thesis
    by (simp add: Validate_def Let_def 1 2 3 4)
qed

lemma complete_strategy_ok: "strategy_acceptable s \<Longrightarrow> strategy_ok (complete_strategy s)"
  by (auto simp: strategy_acceptable_def strategy_ok_def complete_strategy_def size_ok_def
        size_acceptable_def ContainsEqualFold_allowed split: IntOrStringType.splits option.splits)

lemma strategy_ok_nonempty: "strategy_ok s \<Longrightarrow> strategy_Type s \<noteq> '''' \<and> strategy_Mode s \<noteq> ''''"
  by (auto simp: strategy_ok_def ContainsEqualFold_iff AllowedStrategyType_def AllowedStrategyMode_def)

lemma strategy_ok_complete: "strategy_ok s \<Longrightarrow> strategy_acceptable s \<and> complete_strategy s = s"
  using strategy_ok_nonempty [of s]
  by (cases "strategy_DrainTimeout s")
     (auto simp: strategy_ok_def strategy_acceptable_def complete_strategy_def size_ok_def)

section \<open>Properties\<close>

text \<open>C27: \<open>Validate\<close> accepts exactly the acceptable strategies and reports an error otherwise. On
  acceptance only the strategy changes, by filling in the documented defaults; the strategy it
  leaves is complete (allowed type and mode, a batch size of at least one node or one percent, a
  drain timeout that is -1 or positive), and validating again changes nothing.\<close>

theorem Validate_correct:
  "(case Validate r of ((ok, err), r') \<Rightarrow>
     (ok \<longleftrightarrow> strategy_acceptable (spec_Strategy (ru_Spec r))) \<and> (ok \<longleftrightarrow> err = None) \<and>
     (ok \<longrightarrow> r' = upd_strategy complete_strategy r \<and> strategy_ok (spec_Strategy (ru_Spec r')) \<and>
             Validate r' = ((True, None), r')))"
proof (cases "strategy_acceptable (spec_Strategy (ru_Spec r))")
  case True
  let ?r' = "upd_strategy complete_strategy r"
  have ok: "strategy_ok (spec_Strategy (ru_Spec ?r'))"
    using complete_strategy_ok [OF True] by simp
  have "upd_strategy complete_strategy ?r' = ?r'"
    using strategy_ok_complete [OF ok] by simp
  then have "Validate ?r' = ((True, None), ?r')"
    using Validate_accepts [of ?r'] strategy_ok_complete [OF ok] by simp
  then show ?thesis
    using True ok by (simp add: Validate_accepts)
next
  case False
  then show ?thesis using Validate_rejects [OF False] by auto
qed

theorem Validate_correct_witness:
  "strategy_acceptable (spec_Strategy (ru_Spec sample_RollingUpgrade)) \<and>
   fst (Validate sample_RollingUpgrade) = (True, None) \<and>
   strategy_ok (spec_Strategy (ru_Spec (snd (Validate sample_RollingUpgrade))))"
proof -
  have "strategy_acceptable (spec_Strategy (ru_Spec sample_RollingUpgrade))"
    by (simp add: sample_RollingUpgrade_def strategy_acceptable_def size_acceptable_def)
  then show ?thesis
    using Validate_correct [of sample_RollingUpgrade] by (auto split: prod.splits)
qed

end
