(* ===== verification/World.thy ===== *)
theory World
  imports Api_Types
begin

text \<open>
  The outside world of the controller. AWS (EC2 and Auto Scaling), the Kubernetes API, the
  \<^verbatim>\<open>kubectl\<close> drain library, shell scripts and the clock are not part of the sources: they are the
  fields of the record \<open>env\<close>, functions of the calls made so far and of the request. A theorem
  that holds for every \<open>env\<close> holds whatever those services answer. Every call is recorded with
  its outcome in the history \<open>hist\<close>, the first component of the state \<open>world\<close>, so ordering
  properties are statements about \<open>hist\<close>; the second component is the Prometheus registry.
  Go's \<^verbatim>\<open>range\<close> over a map visits the keys in an unspecified order: \<open>range_keys\<close> takes the
  order from the environment and accepts any permutation.

  Panics and non-termination of the Go code are the value \<open>None\<close> of the operations that can
  panic or fail to return; all other operations are total functions of the state.
\<close>

section \<open>Provider data\<close>

text \<open>
  Of the AWS SDK's structs, the fields the sources read. A pointer to a string or number is an
  option; \<^verbatim>\<open>aws.StringValue\<close> and \<^verbatim>\<open>aws.Int64Value\<close> read nil as the zero value.
\<close>

record LaunchTemplateSpecification =
  lts_LaunchTemplateName :: "string option"
  lts_Version :: "string option"

record Instance =
  inst_InstanceId :: "string option"
  inst_LifecycleState :: "string option"
  inst_AvailabilityZone :: "string option"
  inst_LaunchConfigurationName :: "string option"
  inst_LaunchTemplate :: "LaunchTemplateSpecification option"

text \<open>
  A mixed instances policy holds an optional launch template, which holds an optional
  specification: \<open>policy_LaunchTemplateSpecification\<close> is both levels of pointers.
\<close>

record MixedInstancesPolicy =
  policy_LaunchTemplateSpecification :: "LaunchTemplateSpecification option option"

record Group =
  group_AutoScalingGroupName :: "string option"
  group_DesiredCapacity :: "int option"
  group_Instances :: "Instance list"
  group_LaunchConfigurationName :: "string option"
  group_LaunchTemplate :: "LaunchTemplateSpecification option"
  group_MixedInstancesPolicy :: "MixedInstancesPolicy option"

record LaunchTemplate =
  lt_LaunchTemplateName :: "string option"
  lt_LatestVersionNumber :: "int option"

record Tag =
  tag_Key :: "string option"
  tag_Value :: "string option"

record Ec2Instance =
  ec2_InstanceId :: "string option"
  ec2_Tags :: "Tag list"

type_synonym Reservation = "Ec2Instance list"

text \<open>A page of a paginated answer: its items and whether it carries a next token.\<close>

type_synonym 'a page = "'a list \<times> bool"

datatype Filter = Filter string "string list"

definition StringValue :: "string option \<Rightarrow> string" where
  "StringValue s = (case s of None \<Rightarrow> '''' | Some v \<Rightarrow> v)"

definition Int64Value :: "int option \<Rightarrow> int" where
  "Int64Value n = (case n of None \<Rightarrow> 0 | Some v \<Rightarrow> v)"

lemma StringValue_simps [simp]: "StringValue None = ''''" "StringValue (Some v) = v"
  by (simp_all add: StringValue_def)

lemma Int64Value_simps [simp]: "Int64Value None = 0" "Int64Value (Some n) = n"
  by (simp_all add: Int64Value_def)

definition empty_Instance :: Instance where
  "empty_Instance = \<lparr>inst_InstanceId = None, inst_LifecycleState = None, inst_AvailabilityZone = None,
     inst_LaunchConfigurationName = None, inst_LaunchTemplate = None\<rparr>"

definition empty_Group :: Group where
  "empty_Group = \<lparr>group_AutoScalingGroupName = None, group_DesiredCapacity = None, group_Instances = [],
     group_LaunchConfigurationName = None, group_LaunchTemplate = None, group_MixedInstancesPolicy = None\<rparr>"

text \<open>A Kubernetes node, the fields the sources use.\<close>

record Node =
  node_Name :: string
  node_Labels :: "string \<rightharpoonup> string"
  node_Annotations :: "string \<rightharpoonup> string"
  node_CreationTimestamp :: time
  node_ProviderID :: string
  node_Unschedulable :: bool
  node_Conditions :: "(string \<times> string) list"

section \<open>Calls to the outside, with their outcomes\<close>

datatype event =
    EvNow
  | EvRange
  | EvSleep duration
  | EvDescribeLaunchTemplates
  | EvDescribeAutoScalingGroups
  | EvDescribeInstances "Filter list"
  | EvCreateTags "string list" string string "error option"
  | EvDeleteTags "string list" string string "error option"
  | EvTerminateInstance string "error option"
  | EvEnterStandby "string list" string "error option"
  | EvCordon string bool "error option"
  | EvDrain string duration "error option"
  | EvGetNode string "error option"
  | EvUpdateNode Node "error option"
  | EvListNodes "error option"
  | EvExec string "string list" "error option"
  | EvStatusUpdate RollingUpgrade "error option"
  | EvPatchLabel string string string "error option"
  | EvGetRollingUpgrade string "error option"
  | EvListRollingUpgrades
  | EvFlushCache string

text \<open>A client configuration is opaque: the controller only passes it on.\<close>

type_synonym rest_config = string

record env =
  env_clock :: "event list \<Rightarrow> time"
  env_range_order :: "event list \<Rightarrow> string list \<Rightarrow> string list"
  env_FormatRFC3339 :: "time \<Rightarrow> string"
  env_ParseRFC3339 :: "string \<Rightarrow> time option"
  env_DurationString :: "duration \<Rightarrow> string"
  env_GetValueFromIntOrPercent :: "IntOrString \<Rightarrow> int \<Rightarrow> bool \<Rightarrow> int \<times> error option"
  env_DescribeLaunchTemplatesPages :: "event list \<Rightarrow> LaunchTemplate page list \<times> error option"
  env_DescribeAutoScalingGroupsPages :: "event list \<Rightarrow> Group page list \<times> error option"
  env_DescribeInstancesPages :: "event list \<Rightarrow> Filter list \<Rightarrow> Reservation page list \<times> error option"
  env_CreateTags :: "event list \<Rightarrow> string list \<Rightarrow> string \<Rightarrow> string \<Rightarrow> error option"
  env_DeleteTags :: "event list \<Rightarrow> string list \<Rightarrow> string \<Rightarrow> string \<Rightarrow> error option"
  env_TerminateInstanceInAutoScalingGroup :: "event list \<Rightarrow> string \<Rightarrow> error option"
  env_EnterStandby :: "event list \<Rightarrow> string list \<Rightarrow> string \<Rightarrow> error option"
  env_RunCordonOrUncordon :: "event list \<Rightarrow> Node \<Rightarrow> bool \<Rightarrow> error option \<times> bool"
  env_RunNodeDrain :: "event list \<Rightarrow> string \<Rightarrow> duration \<Rightarrow> error option"
  env_NodesGet :: "event list \<Rightarrow> string \<Rightarrow> error + Node"
  env_NodesUpdate :: "event list \<Rightarrow> Node \<Rightarrow> error + Node"
  env_NodesList :: "event list \<Rightarrow> Node list option \<times> error option"
  env_Exec :: "event list \<Rightarrow> string \<Rightarrow> string list \<Rightarrow> error option"
  env_GetRollingUpgrade :: "event list \<Rightarrow> string \<Rightarrow> error + RollingUpgrade"
  env_ListRollingUpgrades :: "event list \<Rightarrow> error + RollingUpgrade list"
  env_StatusUpdate :: "event list \<Rightarrow> RollingUpgrade \<Rightarrow> error option"
  env_PatchLabel :: "event list \<Rightarrow> string \<Rightarrow> string \<Rightarrow> string \<Rightarrow> error option"
  env_Getenv :: "string \<Rightarrow> string"
  env_HomeDir :: "error + string"
  env_InClusterConfig :: "error + rest_config"
  env_BuildConfigFromFlags :: "string \<Rightarrow> string \<Rightarrow> error + rest_config"
  env_NewForConfig :: "rest_config \<Rightarrow> error option"

section \<open>The Prometheus registry\<close>

text \<open>
  Gauges hold their last value, summaries and the histogram the values observed, in order. A
  metric that is already registered is only logged, so registration has no state of its own.
\<close>

record metrics =
  nodeRotationTotal :: "float64 list"
  totalProcessingTime :: "string \<rightharpoonup> float64 list"
  totalNodesMetrics :: "string \<rightharpoonup> float64"
  nodesProcessedMetrics :: "string \<rightharpoonup> float64"
  stepSummaries :: "string \<rightharpoonup> (string \<rightharpoonup> float64 list)"
  CRStatus :: "string \<rightharpoonup> float64"

record world =
  hist :: "event list"
  registry :: metrics

section \<open>Making calls\<close>

definition log_event :: "event \<Rightarrow> 'a world_scheme \<Rightarrow> 'a world_scheme" where
  "log_event e w = w\<lparr>hist := hist w @ [e]\<rparr>"

lemma hist_log_event [simp, hist_simps]: "hist (log_event e w) = hist w @ [e]"
  by (simp add: log_event_def)

lemma registry_log_event [simp, frame_simps]: "registry (log_event e w) = registry w"
  by (simp add: log_event_def)

lemma more_log_event [simp, frame_simps]: "world.more (log_event e w) = world.more w"
  by (simp add: log_event_def)

text \<open>\<^verbatim>\<open>time.Now\<close>.\<close>

definition Now :: "env \<Rightarrow> 'a world_scheme \<Rightarrow> time \<times> 'a world_scheme" where
  "Now e w = (env_clock e (hist w), log_event EvNow w)"

text \<open>\<^verbatim>\<open>time.Sleep\<close>.\<close>

definition Sleep :: "duration \<Rightarrow> 'a world_scheme \<Rightarrow> 'a world_scheme" where
  "Sleep d w = log_event (EvSleep d) w"

text \<open>The keys of a map in the order this \<^verbatim>\<open>range\<close> visits them.\<close>

definition range_keys :: "env \<Rightarrow> string list \<Rightarrow> 'a world_scheme \<Rightarrow> string list \<times> 'a world_scheme" where
  "range_keys e ks w =
     (let ord = env_range_order e (hist w) ks
      in (if mset ord = mset ks then ord else ks, log_event EvRange w))"

lemma range_keys_perm: "mset (fst (range_keys e ks w)) = mset ks"
  by (simp add: range_keys_def Let_def)

lemma range_keys_set: "set (fst (range_keys e ks w)) = set ks"
  using range_keys_perm mset_eq_setD by blast

lemma range_keys_distinct: "distinct ks \<Longrightarrow> distinct (fst (range_keys e ks w))"
  using range_keys_perm mset_eq_imp_distinct_iff by blast

section \<open>Extending the history\<close>

text \<open>
  Every operation of the controllers only appends to the history. The predicate and its
  composition rules are shared by all components.
\<close>

definition extends :: "'a world_scheme \<Rightarrow> 'b world_scheme \<Rightarrow> bool" where
  "extends w w' \<longleftrightarrow> (\<exists>evs. hist w' = hist w @ evs)"

lemma extends_refl [simp, intro]: "extends w w"
  by (simp add: extends_def)

lemma extends_trans [trans]: "extends u v \<Longrightarrow> extends v w \<Longrightarrow> extends u w"
  by (auto simp: extends_def)

lemma extends_log_event [simp, intro]: "extends w (log_event e w)"
  by (simp add: extends_def)

text \<open>The events an operation added.\<close>

definition new_events :: "'a world_scheme \<Rightarrow> 'b world_scheme \<Rightarrow> event list" where
  "new_events w w' = drop (length (hist w)) (hist w')"

lemma new_events_append: "hist w' = hist w @ evs \<Longrightarrow> new_events w w' = evs"
  by (simp add: new_events_def)

text \<open>All events an operation adds satisfy \<open>P\<close>.\<close>

definition emits :: "(event \<Rightarrow> bool) \<Rightarrow> 'a world_scheme \<Rightarrow> 'b world_scheme \<Rightarrow> bool" where
  "emits P w w' \<longleftrightarrow> (\<exists>evs. hist w' = hist w @ evs \<and> list_all P evs)"

lemma emits_refl [simp, intro]: "emits P w w"
  by (simp add: emits_def)

lemma emits_same: "hist w' = hist w \<Longrightarrow> emits P w w'"
  by (simp add: emits_def)

lemma emits_trans [trans]: "emits P u v \<Longrightarrow> emits P v w \<Longrightarrow> emits P u w"
  by (auto simp: emits_def)

lemma emits_append: "hist w' = hist w @ evs \<Longrightarrow> emits P w w' \<longleftrightarrow> list_all P evs"
  by (auto simp: emits_def)

lemma emits_log_event [simp]: "emits P w (log_event ev w) \<longleftrightarrow> P ev"
  by (simp add: emits_append)

lemma emits_mono: "emits P w w' \<Longrightarrow> (\<And>ev. P ev \<Longrightarrow> Q ev) \<Longrightarrow> emits Q w w'"
  unfolding emits_def by (metis list.pred_mono_strong)

lemma emits_conj: "emits P w w' \<Longrightarrow> emits Q w w' \<Longrightarrow> emits (\<lambda>ev. P ev \<and> Q ev) w w'"
  by (auto simp: emits_def list_all_iff)

lemma emits_cong_left: "hist w = hist v \<Longrightarrow> emits P v w' \<Longrightarrow> emits P w w'"
  by (simp add: emits_def)

lemma emits_extends: "emits P w w' \<Longrightarrow> extends w w'"
  by (auto simp: emits_def extends_def)

lemma emits_forall: "emits P w w' \<Longrightarrow> ev \<in> set (new_events w w') \<Longrightarrow> P ev"
  by (auto simp: emits_def new_events_def list_all_iff)

lemma extends_hist: "extends w w' \<Longrightarrow> hist w' = hist w @ new_events w w'"
  by (auto simp: extends_def new_events_def)

section \<open>A sample environment\<close>

text \<open>
  An environment in which every call succeeds and the clock advances by one second per call,
  with no cloud resources; examples override the answers they need.
\<close>

definition sample_env :: env where
  "sample_env = \<lparr>env_clock = (\<lambda>h. Second * (1000000 + int (length h))),
     env_range_order = (\<lambda>h ks. rev ks),
     env_FormatRFC3339 = (\<lambda>t. Itoa t),
     env_ParseRFC3339 = (\<lambda>s. case Atoi s of (n, ok) \<Rightarrow> if ok then Some n else None),
     env_DurationString = Itoa,
     env_GetValueFromIntOrPercent = (\<lambda>v n up.
       ((fst (Atoi (Trim (ios_StrVal v) CHR ''%'')) * n + (if up then 99 else 0)) div 100, None)),
     env_DescribeLaunchTemplatesPages = (\<lambda>h. ([], None)),
     env_DescribeAutoScalingGroupsPages = (\<lambda>h. ([], None)),
     env_DescribeInstancesPages = (\<lambda>h fs. ([], None)),
     env_CreateTags = (\<lambda>h ids k v. None),
     env_DeleteTags = (\<lambda>h ids k v. None),
     env_TerminateInstanceInAutoScalingGroup = (\<lambda>h i. None),
     env_EnterStandby = (\<lambda>h ids g. None),
     env_RunCordonOrUncordon = (\<lambda>h n c. (None, c)),
     env_RunNodeDrain = (\<lambda>h n t. None),
     env_NodesGet = (\<lambda>h n. Inl (NotFoundError n)),
     env_NodesUpdate = (\<lambda>h n. Inr n),
     env_NodesList = (\<lambda>h. (Some [], None)),
     env_Exec = (\<lambda>h script vars. None),
     env_GetRollingUpgrade = (\<lambda>h n. if n = ''ns/ru'' then Inr sample_RollingUpgrade else Inl (NotFoundError n)),
     env_ListRollingUpgrades = (\<lambda>h. Inr [sample_RollingUpgrade]),
     env_StatusUpdate = (\<lambda>h r. None),
     env_PatchLabel = (\<lambda>h n k v. None),
     env_Getenv = (\<lambda>v. ''''), env_HomeDir = Inr ''/root'', env_InClusterConfig = Inr ''in-cluster'',
     env_BuildConfigFromFlags = (\<lambda>url path. Inr path), env_NewForConfig = (\<lambda>c. None)\<rparr>"

definition sample_metrics :: metrics where
  "sample_metrics = \<lparr>nodeRotationTotal = [], totalProcessingTime = Map.empty,
     totalNodesMetrics = Map.empty, nodesProcessedMetrics = Map.empty, stepSummaries = Map.empty,
     CRStatus = Map.empty\<rparr>"

end
