(* ===== verification/Aws_Provider.thy ===== *)
theory Aws_Provider
  imports World
begin

text \<open>
  \<^verbatim>\<open>controllers/providers/aws\<close>: the lookup helpers of \<^verbatim>\<open>utils.go\<close> and the EC2 and Auto Scaling
  calls of \<^verbatim>\<open>ec2.go\<close> and \<^verbatim>\<open>autoscaling.go\<close>. A paginated call is answered with the pages in order and
  the error, if any, that ends the enumeration; the sources' callbacks ask for the next page as
  long as the page they got has a next token. Shown: the lookups meet the \<open>first_match\<close> contract,
  and the enumerations return the items of all pages when only the last lacks a next token.
\<close>

section \<open>Lookup helpers (utils.go)\<close>

abbreviation LifecycleStateInService :: string where
  "LifecycleStateInService \<equiv> ''InService''"

definition TerminatingInstanceStates :: "string list" where
  "TerminatingInstanceStates =
     [''Terminating'', ''Terminating:Wait'', ''Terminating:Proceed'', ''Terminated'',
      ''Warmed:Terminating'', ''Warmed:Terminating:Wait'', ''Warmed:Terminating:Proceed'',
      ''Warmed:Terminated'']"

definition InstanceStandByLimit :: int where
  "InstanceStandByLimit = 19"

fun SelectScalingGroup :: "string \<Rightarrow> Group list \<Rightarrow> Group" where
  "SelectScalingGroup name [] = empty_Group"
| "SelectScalingGroup name (g # groups) =
     (if EqualFold (StringValue (group_AutoScalingGroupName g)) name then g
      else SelectScalingGroup name groups)"

fun SelectInstance :: "string \<Rightarrow> Instance list \<Rightarrow> Instance" where
  "SelectInstance instanceID [] = empty_Instance"
| "SelectInstance instanceID (inst # insts) =
     (if EqualFold instanceID (StringValue (inst_InstanceId inst)) then inst
      else SelectInstance instanceID insts)"

definition SelectScalingGroupInstance :: "string \<Rightarrow> Group \<Rightarrow> Instance" where
  "SelectScalingGroupInstance instanceID g = SelectInstance instanceID (group_Instances g)"

definition GetScalingAZs :: "Instance list \<Rightarrow> string list" where
  "GetScalingAZs instances = sort_Strings (map (\<lambda>i. StringValue (inst_AvailabilityZone i)) instances)"

definition GetInstanceIDs :: "Instance list \<Rightarrow> string list" where
  "GetInstanceIDs instances = sort_Strings (map (\<lambda>i. StringValue (inst_InstanceId i)) instances)"

fun GetTemplateLatestVersion :: "LaunchTemplate list \<Rightarrow> string \<Rightarrow> string" where
  "GetTemplateLatestVersion [] templateName = ''0''"
| "GetTemplateLatestVersion (template # templates) templateName =
     (if EqualFold (StringValue (lt_LaunchTemplateName template)) templateName
      then Itoa (Int64Value (lt_LatestVersionNumber template))
      else GetTemplateLatestVersion templates templateName)"

definition GetInServiceInstanceIDs :: "Instance list \<Rightarrow> string list" where
  "GetInServiceInstanceIDs instances =
     map (\<lambda>i. StringValue (inst_InstanceId i))
       (filter (\<lambda>i. StringValue (inst_LifecycleState i) = LifecycleStateInService) instances)"

section \<open>Paginated calls\<close>

text \<open>
  The SDK's page loop with a callback that appends the page and asks to go on while there is a
  next token: when the callback declines, the loop ends without an error.
\<close>

fun collect_pages :: "'a page list \<Rightarrow> error option \<Rightarrow> 'a list \<times> error option" where
  "collect_pages [] err = ([], err)"
| "collect_pages ((items, next) # pages) err =
     (if next then (let (rest, e) = collect_pages pages err in (items @ rest, e)) else (items, None))"

definition DescribeScalingGroups ::
  "env \<Rightarrow> 'a world_scheme \<Rightarrow> (Group list \<times> error option) \<times> 'a world_scheme" where
  "DescribeScalingGroups e w =
     (let (pages, err) = env_DescribeAutoScalingGroupsPages e (hist w)
      in (collect_pages pages err, log_event EvDescribeAutoScalingGroups w))"

definition DescribeLaunchTemplates ::
  "env \<Rightarrow> 'a world_scheme \<Rightarrow> (LaunchTemplate list \<times> error option) \<times> 'a world_scheme" where
  "DescribeLaunchTemplates e w =
     (let (pages, err) = env_DescribeLaunchTemplatesPages e (hist w)
      in (collect_pages pages err, log_event EvDescribeLaunchTemplates w))"

definition DescribeTaggedInstanceIDs ::
  "env \<Rightarrow> string \<Rightarrow> string \<Rightarrow> 'a world_scheme \<Rightarrow> (string list \<times> error option) \<times> 'a world_scheme" where
  "DescribeTaggedInstanceIDs e tagKey tagValue w =
     (let input = [Filter (''tag:'' @ tagKey) [tagValue],
                   Filter ''instance-state-name'' [''pending'', ''running'']];
          (pages, err) = env_DescribeInstancesPages e (hist w) input;
          (reservations, err') = collect_pages pages err
      in ((map (\<lambda>i. StringValue (ec2_InstanceId i)) (concat reservations), err'),
          log_event (EvDescribeInstances input) w))"

text \<open>The scan of an instance's tags; reading a tag without key or value is a nil dereference.\<close>

fun has_tag :: "string \<Rightarrow> string \<Rightarrow> Tag list \<Rightarrow> bool option" where
  "has_tag tagKey tagValue [] = Some False"
| "has_tag tagKey tagValue (t # ts) =
     do { k \<leftarrow> tag_Key t;
          if k = tagKey
          then do { v \<leftarrow> tag_Value t; if v = tagValue then Some True else has_tag tagKey tagValue ts }
          else has_tag tagKey tagValue ts }"

fun untagged_ids :: "string \<Rightarrow> string \<Rightarrow> Ec2Instance list \<Rightarrow> string list option" where
  "untagged_ids tagKey tagValue [] = Some []"
| "untagged_ids tagKey tagValue (i # is) =
     do { present \<leftarrow> has_tag tagKey tagValue (ec2_Tags i);
          rest \<leftarrow> untagged_ids tagKey tagValue is;
          Some (if present then rest else StringValue (ec2_InstanceId i) # rest) }"

definition DescribeInstancesWithoutTagValue ::
  "env \<Rightarrow> string \<Rightarrow> string \<Rightarrow> 'a world_scheme \<Rightarrow> ((string list \<times> error option) \<times> 'a world_scheme) option"
where
  "DescribeInstancesWithoutTagValue e tagKey tagValue w =
     (let (pages, err) = env_DescribeInstancesPages e (hist w) [];
          (reservations, err') = collect_pages pages err
      in do { ids \<leftarrow> untagged_ids tagKey tagValue (concat reservations);
              Some ((ids, err'), log_event (EvDescribeInstances []) w) })"

section \<open>Calls that change the cloud\<close>

definition TagEC2instances ::
  "env \<Rightarrow> string list \<Rightarrow> string \<Rightarrow> string \<Rightarrow> 'a world_scheme \<Rightarrow> error option \<times> 'a world_scheme" where
  "TagEC2instances e instanceIDs tagKey tagValue w =
     (let err = env_CreateTags e (hist w) instanceIDs tagKey tagValue
      in (err, log_event (EvCreateTags instanceIDs tagKey tagValue err) w))"

definition UntagEC2instances ::
  "env \<Rightarrow> string list \<Rightarrow> string \<Rightarrow> string \<Rightarrow> 'a world_scheme \<Rightarrow> error option \<times> 'a world_scheme" where
  "UntagEC2instances e instanceIDs tagKey tagValue w =
     (let err = env_DeleteTags e (hist w) instanceIDs tagKey tagValue
      in (err, log_event (EvDeleteTags instanceIDs tagKey tagValue err) w))"

definition TerminateInstance ::
  "env \<Rightarrow> Instance \<Rightarrow> 'a world_scheme \<Rightarrow> error option \<times> 'a world_scheme" where
  "TerminateInstance e inst w =
     (let instanceID = StringValue (inst_InstanceId inst);
          err = env_TerminateInstanceInAutoScalingGroup e (hist w) instanceID
      in (err, log_event (EvTerminateInstance instanceID err) w))"

definition SetInstancesStandBy ::
  "env \<Rightarrow> string list \<Rightarrow> string \<Rightarrow> 'a world_scheme \<Rightarrow> error option \<times> 'a world_scheme" where
  "SetInstancesStandBy e instanceIDs scalingGroupName w =
     (let err = env_EnterStandby e (hist w) instanceIDs scalingGroupName
      in (err, log_event (EvEnterStandby instanceIDs scalingGroupName err) w))"

section \<open>The lookups are first matches\<close>

interpretation asg: first_match EqualFold "\<lambda>g. StringValue (group_AutoScalingGroupName g)"
  "\<lambda>g. g" empty_Group SelectScalingGroup
  by unfold_locales auto

interpretation inst: first_match EqualFold "\<lambda>i. StringValue (inst_InstanceId i)"
  "\<lambda>i. i" empty_Instance SelectInstance
  by unfold_locales (auto simp: EqualFold_commute)

interpretation tmpl: first_match EqualFold "\<lambda>t. StringValue (lt_LaunchTemplateName t)"
  "\<lambda>t. Itoa (Int64Value (lt_LatestVersionNumber t))" "''0''" "\<lambda>n ts. GetTemplateLatestVersion ts n"
  by unfold_locales auto

lemma SelectScalingGroupInstance_mem:
  "SelectScalingGroupInstance i g \<noteq> empty_Instance \<Longrightarrow>
     SelectScalingGroupInstance i g \<in> set (group_Instances g) \<and>
     EqualFold (StringValue (inst_InstanceId (SelectScalingGroupInstance i g))) i"
  using inst.select_result [of i "group_Instances g"]
  by (auto simp: SelectScalingGroupInstance_def)

section \<open>Pages\<close>

text \<open>A well-formed enumeration: every page but the last carries a next token.\<close>

fun pages_ok :: "'a page list \<Rightarrow> bool" where
  "pages_ok [] \<longleftrightarrow> True"
| "pages_ok [(_, next)] \<longleftrightarrow> \<not> next"
| "pages_ok ((_, next) # ps) \<longleftrightarrow> next \<and> pages_ok ps"

lemma collect_pages_all: "pages_ok ps \<Longrightarrow> fst (collect_pages ps None) = concat (map fst ps)"
  by (induction ps rule: pages_ok.induct) (auto split: prod.splits)

lemma collect_pages_no_error: "snd (collect_pages ps None) = None"
  by (induction ps) (auto split: prod.splits)

lemma has_tag_iff:
  assumes "\<forall>t \<in> set ts. tag_Key t \<noteq> None \<and> tag_Value t \<noteq> None"
  shows "has_tag k v ts = Some (\<exists>t \<in> set ts. tag_Key t = Some k \<and> tag_Value t = Some v)"
  using assms by (induction ts) auto

lemma untagged_ids_filter:
  assumes "\<forall>i \<in> set is. \<forall>t \<in> set (ec2_Tags i). tag_Key t \<noteq> None \<and> tag_Value t \<noteq> None"
  shows "untagged_ids k v is =
    Some (map (\<lambda>i. StringValue (ec2_InstanceId i))
      (filter (\<lambda>i. \<not> (\<exists>t \<in> set (ec2_Tags i). tag_Key t = Some k \<and> tag_Value t = Some v)) is))"
  using assms by (induction "is") (auto simp: has_tag_iff)

section \<open>Frames\<close>

lemma aws_calls_more [simp, frame_simps]:
  "world.more (snd (TagEC2instances e ids k v w)) = world.more w"
  "world.more (snd (UntagEC2instances e ids k v w)) = world.more w"
  "world.more (snd (TerminateInstance e i w)) = world.more w"
  "world.more (snd (SetInstancesStandBy e ids g w)) = world.more w"
  "world.more (snd (DescribeTaggedInstanceIDs e k v w)) = world.more w"
  by (simp_all add: TagEC2instances_def UntagEC2instances_def TerminateInstance_def
      SetInstancesStandBy_def DescribeTaggedInstanceIDs_def Let_def split: prod.splits)

lemma aws_calls_hist [simp, hist_simps]:
  "hist (snd (TagEC2instances e ids k v w)) = hist w @ [EvCreateTags ids k v (fst (TagEC2instances e ids k v w))]"
  "hist (snd (UntagEC2instances e ids k v w)) = hist w @ [EvDeleteTags ids k v (fst (UntagEC2instances e ids k v w))]"
  "hist (snd (TerminateInstance e i w)) =
     hist w @ [EvTerminateInstance (StringValue (inst_InstanceId i)) (fst (TerminateInstance e i w))]"
  "hist (snd (SetInstancesStandBy e ids g w)) = hist w @ [EvEnterStandby ids g (fst (SetInstancesStandBy e ids g w))]"
  by (simp_all add: TagEC2instances_def UntagEC2instances_def TerminateInstance_def
      SetInstancesStandBy_def Let_def)

lemma set_GetInstanceIDs: "set (GetInstanceIDs is) = (\<lambda>i. StringValue (inst_InstanceId i)) ` set is"
  by (simp add: GetInstanceIDs_def)

end
