(* ===== verification/Kube_Provider.thy ===== *)
theory Kube_Provider
  imports World
begin

text \<open>
  \<^verbatim>\<open>controllers/providers/kubernetes\<close>: the node helpers of \<^verbatim>\<open>utils.go\<close> and the node operations of
  \<^verbatim>\<open>nodes.go\<close>. The \<^verbatim>\<open>kubectl\<close> drain library is the environment's \<open>env_RunCordonOrUncordon\<close> (which
  answers with an error and the node's new \<^verbatim>\<open>Spec.Unschedulable\<close>, since it writes that field of the
  object it is given) and \<open>env_RunNodeDrain\<close>. A node pointer is an option, and an operation that
  mutates the node it is given returns the node. Shown: the instance id of a node is the last
  segment of its provider id, selection is a first match, and a drain is only attempted on a
  node that was cordoned first.
\<close>

section \<open>Helpers (utils.go)\<close>

definition GetNodeInstanceID :: "Node option \<Rightarrow> string" where
  "GetNodeInstanceID node =
     (case node of None \<Rightarrow> '''' | Some n \<Rightarrow> last (Split (node_ProviderID n) CHR ''/''))"

fun SelectNodeByInstanceID :: "string \<Rightarrow> Node list \<Rightarrow> Node option" where
  "SelectNodeByInstanceID instanceID [] = None"
| "SelectNodeByInstanceID instanceID (node # nodes) =
     (if EqualFold instanceID (GetNodeInstanceID (Some node)) then Some node
      else SelectNodeByInstanceID instanceID nodes)"

fun IsNodeReady_conditions :: "(string \<times> string) list \<Rightarrow> bool" where
  "IsNodeReady_conditions [] = False"
| "IsNodeReady_conditions ((type, status) # conditions) =
     (if type = ''Ready'' \<and> status = ''True'' then True else IsNodeReady_conditions conditions)"

definition IsNodeReady :: "Node \<Rightarrow> bool" where
  "IsNodeReady node = IsNodeReady_conditions (node_Conditions node)"

definition IsNodePassesReadinessGates :: "Node \<Rightarrow> NodeReadinessGate list \<Rightarrow> bool" where
  "IsNodePassesReadinessGates node requiredReadinessGates =
     (if requiredReadinessGates = [] then True
      else list_all (\<lambda>gate. list_all (\<lambda>(key, value). StringValue (node_Labels node key) = value)
                              (gate_MatchLabels gate)) requiredReadinessGates)"

section \<open>Clients (utils.go)\<close>

text \<open>A client is nil or not; which configuration it was built from does not matter to its users.\<close>

type_synonym client = "unit option"

definition GetKubernetesLocalConfig :: "env \<Rightarrow> error + rest_config" where
  "GetKubernetesLocalConfig e =
     (case (if env_Getenv e ''KUBECONFIG'' \<noteq> '''' then Inr (env_Getenv e ''KUBECONFIG'')
            else (case env_HomeDir e of Inl err \<Rightarrow> Inl err | Inr home \<Rightarrow> Inr (home @ ''/.kube/config''))) of
        Inl err \<Rightarrow> Inl err
      | Inr kubePath \<Rightarrow>
          if kubePath = '''' then Inl (Errorf ''failed to get kubeconfig path'')
          else (case env_BuildConfigFromFlags e '''' kubePath of Inl err \<Rightarrow> Inl err | Inr config \<Rightarrow> Inr config))"

definition GetKubernetesConfig :: "env \<Rightarrow> error + rest_config" where
  "GetKubernetesConfig e =
     (case env_InClusterConfig e of
        Inl _ \<Rightarrow> (case GetKubernetesLocalConfig e of Inl err \<Rightarrow> Inl err | Inr config \<Rightarrow> Inr config)
      | Inr config \<Rightarrow> Inr config)"

definition GetKubernetesClient :: "env \<Rightarrow> client \<times> error option" where
  "GetKubernetesClient e =
     (case GetKubernetesConfig e of
        Inl err \<Rightarrow> (None, Some err)
      | Inr config \<Rightarrow> (case env_NewForConfig e config of Some err \<Rightarrow> (None, Some err) | None \<Rightarrow> (Some (), None)))"

section \<open>Operations (nodes.go)\<close>

definition ListClusterNodes :: "env \<Rightarrow> 'a world_scheme \<Rightarrow> (Node list \<times> error option) \<times> 'a world_scheme" where
  "ListClusterNodes e w =
     (let (nodes, err) = env_NodesList e (hist w); w' = log_event (EvListNodes err) w
      in if err \<noteq> None \<or> nodes = None then (([], err), w')
         else (case nodes of Some ns \<Rightarrow> ((ns, None), w') | None \<Rightarrow> (([], err), w')))"

text \<open>The call of \<^verbatim>\<open>drain.RunCordonOrUncordon\<close> and its error wrapping.\<close>

definition run_cordon ::
  "env \<Rightarrow> Node \<Rightarrow> bool \<Rightarrow> 'a world_scheme \<Rightarrow> (error option \<times> Node) \<times> 'a world_scheme" where
  "run_cordon e node cordon w =
     (let (err, unschedulable) = env_RunCordonOrUncordon e (hist w) node cordon;
          wrapped = (case err of None \<Rightarrow> None
                     | Some er \<Rightarrow> Some (if IsNotFound er then er
                                       else Errorf (''error cordoning node: '' @ error_msg er)))
      in ((wrapped, node\<lparr>node_Unschedulable := unschedulable\<rparr>),
          log_event (EvCordon (node_Name node) cordon err) w))"

definition DrainNode ::
  "env \<Rightarrow> Node option \<Rightarrow> duration \<Rightarrow> int \<Rightarrow> client \<Rightarrow> 'a world_scheme
   \<Rightarrow> (error option \<times> Node option) \<times> 'a world_scheme" where
  "DrainNode e node postDrainDelay drainTimeout client w =
     (case client of
        None \<Rightarrow> ((Some (Errorf ''K8sClient not set''), node), w)
      | Some _ \<Rightarrow>
     (case node of
        None \<Rightarrow> ((Some (Errorf ''node not set''), None), w)
      | Some n \<Rightarrow>
         (let ((err, n'), w1) = run_cordon e n True w in
          if err \<noteq> None then ((err, Some n'), w1)
          else
            let timeout = wrap64 (drainTimeout * Second);
                err2 = env_RunNodeDrain e (hist w1) (node_Name n') timeout;
                w2 = log_event (EvDrain (node_Name n') timeout err2) w1
            in case err2 of
                 None \<Rightarrow> ((None, Some n'), w2)
               | Some er \<Rightarrow>
                   ((Some (if IsNotFound er then er
                           else Errorf (''error draining node: '' @ error_msg er)), Some n'), w2))))"

definition CordonUncordonNode ::
  "env \<Rightarrow> Node option \<Rightarrow> client \<Rightarrow> bool \<Rightarrow> 'a world_scheme
   \<Rightarrow> (error option \<times> Node option) \<times> 'a world_scheme" where
  "CordonUncordonNode e node client cordonNode w =
     (case client of
        None \<Rightarrow> ((Some (Errorf ''K8sClient not set''), node), w)
      | Some _ \<Rightarrow>
     (case node of
        None \<Rightarrow> ((Some (Errorf ''node not set''), None), w)
      | Some n \<Rightarrow>
         (let ((err, n'), w1) = run_cordon e n cordonNode w in
          if err \<noteq> None then ((err, Some n'), w1) else ((None, Some n'), w1))))"

section \<open>Selection\<close>

interpretation knode: first_match EqualFold "\<lambda>n. GetNodeInstanceID (Some n)" Some None
  SelectNodeByInstanceID
  by unfold_locales (auto simp: EqualFold_commute)

lemma SelectNodeByInstanceID_Some:
  "SelectNodeByInstanceID i ns = Some n \<Longrightarrow> n \<in> set ns \<and> EqualFold (GetNodeInstanceID (Some n)) i"
  using knode.select_result [of i ns] by auto

lemma GetNodeInstanceID_provider:
  "CHR ''/'' \<notin> set i \<Longrightarrow> node_ProviderID n = p @ ''/'' @ i \<Longrightarrow> GetNodeInstanceID (Some n) = i"
  by (simp add: GetNodeInstanceID_def last_Split)

lemma IsNodeReady_iff: "IsNodeReady n \<longleftrightarrow> (''Ready'', ''True'') \<in> set (node_Conditions n)"
proof -
  have "IsNodeReady_conditions cs \<longleftrightarrow> (''Ready'', ''True'') \<in> set cs" for cs
    by (induction cs rule: IsNodeReady_conditions.induct) auto
  then show ?thesis by (simp add: IsNodeReady_def)
qed

section \<open>Frames and effects\<close>

lemma run_cordon_hist [simp, hist_simps]:
  "hist (snd (run_cordon e n c w)) =
     hist w @ [EvCordon (node_Name n) c (fst (env_RunCordonOrUncordon e (hist w) n c))]"
  by (simp add: run_cordon_def Let_def split: prod.splits)

lemma run_cordon_more [simp, frame_simps]: "world.more (snd (run_cordon e n c w)) = world.more w"
  by (simp add: run_cordon_def Let_def split: prod.splits)

lemma run_cordon_node [simp]:
  "node_Name (snd (fst (run_cordon e n c w))) = node_Name n"
  "node_ProviderID (snd (fst (run_cordon e n c w))) = node_ProviderID n"
  "node_Annotations (snd (fst (run_cordon e n c w))) = node_Annotations n"
  by (simp_all add: run_cordon_def Let_def split: prod.splits)

lemma run_cordon_error:
  "fst (fst (run_cordon e n c w)) = None \<longleftrightarrow> fst (env_RunCordonOrUncordon e (hist w) n c) = None"
  by (auto simp: run_cordon_def Let_def split: prod.splits option.splits)

text \<open>What a drain does: a cordon, and if that succeeds the eviction, in this order.\<close>

lemma DrainNode_events:
  "\<exists>ce de. hist (snd (DrainNode e (Some n) d t (Some ()) w)) =
      hist w @ EvCordon (node_Name n) True ce #
        (if ce = None then [EvDrain (node_Name n) (wrap64 (t * Second)) de] else []) \<and>
    (fst (fst (DrainNode e (Some n) d t (Some ()) w)) = None \<longleftrightarrow> ce = None \<and> de = None)"
proof -
  obtain err n' w1 where rc: "run_cordon e n True w = ((err, n'), w1)"
    by (metis prod.exhaust)
  have w1: "hist w1 = hist w @ [EvCordon (node_Name n) True (fst (env_RunCordonOrUncordon e (hist w) n True))]"
    using run_cordon_hist [of e n True w] by (simp add: rc)
  have n': "node_Name n' = node_Name n"
    using run_cordon_node(1) [of e n True w] by (simp add: rc)
  have err: "err = None \<longleftrightarrow> fst (env_RunCordonOrUncordon e (hist w) n True) = None"
    using run_cordon_error [of e n True w] by (simp add: rc)
  show ?thesis
  proof (cases "err = None")
    case False
    then show ?thesis
      using err w1 by (intro exI [of _ "fst (env_RunCordonOrUncordon e (hist w) n True)"])
        (auto simp: DrainNode_def rc)
  next
    case True
    then show ?thesis
      using err w1 n'
      by (intro exI [of _ None]
            exI [of _ "env_RunNodeDrain e (hist w1) (node_Name n') (wrap64 (t * Second))"])
         (auto simp: DrainNode_def rc Let_def split: option.splits)
  qed
qed

lemma DrainNode_more [simp, frame_simps]:
  "world.more (snd (DrainNode e n d t c w)) = world.more w"
  by (simp add: DrainNode_def Let_def case_prod_beta split: option.splits)

end
