(* ===== verification/Metric_Registry.thy ===== *)
theory Metric_Registry
  imports World
begin

text \<open>
  \<^verbatim>\<open>controllers/common/metrics.go\<close>: the Prometheus metrics of the controller, as updates of the
  \<open>registry\<close> component of the state. Shown: an observation is appended to exactly one series and
  leaves every other series alone, and gauges hold the last value set.
\<close>

section \<open>Definitions\<close>

abbreviation upd_registry :: "(metrics \<Rightarrow> metrics) \<Rightarrow> 'a world_scheme \<Rightarrow> 'a world_scheme" where
  "upd_registry f w \<equiv> w\<lparr>registry := f (registry w)\<rparr>"

text \<open>Look the summary of a group up, creating it when it is missing, and observe the value.\<close>

definition TotalProcessingTime :: "string \<Rightarrow> duration \<Rightarrow> 'a world_scheme \<Rightarrow> 'a world_scheme" where
  "TotalProcessingTime groupName d w =
     upd_registry (\<lambda>m.
       let summary = (case totalProcessingTime m groupName of None \<Rightarrow> [] | Some s \<Rightarrow> s)
       in m\<lparr>totalProcessingTime := (totalProcessingTime m)(groupName \<mapsto> summary @ [duration_Seconds d])\<rparr>) w"

definition addGaugeOrUpdate :: "string \<Rightarrow> int \<Rightarrow> (string \<rightharpoonup> float64) \<Rightarrow> (string \<rightharpoonup> float64)" where
  "addGaugeOrUpdate groupName n gaugeMap =
     (let gauges = (case gaugeMap groupName of None \<Rightarrow> gaugeMap(groupName \<mapsto> 0) | Some _ \<Rightarrow> gaugeMap)
      in gauges(groupName \<mapsto> float_of_int n))"

definition SetTotalNodesMetric :: "string \<Rightarrow> int \<Rightarrow> 'a world_scheme \<Rightarrow> 'a world_scheme" where
  "SetTotalNodesMetric groupName nodes w =
     upd_registry (\<lambda>m. m\<lparr>totalNodesMetrics := addGaugeOrUpdate groupName nodes (totalNodesMetrics m)\<rparr>) w"

definition SetNodesProcessedMetric :: "string \<Rightarrow> int \<Rightarrow> 'a world_scheme \<Rightarrow> 'a world_scheme" where
  "SetNodesProcessedMetric groupName nodesProcessed w =
     upd_registry (\<lambda>m. m\<lparr>nodesProcessedMetrics :=
       addGaugeOrUpdate groupName nodesProcessed (nodesProcessedMetrics m)\<rparr>) w"

definition AddStepDuration :: "string \<Rightarrow> string \<Rightarrow> duration \<Rightarrow> 'a world_scheme \<Rightarrow> 'a world_scheme" where
  "AddStepDuration groupName stepName d w =
     (if EqualFold stepName ''total'' then
        upd_registry (\<lambda>m. m\<lparr>nodeRotationTotal := nodeRotationTotal m @ [duration_Seconds d]\<rparr>) w
      else
        upd_registry (\<lambda>m.
          let steps = (case stepSummaries m groupName of None \<Rightarrow> Map.empty | Some s \<Rightarrow> s);
              summary = (case steps stepName of None \<Rightarrow> [] | Some s \<Rightarrow> s)
          in m\<lparr>stepSummaries := (stepSummaries m)
                 (groupName \<mapsto> steps(stepName \<mapsto> summary @ [duration_Seconds d]))\<rparr>) w)"

definition SetMetricRollupInitOrRunning :: "string \<Rightarrow> 'a world_scheme \<Rightarrow> 'a world_scheme" where
  "SetMetricRollupInitOrRunning ruName w = upd_registry (\<lambda>m. m\<lparr>CRStatus := (CRStatus m)(ruName \<mapsto> 0)\<rparr>) w"

definition SetMetricRollupCompleted :: "string \<Rightarrow> 'a world_scheme \<Rightarrow> 'a world_scheme" where
  "SetMetricRollupCompleted ruName w = upd_registry (\<lambda>m. m\<lparr>CRStatus := (CRStatus m)(ruName \<mapsto> 1)\<rparr>) w"

definition SetMetricRollupFailed :: "string \<Rightarrow> 'a world_scheme \<Rightarrow> 'a world_scheme" where
  "SetMetricRollupFailed ruName w = upd_registry (\<lambda>m. m\<lparr>CRStatus := (CRStatus m)(ruName \<mapsto> -1)\<rparr>) w"

section \<open>Frames\<close>

lemmas metric_defs =
  TotalProcessingTime_def SetTotalNodesMetric_def SetNodesProcessedMetric_def AddStepDuration_def
  SetMetricRollupInitOrRunning_def SetMetricRollupCompleted_def SetMetricRollupFailed_def

lemma metric_hist [simp, frame_simps]:
  "hist (TotalProcessingTime g d w) = hist w"
  "hist (SetTotalNodesMetric g n w) = hist w"
  "hist (SetNodesProcessedMetric g n w) = hist w"
  "hist (AddStepDuration g s d w) = hist w"
  "hist (SetMetricRollupInitOrRunning r w) = hist w"
  "hist (SetMetricRollupCompleted r w) = hist w"
  "hist (SetMetricRollupFailed r w) = hist w"
  by (simp_all add: metric_defs)

lemma metric_more [simp, frame_simps]:
  "world.more (TotalProcessingTime g d w) = world.more w"
  "world.more (SetTotalNodesMetric g n w) = world.more w"
  "world.more (SetNodesProcessedMetric g n w) = world.more w"
  "world.more (AddStepDuration g s d w) = world.more w"
  "world.more (SetMetricRollupInitOrRunning r w) = world.more w"
  "world.more (SetMetricRollupCompleted r w) = world.more w"
  "world.more (SetMetricRollupFailed r w) = world.more w"
  by (simp_all add: metric_defs)

section \<open>Series\<close>

text \<open>The observations of a series: the histogram for the step \<^verbatim>\<open>total\<close>, a summary otherwise.\<close>

definition step_series :: "string \<Rightarrow> string \<Rightarrow> 'a world_scheme \<Rightarrow> float64 list" where
  "step_series groupName stepName w =
     (if EqualFold stepName ''total'' then nodeRotationTotal (registry w)
      else case stepSummaries (registry w) groupName of
             None \<Rightarrow> []
           | Some steps \<Rightarrow> (case steps stepName of None \<Rightarrow> [] | Some s \<Rightarrow> s))"

definition same_series :: "string \<Rightarrow> string \<Rightarrow> string \<Rightarrow> string \<Rightarrow> bool" where
  "same_series g s g' s' \<longleftrightarrow>
     (EqualFold s ''total'' \<and> EqualFold s' ''total'') \<or>
     (\<not> EqualFold s ''total'' \<and> \<not> EqualFold s' ''total'' \<and> g = g' \<and> s = s')"

lemma AddStepDuration_series:
  "step_series g' s' (AddStepDuration g s d w) =
     step_series g' s' w @ (if same_series g s g' s' then [duration_Seconds d] else [])"
  by (auto simp: step_series_def AddStepDuration_def same_series_def Let_def split: option.splits)

lemma addGaugeOrUpdate_eq: "addGaugeOrUpdate g n m = m(g \<mapsto> float_of_int n)"
  by (auto simp: addGaugeOrUpdate_def Let_def split: option.splits)

end
