(* ===== verification/Upgrade_Context.thy ===== *)
theory Upgrade_Context
  imports Aws_Provider Kube_Provider Metric_Registry
begin

text \<open>
  The state a reconcile works on: \<^verbatim>\<open>DiscoveredState\<close> of \<^verbatim>\<open>controllers/cloud.go\<close> with its
  discovery, and \<^verbatim>\<open>RollingUpgradeContext\<close> with its \<^verbatim>\<open>DrainManager\<close> of \<^verbatim>\<open>controllers/upgrade.go\<close>.
  The context extends \<open>world\<close>, so the provider operations apply to it directly.

  The drain manager's wait group and channel outlive a reconcile, together with the goroutines
  that use them. A drain goroutine is a \<open>drain_job\<close>: the variables its closure captured and its
  program counter. The channel is unbuffered, so an error is a goroutine blocked in \<open>Sending\<close>.
  The wait group's counter is kept as the code keeps it (\<^verbatim>\<open>Add\<close>, \<^verbatim>\<open>Done\<close>); that it counts the
  unfinished goroutines is proved, not assumed. The maps \<^verbatim>\<open>inProcessingNodes\<close> and \<^verbatim>\<open>nodeSteps\<close>
  and the node objects that the goroutines capture belong to the call that started them.
\<close>

section \<open>Tags\<close>

definition instanceStateTagKey :: string where
  "instanceStateTagKey = ''upgrademgr.keikoproj.io/state''"

definition inProgressTagValue :: string where
  "inProgressTagValue = ''in-progress''"

definition failedDrainTagValue :: string where
  "failedDrainTagValue = ''failed-drain''"

section \<open>Discovered state\<close>

record DiscoveredState =
  cloud_ClusterNodes :: "Node list"
  cloud_LaunchTemplates :: "LaunchTemplate list"
  cloud_ScalingGroups :: "Group list"
  cloud_InProgressInstances :: "string list"

definition NewDiscoveredState :: DiscoveredState where
  "NewDiscoveredState = \<lparr>cloud_ClusterNodes = [], cloud_LaunchTemplates = [], cloud_ScalingGroups = [],
     cloud_InProgressInstances = []\<rparr>"

definition Wrap :: "string \<Rightarrow> error \<Rightarrow> error" where
  "Wrap msg er = Errorf (msg @ '': '' @ error_msg er)"

definition Discover ::
  "env \<Rightarrow> DiscoveredState \<Rightarrow> 'a world_scheme \<Rightarrow> (error option \<times> DiscoveredState) \<times> 'a world_scheme" where
  "Discover e d w =
     (let ((launchTemplates, err), w1) = DescribeLaunchTemplates e w in
      (case err of Some er \<Rightarrow> ((Some (Wrap ''failed to discover launch templates'' er), d), w1)
      | None \<Rightarrow>
     (let d1 = d\<lparr>cloud_LaunchTemplates := launchTemplates\<rparr>;
          ((scalingGroups, err), w2) = DescribeScalingGroups e w1 in
      (case err of Some er \<Rightarrow> ((Some (Wrap ''failed to discover scaling groups'' er), d1), w2)
      | None \<Rightarrow>
     (let d2 = d1\<lparr>cloud_ScalingGroups := scalingGroups\<rparr>;
          ((inProgressInstances, err), w3) =
            DescribeTaggedInstanceIDs e instanceStateTagKey inProgressTagValue w2 in
      (case err of Some er \<Rightarrow> ((Some (Wrap ''failed to discover ec2 instances'' er), d2), w3)
      | None \<Rightarrow> ((None, d2\<lparr>cloud_InProgressInstances := inProgressInstances\<rparr>), w3)))))))"

section \<open>Drain goroutines\<close>

datatype drain_pc =
    AtPreDrain | AtDrain | AtPostDrain | AtPostWait
  | Sending error drain_pc
  | AtReturn | Finished

record drain_job =
  job_InstanceID :: string
  job_NodeName :: string
  job_UpgradeObject :: RollingUpgrade
  job_DrainTimeout :: int
  job_IgnoreDrainFailures :: bool
  job_pc :: drain_pc

record DrainManager =
  dm_DrainGroup :: int
  dm_jobs :: "drain_job list"
  dm_ClusterNodes :: "Node list"
  dm_InProcessingNodes :: "(string, NodeInProcessing) gomap"
  dm_NodeSteps :: "(string, NodeStepDuration list) gomap"

definition NewDrainManager :: DrainManager where
  "NewDrainManager = \<lparr>dm_DrainGroup = 0, dm_jobs = [], dm_ClusterNodes = [],
     dm_InProcessingNodes = [], dm_NodeSteps = []\<rparr>"

section \<open>The context\<close>

record ctx = world +
  ctx_Cloud :: DiscoveredState
  ctx_RollingUpgrade :: RollingUpgrade
  ctx_DrainManager :: DrainManager
  ctx_DrainTimeout :: int
  ctx_IgnoreDrainFailures :: bool
  ctx_ReplacementNodesMap :: "(string, int) gomap"
  ctx_MaxReplacementNodes :: int
  ctx_AllowReplacements :: bool
  ctx_EarlyCordonNodes :: bool

abbreviation upd_ru :: "(RollingUpgrade \<Rightarrow> RollingUpgrade) \<Rightarrow> ctx \<Rightarrow> ctx" where
  "upd_ru f s \<equiv> s\<lparr>ctx_RollingUpgrade := f (ctx_RollingUpgrade s)\<rparr>"

abbreviation upd_cloud :: "(DiscoveredState \<Rightarrow> DiscoveredState) \<Rightarrow> ctx \<Rightarrow> ctx" where
  "upd_cloud f s \<equiv> s\<lparr>ctx_Cloud := f (ctx_Cloud s)\<rparr>"

abbreviation ctx_group :: "ctx \<Rightarrow> Group" where
  "ctx_group s \<equiv>
     SelectScalingGroup (ScalingGroupName (ctx_RollingUpgrade s)) (cloud_ScalingGroups (ctx_Cloud s))"

abbreviation ctx_nodes :: "ctx \<Rightarrow> Node list" where
  "ctx_nodes s \<equiv> cloud_ClusterNodes (ctx_Cloud s)"

section \<open>Operations that touch only the world part\<close>

text \<open>
  A provider call changes the history and the registry of a context and nothing else. The rules
  derive every context field of the result from \<open>world.more\<close>.
\<close>

lemma ctx_fields_of_more:
  fixes s s' :: ctx
  assumes "world.more s' = world.more s"
  shows "ctx_Cloud s' = ctx_Cloud s" "ctx_RollingUpgrade s' = ctx_RollingUpgrade s"
    "ctx_DrainManager s' = ctx_DrainManager s" "ctx_DrainTimeout s' = ctx_DrainTimeout s"
    "ctx_IgnoreDrainFailures s' = ctx_IgnoreDrainFailures s"
    "ctx_ReplacementNodesMap s' = ctx_ReplacementNodesMap s"
    "ctx_MaxReplacementNodes s' = ctx_MaxReplacementNodes s"
    "ctx_AllowReplacements s' = ctx_AllowReplacements s"
    "ctx_EarlyCordonNodes s' = ctx_EarlyCordonNodes s"
  using assms by (cases s; cases s'; simp)+

section \<open>Discovery\<close>

text \<open>
  Discovery succeeds exactly when the three enumerations end without an error, and then all three
  fields are the enumerations' answers; the cluster nodes are never touched.
\<close>

lemma Discover_nodes: "cloud_ClusterNodes (snd (fst (Discover e d w))) = cloud_ClusterNodes d"
  by (simp add: Discover_def Let_def case_prod_beta split: option.splits)

lemma Discover_more [simp, frame_simps]: "world.more (snd (Discover e d w)) = world.more w"
  by (simp add: Discover_def DescribeLaunchTemplates_def DescribeScalingGroups_def Let_def
      case_prod_beta split: option.splits)

lemma Discover_success:
  assumes "Discover e d w = ((None, d'), w')"
  shows "cloud_LaunchTemplates d' = fst (fst (DescribeLaunchTemplates e w)) \<and>
         cloud_ScalingGroups d' = fst (fst (DescribeScalingGroups e (snd (DescribeLaunchTemplates e w)))) \<and>
         cloud_InProgressInstances d' =
           fst (fst (DescribeTaggedInstanceIDs e instanceStateTagKey inProgressTagValue
             (snd (DescribeScalingGroups e (snd (DescribeLaunchTemplates e w))))))"
  using assms by (auto simp: Discover_def Let_def case_prod_beta split: option.splits)

section \<open>A sample context\<close>

text \<open>
  The resource after validation, in a cluster with one scaling group of two instances, one of
  them launched from an outdated launch configuration, both registered as nodes.
\<close>

definition sample_instance :: "string \<Rightarrow> string \<Rightarrow> string \<Rightarrow> Instance" where
  "sample_instance i az lc = \<lparr>inst_InstanceId = Some i, inst_LifecycleState = Some LifecycleStateInService,
     inst_AvailabilityZone = Some az, inst_LaunchConfigurationName = Some lc, inst_LaunchTemplate = None\<rparr>"

definition sample_node :: "string \<Rightarrow> string \<Rightarrow> Node" where
  "sample_node n i = \<lparr>node_Name = n, node_Labels = Map.empty, node_Annotations = Map.empty,
     node_CreationTimestamp = 0, node_ProviderID = ''aws:///az/'' @ i, node_Unschedulable = False,
     node_Conditions = [(''Ready'', ''True'')]\<rparr>"

definition sample_group :: Group where
  "sample_group = \<lparr>group_AutoScalingGroupName = Some ''asg'', group_DesiredCapacity = Some 2,
     group_Instances = [sample_instance ''i1'' ''a'' ''old'', sample_instance ''i2'' ''b'' ''new''],
     group_LaunchConfigurationName = Some ''new'', group_LaunchTemplate = None,
     group_MixedInstancesPolicy = None\<rparr>"

definition sample_ctx :: ctx where
  "sample_ctx = \<lparr>hist = [], registry = sample_metrics,
     ctx_Cloud = \<lparr>cloud_ClusterNodes = [sample_node ''n1'' ''i1'', sample_node ''n2'' ''i2''],
       cloud_LaunchTemplates = [], cloud_ScalingGroups = [sample_group], cloud_InProgressInstances = []\<rparr>,
     ctx_RollingUpgrade = upd_strategy complete_strategy sample_RollingUpgrade,
     ctx_DrainManager = NewDrainManager, ctx_DrainTimeout = 900, ctx_IgnoreDrainFailures = False,
     ctx_ReplacementNodesMap = [], ctx_MaxReplacementNodes = 0, ctx_AllowReplacements = False,
     ctx_EarlyCordonNodes = False\<rparr>"

end
