(* ===== verification/Step_Metrics.thy ===== *)
theory Step_Metrics
  imports Upgrade_Context
begin

text \<open>
  \<^verbatim>\<open>controllers/metrics.go\<close>: the rotation step each node of a batch is in, the time spent in each
  step, and the per-step statistics of the resource's status. The in-processing map holds the
  node's current step; \<open>DoNodeStep\<close> moves it forward, never backward. Shown: steps only advance in
  the order of \<open>NodeRotationStepOrders\<close>; the recorded step durations of a node telescope, so that
  at completion they add up to the recorded total; and the statistics do not depend on the order
  in which Go ranges over the map of steps.
\<close>

section \<open>Definitions\<close>

type_synonym in_processing = "(string, NodeInProcessing) gomap"
type_synonym node_steps = "(string, NodeStepDuration list) gomap"

definition UpdateLastBatchNodes :: "env \<Rightarrow> in_processing \<Rightarrow> ctx \<Rightarrow> ctx" where
  "UpdateLastBatchNodes e batchNodes s =
     (let (keys, s') = range_keys e (map fst batchNodes) s
      in upd_ru (upd_status (\<lambda>st. st\<lparr>status_NodeInProcessing := batchNodes,
                                     status_LastBatchNodes := keys\<rparr>)) s')"

text \<open>If the step exists, add to its sum and count (in 64 and 32 bits); otherwise append it.\<close>

fun add_statistics :: "NodeStepDuration \<Rightarrow> RollingUpgradeStatistics list \<Rightarrow> RollingUpgradeStatistics list"
where
  "add_statistics nsd [] =
     [\<lparr>stat_StepName = nsd_StepName nsd, stat_DurationSum = nsd_Duration nsd, stat_DurationCount = 1\<rparr>]"
| "add_statistics nsd (st # sts) =
     (if stat_StepName st = nsd_StepName nsd
      then st\<lparr>stat_DurationSum := wrap64 (stat_DurationSum st + nsd_Duration nsd),
              stat_DurationCount := wrap32 (stat_DurationCount st + 1)\<rparr> # sts
      else st # add_statistics nsd sts)"

definition AddNodeStepDuration :: "NodeStepDuration \<Rightarrow> RollingUpgrade \<Rightarrow> RollingUpgrade" where
  "AddNodeStepDuration nsd r =
     upd_status (\<lambda>st. st\<lparr>status_Statistics := add_statistics nsd (status_Statistics st)\<rparr>) r"

definition steps_of :: "node_steps \<Rightarrow> string \<Rightarrow> NodeStepDuration list" where
  "steps_of nodeSteps nodeName = (case map_of nodeSteps nodeName of None \<Rightarrow> [] | Some v \<Rightarrow> v)"

definition UpdateStatistics :: "env \<Rightarrow> node_steps \<Rightarrow> ctx \<Rightarrow> ctx" where
  "UpdateStatistics e nodeSteps s =
     (let (keys, s') = range_keys e (map fst nodeSteps) s
      in upd_ru (fold (\<lambda>k. fold AddNodeStepDuration (steps_of nodeSteps k)) keys) s')"

definition UpdateMetricsStatus :: "env \<Rightarrow> in_processing \<Rightarrow> node_steps \<Rightarrow> ctx \<Rightarrow> ctx" where
  "UpdateMetricsStatus e batchNodes nodeSteps s =
     UpdateStatistics e nodeSteps (UpdateLastBatchNodes e batchNodes s)"

definition ToStepDuration ::
  "string \<Rightarrow> string \<Rightarrow> RollingUpgradeStep \<Rightarrow> duration \<Rightarrow> 'a world_scheme
   \<Rightarrow> NodeStepDuration \<times> 'a world_scheme" where
  "ToStepDuration groupName nodeName stepName d w =
     (\<lparr>nsd_GroupName = groupName, nsd_NodeName = nodeName, nsd_StepName = stepName, nsd_Duration = d\<rparr>,
      AddStepDuration groupName stepName d w)"

definition addNodeStepDuration :: "string \<Rightarrow> NodeStepDuration \<Rightarrow> node_steps \<Rightarrow> node_steps" where
  "addNodeStepDuration nodeName nsd steps =
     (case map_of steps nodeName of
        None \<Rightarrow> AList.update nodeName [nsd] steps
      | Some stepDuration \<Rightarrow> AList.update nodeName (stepDuration @ [nsd]) steps)"

text \<open>The node's entry, created on the first call with two readings of the clock.\<close>

definition in_processing_node ::
  "env \<Rightarrow> in_processing \<Rightarrow> string \<Rightarrow> RollingUpgradeStep \<Rightarrow> 'a world_scheme
   \<Rightarrow> NodeInProcessing \<times> 'a world_scheme" where
  "in_processing_node e inProcessingNodes nodeName stepName w =
     (case map_of inProcessingNodes nodeName of
        Some n \<Rightarrow> (n, w)
      | None \<Rightarrow>
         (let (t1, w1) = Now e w; (t2, w2) = Now e w1
          in (\<lparr>nip_NodeName = nodeName, nip_StepName = stepName, nip_UpgradeStartTime = t1,
               nip_StepStartTime = t2, nip_StepEndTime = zero_time\<rparr>, w2)))"

definition DoNodeStep ::
  "env \<Rightarrow> in_processing \<Rightarrow> node_steps \<Rightarrow> string \<Rightarrow> string \<Rightarrow> RollingUpgradeStep \<Rightarrow> time
   \<Rightarrow> 'a world_scheme \<Rightarrow> (in_processing \<times> node_steps) \<times> 'a world_scheme" where
  "DoNodeStep e inProcessingNodes nodeSteps groupName nodeName stepName endTime w =
     (let (n0, w1) = in_processing_node e inProcessingNodes nodeName stepName w;
          n = n0\<lparr>nip_StepEndTime := endTime\<rparr>;
          inP = AList.update nodeName n inProcessingNodes;
          d = time_Sub endTime (nip_StepStartTime n)
      in if stepName = NodeRotationCompleted then
           (let total = time_Sub endTime (nip_UpgradeStartTime n);
                (duration1, w2) = ToStepDuration groupName nodeName (nip_StepName n) d w1;
                (duration2, w3) = ToStepDuration groupName nodeName NodeRotationTotal total w2
            in ((AList.delete nodeName inP,
                 addNodeStepDuration nodeName duration2 (addNodeStepDuration nodeName duration1 nodeSteps)), w3))
         else if nip_StepName n \<noteq> stepName \<and>
                 NodeRotationStepOrders stepName > NodeRotationStepOrders (nip_StepName n) then
           (let (stepDuration, w2) = ToStepDuration groupName nodeName (nip_StepName n) d w1
            in ((AList.update nodeName (n\<lparr>nip_StepStartTime := endTime, nip_StepName := stepName\<rparr>) inP,
                 addNodeStepDuration nodeName stepDuration nodeSteps), w2))
         else ((inP, nodeSteps), w1))"

definition NodeStep ::
  "env \<Rightarrow> in_processing \<Rightarrow> node_steps \<Rightarrow> string \<Rightarrow> string \<Rightarrow> RollingUpgradeStep
   \<Rightarrow> 'a world_scheme \<Rightarrow> (in_processing \<times> node_steps) \<times> 'a world_scheme" where
  "NodeStep e inProcessingNodes nodeSteps groupName nodeName stepName w =
     (let (t, w1) = Now e w
      in DoNodeStep e inProcessingNodes nodeSteps groupName nodeName stepName t w1)"

section \<open>Frames\<close>

lemma Now_frame [simp, frame_simps]:
  "world.more (snd (Now e w)) = world.more w" "registry (snd (Now e w)) = registry w"
  by (simp_all add: Now_def)

lemma in_processing_node_more [simp, frame_simps]:
  "world.more (snd (in_processing_node e m n st w)) = world.more w"
  by (simp add: in_processing_node_def case_prod_beta Let_def split: option.splits)

lemma DoNodeStep_more [simp, frame_simps]:
  "world.more (snd (DoNodeStep e m ns g n st t w)) = world.more w"
  by (simp add: DoNodeStep_def ToStepDuration_def case_prod_beta Let_def)

lemma NodeStep_more [simp, frame_simps]:
  "world.more (snd (NodeStep e m ns g n st w)) = world.more w"
  by (simp add: NodeStep_def case_prod_beta Let_def)

text \<open>Stepping a node reads the clock and does nothing else to the outside.\<close>

lemma NodeStep_hist [hist_simps]:
  "\<exists>k. hist (snd (NodeStep e m ns g n st w)) = hist w @ replicate k EvNow"
proof (cases "map_of m n")
  case None
  then show ?thesis
    by (intro exI [of _ 3])
       (simp add: NodeStep_def DoNodeStep_def ToStepDuration_def in_processing_node_def Now_def
          case_prod_beta Let_def numeral_3_eq_3)
next
  case (Some x)
  then show ?thesis
    by (intro exI [of _ 1])
       (simp add: NodeStep_def DoNodeStep_def ToStepDuration_def in_processing_node_def Now_def
          case_prod_beta Let_def)
qed

lemma NodeStep_events:
  "set (hist (snd (NodeStep e m ns g n st w))) \<subseteq> set (hist w) \<union> {EvNow}"
  using NodeStep_hist [of e m ns g n st w] by auto

section \<open>Steps only advance\<close>

lemma steps_of_addNodeStepDuration:
  "steps_of (addNodeStepDuration k nsd ns) k' = steps_of ns k' @ (if k' = k then [nsd] else [])"
  by (auto simp: steps_of_def addNodeStepDuration_def split: option.splits)

lemma DoNodeStep_present:
  assumes "map_of m node = Some n" and "st \<noteq> NodeRotationCompleted"
  shows "\<exists>n'. map_of (fst (fst (DoNodeStep e m ns g node st t w))) = (map_of m)(node \<mapsto> n') \<and>
    nip_UpgradeStartTime n' = nip_UpgradeStartTime n \<and>
    (if NodeRotationStepOrders st > NodeRotationStepOrders (nip_StepName n)
     then nip_StepName n' = st \<and> nip_StepStartTime n' = t \<and>
       (\<forall>k. steps_of (snd (fst (DoNodeStep e m ns g node st t w))) k = steps_of ns k @
         (if k = node then [\<lparr>nsd_GroupName = g, nsd_NodeName = node, nsd_StepName = nip_StepName n,
                             nsd_Duration = time_Sub t (nip_StepStartTime n)\<rparr>] else []))
     else nip_StepName n' = nip_StepName n \<and> nip_StepStartTime n' = nip_StepStartTime n \<and>
       snd (fst (DoNodeStep e m ns g node st t w)) = ns)"
  using assms
  by (auto simp: DoNodeStep_def in_processing_node_def ToStepDuration_def Let_def
        steps_of_addNodeStepDuration)

lemma DoNodeStep_completed:
  assumes "map_of m node = Some n"
  shows "map_of (fst (fst (DoNodeStep e m ns g node NodeRotationCompleted t w))) = (map_of m)(node := None) \<and>
    steps_of (snd (fst (DoNodeStep e m ns g node NodeRotationCompleted t w))) node = steps_of ns node @
      [\<lparr>nsd_GroupName = g, nsd_NodeName = node, nsd_StepName = nip_StepName n,
        nsd_Duration = time_Sub t (nip_StepStartTime n)\<rparr>,
       \<lparr>nsd_GroupName = g, nsd_NodeName = node, nsd_StepName = NodeRotationTotal,
        nsd_Duration = time_Sub t (nip_UpgradeStartTime n)\<rparr>]"
  using assms
  by (simp add: DoNodeStep_def in_processing_node_def ToStepDuration_def Let_def
        steps_of_addNodeStepDuration)

text \<open>A node's run through rotation steps: one \<open>DoNodeStep\<close> per step, each at its time.\<close>

fun node_run ::
  "env \<Rightarrow> in_processing \<Rightarrow> node_steps \<Rightarrow> string \<Rightarrow> string \<Rightarrow> (RollingUpgradeStep \<times> time) list
   \<Rightarrow> 'a world_scheme \<Rightarrow> (in_processing \<times> node_steps) \<times> 'a world_scheme" where
  "node_run e m ns g node [] w = ((m, ns), w)"
| "node_run e m ns g node ((st, t) # steps) w =
     (let ((m', ns'), w') = DoNodeStep e m ns g node st t w in node_run e m' ns' g node steps w')"

lemma node_run_append:
  "node_run e m ns g node (xs @ ys) w =
     (let ((m', ns'), w') = node_run e m ns g node xs w in node_run e m' ns' g node ys w')"
  by (induction xs arbitrary: m ns w) (auto simp: Let_def split: prod.splits)

section \<open>Recorded durations telescope\<close>

definition step_time :: "NodeStepDuration list \<Rightarrow> int" where
  "step_time ds = (\<Sum>d \<leftarrow> filter (\<lambda>d. nsd_StepName d \<noteq> NodeRotationTotal) ds. nsd_Duration d)"

definition total_time :: "NodeStepDuration list \<Rightarrow> int" where
  "total_time ds = (\<Sum>d \<leftarrow> filter (\<lambda>d. nsd_StepName d = NodeRotationTotal) ds. nsd_Duration d)"

lemma step_time_append [simp]: "step_time (xs @ ys) = step_time xs + step_time ys"
  by (simp add: step_time_def)

lemma total_time_append [simp]: "total_time (xs @ ys) = total_time xs + total_time ys"
  by (simp add: total_time_def)

text \<open>Times between the years 1970 and 2116, so that no difference saturates.\<close>

abbreviation time_ok :: "time \<Rightarrow> bool" where
  "time_ok t \<equiv> 0 \<le> t \<and> t \<le> 4611686018427387904"

lemma time_Sub_ok: "time_ok t \<Longrightarrow> time_ok u \<Longrightarrow> time_Sub t u = t - u"
  by (rule time_Sub_exact) auto

lemma node_run_telescopes:
  assumes "map_of m node = Some n" and "nip_StepName n \<noteq> NodeRotationTotal"
    and "time_ok (nip_StepStartTime n)"
    and "\<forall>(st, t) \<in> set steps. st \<noteq> NodeRotationCompleted \<and> st \<noteq> NodeRotationTotal \<and> time_ok t"
    and "node_run e m ns g node steps w = ((m', ns'), w')"
  shows "\<exists>n'. map_of m' node = Some n' \<and> nip_UpgradeStartTime n' = nip_UpgradeStartTime n \<and>
    nip_StepName n' \<noteq> NodeRotationTotal \<and> time_ok (nip_StepStartTime n') \<and>
    step_time (steps_of ns' node) + nip_StepStartTime n = step_time (steps_of ns node) + nip_StepStartTime n' \<and>
    total_time (steps_of ns' node) = total_time (steps_of ns node)"
  using assms
proof (induction steps arbitrary: m ns n w)
  case Nil
  then show ?case by auto
next
  case (Cons x steps)
  obtain st t where x: "x = (st, t)" by (cases x)
  obtain m1 ns1 w1 where one: "DoNodeStep e m ns g node st t w = ((m1, ns1), w1)"
    by (metis prod.exhaust)
  have st: "st \<noteq> NodeRotationCompleted" "st \<noteq> NodeRotationTotal" "time_ok t"
    using Cons.prems(4) by (auto simp: x)
  obtain n1 where n1: "map_of m1 = (map_of m)(node \<mapsto> n1)"
      "nip_UpgradeStartTime n1 = nip_UpgradeStartTime n"
    and adv: "if NodeRotationStepOrders st > NodeRotationStepOrders (nip_StepName n)
      then nip_StepName n1 = st \<and> nip_StepStartTime n1 = t \<and>
       (\<forall>k. steps_of ns1 k = steps_of ns k @
         (if k = node then [\<lparr>nsd_GroupName = g, nsd_NodeName = node, nsd_StepName = nip_StepName n,
                             nsd_Duration = time_Sub t (nip_StepStartTime n)\<rparr>] else []))
      else nip_StepName n1 = nip_StepName n \<and> nip_StepStartTime n1 = nip_StepStartTime n \<and> ns1 = ns"
    using DoNodeStep_present [OF Cons.prems(1) st(1), of e ns g t w] unfolding one fst_conv snd_conv
    by (elim exE conjE) (rule that)
  have sub: "time_Sub t (nip_StepStartTime n) = t - nip_StepStartTime n"
    using time_Sub_ok st(3) Cons.prems(3) by blast
  have step1: "nip_StepName n1 \<noteq> NodeRotationTotal \<and> time_ok (nip_StepStartTime n1) \<and>
      step_time (steps_of ns1 node) + nip_StepStartTime n = step_time (steps_of ns node) + nip_StepStartTime n1 \<and>
      total_time (steps_of ns1 node) = total_time (steps_of ns node)"
    using adv st Cons.prems(2,3) by (auto simp: sub step_time_def total_time_def split: if_splits)
  have "node_run e m1 ns1 g node steps w1 = ((m', ns'), w')"
    using Cons.prems(5) by (simp add: x one)
  then show ?case
    using Cons.IH [of m1 n1 ns1 w1] step1 n1 Cons.prems(4) by (auto simp: algebra_simps)
qed

section \<open>Statistics\<close>

text \<open>The sum and count recorded for a step.\<close>

definition stat_of :: "RollingUpgradeStatistics list \<Rightarrow> RollingUpgradeStep \<Rightarrow> (int \<times> int) option" where
  "stat_of sts step = map_of (map (\<lambda>st. (stat_StepName st, (stat_DurationSum st, stat_DurationCount st))) sts) step"

lemma stat_of_add_statistics:
  "stat_of (add_statistics nsd sts) step =
     (if step = nsd_StepName nsd
      then (case stat_of sts step of
              None \<Rightarrow> Some (nsd_Duration nsd, 1)
            | Some (a, c) \<Rightarrow> Some (wrap64 (a + nsd_Duration nsd), wrap32 (c + 1)))
      else stat_of sts step)"
  by (induction sts) (auto simp: stat_of_def)

definition step_durations :: "RollingUpgradeStep \<Rightarrow> NodeStepDuration list \<Rightarrow> int list" where
  "step_durations step ds = map nsd_Duration (filter (\<lambda>d. nsd_StepName d = step) ds)"

text \<open>Durations are 64-bit values.\<close>

definition durations_ok :: "NodeStepDuration list \<Rightarrow> bool" where
  "durations_ok ds \<longleftrightarrow> list_all (\<lambda>d. min_int64 \<le> nsd_Duration d \<and> nsd_Duration d \<le> max_int64) ds"

definition merge_stat :: "(int \<times> int) option \<Rightarrow> int list \<Rightarrow> (int \<times> int) option" where
  "merge_stat old ds =
     (if ds = [] then old
      else case old of
             None \<Rightarrow> Some (wrap64 (sum_list ds), wrap32 (int (length ds)))
           | Some (a, c) \<Rightarrow> Some (wrap64 (a + sum_list ds), wrap32 (c + int (length ds))))"

lemma wrap32_one: "wrap32 1 = 1"
  by (simp add: wrap32_def)

lemma merge_stat_snoc:
  "min_int64 \<le> d \<and> d \<le> max_int64 \<Longrightarrow>
   merge_stat old (ds @ [d]) =
     (case merge_stat old ds of
        None \<Rightarrow> Some (d, 1) | Some (a, c) \<Rightarrow> Some (wrap64 (a + d), wrap32 (c + 1)))"
  by (auto simp: merge_stat_def wrap64_id wrap64_add wrap32_add wrap32_one
        wrap64_add [unfolded add.commute [of "wrap64 _"]] wrap32_add [unfolded add.commute [of "wrap32 _"]] ac_simps
        split: option.splits)

lemma stat_of_fold:
  "durations_ok ds \<Longrightarrow>
   stat_of (fold add_statistics ds sts) step = merge_stat (stat_of sts step) (step_durations step ds)"
proof (induction ds rule: rev_induct)
  case Nil
  then show ?case by (simp add: step_durations_def merge_stat_def)
next
  case (snoc d ds)
  then have IH: "stat_of (fold add_statistics ds sts) step = merge_stat (stat_of sts step) (step_durations step ds)"
    and d: "min_int64 \<le> nsd_Duration d \<and> nsd_Duration d \<le> max_int64"
    by (auto simp: durations_ok_def)
  show ?case
  proof (cases "nsd_StepName d = step")
    case True
    then have "step_durations step (ds @ [d]) = step_durations step ds @ [nsd_Duration d]"
      by (simp add: step_durations_def)
    with True show ?thesis
      by (simp add: stat_of_add_statistics IH merge_stat_snoc [OF d])
  next
    case False
    then have "step_durations step (ds @ [d]) = step_durations step ds"
      by (simp add: step_durations_def)
    with False show ?thesis
      using IH by (simp add: stat_of_add_statistics)
  qed
qed

lemma fold_AddNodeStepDuration:
  "fold AddNodeStepDuration ds r =
     upd_status (\<lambda>st. st\<lparr>status_Statistics := fold add_statistics ds (status_Statistics st)\<rparr>) r"
  by (induction ds arbitrary: r) (simp_all add: AddNodeStepDuration_def)

lemma merge_stat_perm: "mset ds = mset ds' \<Longrightarrow> merge_stat old ds = merge_stat old ds'"
  by (metis merge_stat_def mset_zero_iff size_mset sum_mset_sum_list)

lemma fold_fold_concat: "fold (\<lambda>k. fold f (g k)) ks x = fold f (concat (map g ks)) x"
  by (induction ks arbitrary: x) auto

lemma mset_concat_perm:
  "mset ks = mset ks' \<Longrightarrow> mset (concat (map f ks)) = mset (concat (map f ks'))"
  by (metis (no_types, lifting) mset_concat mset_map sum_mset_sum_list)

lemma map_steps_of_keys: "map_ok ns \<Longrightarrow> map (steps_of ns) (map fst ns) = map snd ns"
  by (auto simp: map_ok_def steps_of_def)

section \<open>Properties\<close>

text \<open>C28: over any run of a node through rotation steps that ends with \<open>Completed\<close>, the durations
  recorded for the individual steps add up: together with the time between the start of the
  upgrade and the start of the node's current step they are exactly the recorded total, and the
  node has left the in-processing map. Steps out of order record nothing and lose nothing.\<close>

theorem recorded_durations_telescope:
  assumes "map_of m node = Some n" and "nip_StepName n \<noteq> NodeRotationTotal"
    and "time_ok (nip_UpgradeStartTime n)" and "time_ok (nip_StepStartTime n)"
    and "\<forall>(st, t) \<in> set steps. st \<noteq> NodeRotationCompleted \<and> st \<noteq> NodeRotationTotal \<and> time_ok t"
    and "time_ok t"
    and "steps_of ns node = []"
    and "node_run e m ns g node (steps @ [(NodeRotationCompleted, t)]) w = ((m', ns'), w')"
  shows "map_of m' node = None \<and>
    step_time (steps_of ns' node) + (nip_StepStartTime n - nip_UpgradeStartTime n) = total_time (steps_of ns' node) \<and>
    total_time (steps_of ns' node) = t - nip_UpgradeStartTime n"
proof -
  obtain m1 ns1 w1 where run: "node_run e m ns g node steps w = ((m1, ns1), w1)"
    by (metis prod.exhaust)
  have last: "DoNodeStep e m1 ns1 g node NodeRotationCompleted t w1 = ((m', ns'), w')"
    using assms(8) by (simp add: node_run_append run case_prod_beta)
  obtain n1 where n1: "map_of m1 node = Some n1" "nip_UpgradeStartTime n1 = nip_UpgradeStartTime n"
      "nip_StepName n1 \<noteq> NodeRotationTotal" "time_ok (nip_StepStartTime n1)"
      "step_time (steps_of ns1 node) + nip_StepStartTime n = nip_StepStartTime n1"
      "total_time (steps_of ns1 node) = 0"
    using node_run_telescopes [OF assms(1,2,4,5) run] assms(7)
    by (auto simp: step_time_def total_time_def)
  have "time_Sub t (nip_StepStartTime n1) = t - nip_StepStartTime n1"
    "time_Sub t (nip_UpgradeStartTime n) = t - nip_UpgradeStartTime n"
    using time_Sub_ok assms(3,6) n1(4) by blast+
  then show ?thesis
    using DoNodeStep_completed [OF n1(1), of e ns1 g t w1] n1
    by (auto simp: last step_time_def total_time_def)
qed

text \<open>One node that starts at time 5 and completes at time 20, with a step out of order in between.\<close>

theorem recorded_durations_telescope_witness:
  "step_time (steps_of (snd (fst (node_run sample_env [(''n1'', \<lparr>nip_NodeName = ''n1'',
      nip_StepName = NodeRotationKickoff, nip_UpgradeStartTime = 5, nip_StepStartTime = 5, nip_StepEndTime = 0\<rparr>)]
      [] ''asg'' ''n1'' ([(NodeRotationDrain, 9), (NodeRotationPredrainScript, 11)] @ [(NodeRotationCompleted, 20)])
      sample_ctx))) ''n1'') = 15"
proof -
  let ?n = "\<lparr>nip_NodeName = ''n1'', nip_StepName = NodeRotationKickoff, nip_UpgradeStartTime = 5,
    nip_StepStartTime = 5, nip_StepEndTime = 0\<rparr>"
  obtain m' ns' w' where run: "node_run sample_env [(''n1'', ?n)] [] ''asg'' ''n1''
      ([(NodeRotationDrain, 9), (NodeRotationPredrainScript, 11)] @ [(NodeRotationCompleted, 20)]) sample_ctx
      = ((m', ns'), w')"
    by (metis prod.exhaust)
  show ?thesis
    unfolding run
    using recorded_durations_telescope [OF _ _ _ _ _ _ _ run, of ?n] by (simp add: steps_of_def)
qed

text \<open>C29: the statistics after a batch are, for every step, the old sum and count plus those of all
  recorded durations of that step, whatever order Go visits the map of nodes in.\<close>

theorem UpdateStatistics_correct:
  assumes "map_ok nodeSteps" and "durations_ok (concat (map snd nodeSteps))"
  shows "stat_of (status_Statistics (ru_Status (ctx_RollingUpgrade (UpdateStatistics e nodeSteps s)))) step =
    merge_stat (stat_of (status_Statistics (ru_Status (ctx_RollingUpgrade s))) step)
      (step_durations step (concat (map snd nodeSteps)))"
proof -
  obtain ks s' where rk: "range_keys e (map fst nodeSteps) s = (ks, s')" by fastforce
  have perm: "mset ks = mset (map fst nodeSteps)"
    using range_keys_perm [of e "map fst nodeSteps" s] by (simp add: rk)
  have ru: "ctx_RollingUpgrade s' = ctx_RollingUpgrade s"
    using rk by (auto simp: range_keys_def Let_def log_event_def)
  let ?ds = "concat (map (steps_of nodeSteps) ks)"
  have p: "mset ?ds = mset (concat (map snd nodeSteps))"
    using mset_concat_perm [OF perm, of "steps_of nodeSteps"]
    unfolding map_steps_of_keys [OF assms(1)] .
  then have "set ?ds = set (concat (map snd nodeSteps))" by (rule mset_eq_setD)
  then have ok: "durations_ok ?ds"
    using assms(2) by (simp add: durations_ok_def list_all_iff)
  have "mset (step_durations step ?ds) = mset (step_durations step (concat (map snd nodeSteps)))"
    unfolding step_durations_def mset_map mset_filter p ..
  note same = merge_stat_perm [OF this]
  have "UpdateStatistics e nodeSteps s = upd_ru (fold AddNodeStepDuration ?ds) s'"
    by (simp add: UpdateStatistics_def rk fold_fold_concat)
  then show ?thesis
    by (simp add: fold_AddNodeStepDuration ru stat_of_fold [OF ok] same)
qed


theorem UpdateStatistics_correct_witness:
  "stat_of (status_Statistics (ru_Status (ctx_RollingUpgrade (UpdateStatistics sample_env
      [(''n1'', [\<lparr>nsd_GroupName = ''asg'', nsd_NodeName = ''n1'', nsd_StepName = NodeRotationDrain, nsd_Duration = 5\<rparr>]),
       (''n2'', [\<lparr>nsd_GroupName = ''asg'', nsd_NodeName = ''n2'', nsd_StepName = NodeRotationDrain, nsd_Duration = 7\<rparr>])]
      sample_ctx)))) NodeRotationDrain = Some (12, 2)"
  by (subst UpdateStatistics_correct)
     (simp_all add: map_ok_def durations_ok_def stat_of_def sample_ctx_def sample_RollingUpgrade_def
        merge_stat_def step_durations_def wrap64_def wrap32_def)

end
