(* ===== verification/Drift.thy ===== *)
theory Drift
  imports Step_Metrics
begin

text \<open>
  Drift and progress, from \<^verbatim>\<open>controllers/upgrade.go\<close>: which instances of the scaling group still
  have to be rotated (\<open>IsInstanceDrifted\<close>, \<open>IsScalingGroupDrifted\<close>), the progress shown in the
  status, the end time, and the readiness check of eager mode. Shown: the drift test decides a
  declarative specification, the upgrade is reported without drift exactly when no instance
  drifts, percentages stay between 0 and 100, and readiness means that every in-service instance
  has a ready node.
\<close>

section \<open>Definitions\<close>

definition LaunchTemplateVersionLatest :: string where
  "LaunchTemplateVersionLatest = ''$Latest''"

text \<open>The comparison of an instance's launch template with the wanted one (the code has it twice).\<close>

definition template_drifted ::
  "LaunchTemplate list \<Rightarrow> LaunchTemplateSpecification \<Rightarrow> LaunchTemplateSpecification \<Rightarrow> bool" where
  "template_drifted templates wanted have =
     (let launchTemplateName = StringValue (lts_LaunchTemplateName wanted);
          instanceTemplateName = StringValue (lts_LaunchTemplateName have);
          instanceTemplateVersion = StringValue (lts_Version have);
          templateVersion = (if EqualFold (StringValue (lts_Version wanted)) LaunchTemplateVersionLatest
                             then GetTemplateLatestVersion templates launchTemplateName
                             else StringValue (lts_Version wanted))
      in if \<not> EqualFold launchTemplateName instanceTemplateName then True
         else \<not> EqualFold instanceTemplateVersion templateVersion)"

text \<open>The force-refresh test: \<open>Some b\<close> when it returns \<open>b\<close>, \<open>None\<close> when the tests go on.\<close>

definition force_refresh :: "ctx \<Rightarrow> string \<Rightarrow> bool option" where
  "force_refresh r instanceID =
     (if IsForceRefresh (ctx_RollingUpgrade r) then
        (case SelectNodeByInstanceID instanceID (ctx_nodes r) of
           None \<Rightarrow> Some False
         | Some node \<Rightarrow>
             if node_CreationTimestamp node < meta_CreationTimestamp (ctx_RollingUpgrade r)
             then Some True else None)
      else None)"

text \<open>\<open>None\<close>: a mixed instances policy without a launch template specification is dereferenced.\<close>

definition IsInstanceDrifted :: "ctx \<Rightarrow> Instance \<Rightarrow> bool option" where
  "IsInstanceDrifted r instance =
     (let scalingGroup = ctx_group r; instanceID = StringValue (inst_InstanceId instance) in
      if ContainsEqualFold TerminatingInstanceStates (StringValue (inst_LifecycleState instance))
      then Some False
      else (case force_refresh r instanceID of
        Some result \<Rightarrow> Some result
      | None \<Rightarrow>
         (case group_LaunchConfigurationName scalingGroup of
            Some launchConfigName \<Rightarrow>
              Some (case inst_LaunchConfigurationName instance of
                      None \<Rightarrow> True
                    | Some instanceConfigName \<Rightarrow> \<not> EqualFold launchConfigName instanceConfigName)
          | None \<Rightarrow>
         (case group_LaunchTemplate scalingGroup of
            Some wanted \<Rightarrow>
              Some (case inst_LaunchTemplate instance of
                      None \<Rightarrow> True
                    | Some have \<Rightarrow> template_drifted (cloud_LaunchTemplates (ctx_Cloud r)) wanted have)
          | None \<Rightarrow>
         (case group_MixedInstancesPolicy scalingGroup of
            Some policy \<Rightarrow>
              (case inst_LaunchTemplate instance of
                 None \<Rightarrow> Some True
               | Some have \<Rightarrow>
                   do { launchTemplate \<leftarrow> policy_LaunchTemplateSpecification policy;
                        wanted \<leftarrow> launchTemplate;
                        Some (template_drifted (cloud_LaunchTemplates (ctx_Cloud r)) wanted have) })
          | None \<Rightarrow> Some False)))))"

definition SetProgress :: "int \<Rightarrow> int \<Rightarrow> ctx \<Rightarrow> ctx" where
  "SetProgress nodesProcessed totalNodes r =
     (if totalNodes > 0 \<and> nodesProcessed \<ge> 0 then
        (let r1 = upd_ru (SetTotalNodes totalNodes) r;
             r2 = upd_ru (SetNodesProcessed nodesProcessed) r1;
             completePercentage =
               math_Round (fmul (fdiv (float_of_int nodesProcessed) (float_of_int totalNodes)) 100);
             r3 = upd_ru (SetCompletePercentage completePercentage) r2;
             asg = ScalingGroupName (ctx_RollingUpgrade r3)
         in SetNodesProcessedMetric asg nodesProcessed (SetTotalNodesMetric asg totalNodes r3))
      else r)"

fun drift_count :: "ctx \<Rightarrow> Instance list \<Rightarrow> int option" where
  "drift_count r [] = Some 0"
| "drift_count r (instance # instances) =
     do { drifted \<leftarrow> IsInstanceDrifted r instance;
          n \<leftarrow> drift_count r instances;
          Some (if drifted then n + 1 else n) }"

definition IsScalingGroupDrifted :: "ctx \<Rightarrow> (bool \<times> ctx) option" where
  "IsScalingGroupDrifted r =
     (let scalingGroup = ctx_group r;
          desiredCapacity = Int64Value (group_DesiredCapacity scalingGroup)
      in do { driftCount \<leftarrow> drift_count r (group_Instances scalingGroup);
              Some (if driftCount \<noteq> 0
                    then (True, SetProgress (wrap64 (desiredCapacity - driftCount)) desiredCapacity r)
                    else (False, SetProgress desiredCapacity desiredCapacity r)) })"

definition endTimeUpdate :: "env \<Rightarrow> ctx \<Rightarrow> ctx" where
  "endTimeUpdate e r =
     (let (now, r1) = Now e r;
          r2 = upd_ru (SetEndTime (env_FormatRFC3339 e now)) r1
      in (case (env_ParseRFC3339 e (StartTime (ctx_RollingUpgrade r2)),
                env_ParseRFC3339 e (EndTime (ctx_RollingUpgrade r2))) of
            (Some startTime, Some endTime) \<Rightarrow>
              (let total = time_Sub endTime startTime;
                   r3 = upd_ru (SetTotalProcessingTime (env_DurationString e total)) r2
               in TotalProcessingTime (ScalingGroupName (ctx_RollingUpgrade r3)) total r3)
          | _ \<Rightarrow> r2))"

text \<open>The nodes that count as ready: of an in-service instance, ready, and past the gates.\<close>

definition ready_node :: "ctx \<Rightarrow> string list \<Rightarrow> Node \<Rightarrow> bool" where
  "ready_node r inServiceInstanceIDs node \<longleftrightarrow>
     ContainsEqualFold inServiceInstanceIDs (GetNodeInstanceID (Some node)) \<and> IsNodeReady node \<and>
     IsNodePassesReadinessGates node (spec_ReadinessGates (ru_Spec (ctx_RollingUpgrade r)))"

definition DesiredNodesReady :: "env \<Rightarrow> ctx \<Rightarrow> bool \<times> ctx" where
  "DesiredNodesReady e r =
     (let scalingGroup = ctx_group r;
          desiredInstances = Int64Value (group_DesiredCapacity scalingGroup);
          inServiceInstanceIDs = GetInServiceInstanceIDs (group_Instances scalingGroup)
      in if int (length inServiceInstanceIDs) \<noteq> desiredInstances then (False, r)
         else
           (let ((nodes, err), r1) = ListClusterNodes e r;
                currentClusterNodes = (if err \<noteq> None then ctx_nodes r1 else nodes);
                readyNodes = int (length (filter (ready_node r1 inServiceInstanceIDs) currentClusterNodes))
            in if readyNodes \<noteq> desiredInstances then (False, r1) else (True, r1)))"

section \<open>What drift means\<close>

text \<open>
  The specification: what the group's configuration launches instances from, with \<^verbatim>\<open>$Latest\<close>
  resolved, and whether an instance was launched from it.
\<close>

datatype launch_source = FromConfig string | FromTemplate string string | Unspecified

definition template_source :: "LaunchTemplate list \<Rightarrow> LaunchTemplateSpecification \<Rightarrow> launch_source" where
  "template_source templates wanted =
     FromTemplate (StringValue (lts_LaunchTemplateName wanted))
       (if EqualFold (StringValue (lts_Version wanted)) LaunchTemplateVersionLatest
        then GetTemplateLatestVersion templates (StringValue (lts_LaunchTemplateName wanted))
        else StringValue (lts_Version wanted))"

definition desired_source :: "LaunchTemplate list \<Rightarrow> Group \<Rightarrow> launch_source" where
  "desired_source templates g =
     (case group_LaunchConfigurationName g of Some lc \<Rightarrow> FromConfig lc
      | None \<Rightarrow>
     (case group_LaunchTemplate g of Some wanted \<Rightarrow> template_source templates wanted
      | None \<Rightarrow>
     (case group_MixedInstancesPolicy g of
        Some policy \<Rightarrow>
          (case policy_LaunchTemplateSpecification policy of
             Some (Some wanted) \<Rightarrow> template_source templates wanted | _ \<Rightarrow> Unspecified)
      | None \<Rightarrow> Unspecified)))"

fun launched_from :: "Instance \<Rightarrow> launch_source \<Rightarrow> bool" where
  "launched_from i (FromConfig lc) \<longleftrightarrow> (\<exists>ic. inst_LaunchConfigurationName i = Some ic \<and> EqualFold lc ic)"
| "launched_from i (FromTemplate name version) \<longleftrightarrow>
     (\<exists>t. inst_LaunchTemplate i = Some t \<and> EqualFold name (StringValue (lts_LaunchTemplateName t)) \<and>
          EqualFold version (StringValue (lts_Version t)))"
| "launched_from i Unspecified \<longleftrightarrow> True"

definition terminating :: "Instance \<Rightarrow> bool" where
  "terminating i \<longleftrightarrow> ContainsEqualFold TerminatingInstanceStates (StringValue (inst_LifecycleState i))"

definition drifted :: "ctx \<Rightarrow> Instance \<Rightarrow> bool" where
  "drifted r i \<longleftrightarrow> \<not> terminating i \<and>
     (let stale = \<not> launched_from i (desired_source (cloud_LaunchTemplates (ctx_Cloud r)) (ctx_group r)) in
      if IsForceRefresh (ctx_RollingUpgrade r) then
        (\<exists>node. SelectNodeByInstanceID (StringValue (inst_InstanceId i)) (ctx_nodes r) = Some node \<and>
           (node_CreationTimestamp node < meta_CreationTimestamp (ctx_RollingUpgrade r) \<or> stale))
      else stale)"

text \<open>A group whose mixed instances policy, if used, names a launch template.\<close>

definition group_complete :: "Group \<Rightarrow> bool" where
  "group_complete g \<longleftrightarrow>
     (case group_MixedInstancesPolicy g of
        None \<Rightarrow> True
      | Some p \<Rightarrow> (case policy_LaunchTemplateSpecification p of Some (Some _) \<Rightarrow> True | _ \<Rightarrow> False))"

lemma template_drifted_iff:
  "template_drifted ts wanted have \<longleftrightarrow>
     \<not> (EqualFold (StringValue (lts_LaunchTemplateName wanted)) (StringValue (lts_LaunchTemplateName have)) \<and>
        EqualFold (if EqualFold (StringValue (lts_Version wanted)) LaunchTemplateVersionLatest
                   then GetTemplateLatestVersion ts (StringValue (lts_LaunchTemplateName wanted))
                   else StringValue (lts_Version wanted)) (StringValue (lts_Version have)))"
  by (auto simp: template_drifted_def Let_def EqualFold_commute)

lemma IsInstanceDrifted_eq:
  assumes "group_complete (ctx_group r)"
  shows "IsInstanceDrifted r i = Some (drifted r i)"
proof -
  define g where "g = ctx_group r"
  define ts where "ts = cloud_LaunchTemplates (ctx_Cloud r)"
  define stale where "stale = (\<not> launched_from i (desired_source ts g))"
  have cfg: "(case group_LaunchConfigurationName g of
            Some lc \<Rightarrow> Some (case inst_LaunchConfigurationName i of None \<Rightarrow> True | Some ic \<Rightarrow> \<not> EqualFold lc ic)
          | None \<Rightarrow> (case group_LaunchTemplate g of
            Some wanted \<Rightarrow> Some (case inst_LaunchTemplate i of None \<Rightarrow> True | Some have \<Rightarrow> template_drifted ts wanted have)
          | None \<Rightarrow> (case group_MixedInstancesPolicy g of
            Some policy \<Rightarrow> (case inst_LaunchTemplate i of None \<Rightarrow> Some True
               | Some have \<Rightarrow> do { lt \<leftarrow> policy_LaunchTemplateSpecification policy; wanted \<leftarrow> lt;
                                     Some (template_drifted ts wanted have) })
          | None \<Rightarrow> Some False))) = Some stale"
    using assms unfolding g_def [symmetric]
    by (auto simp: stale_def desired_source_def template_source_def template_drifted_iff
        group_complete_def split: option.splits)
  show ?thesis
    unfolding IsInstanceDrifted_def Let_def g_def [symmetric] ts_def [symmetric] cfg
    by (auto simp: drifted_def terminating_def force_refresh_def Let_def stale_def g_def ts_def
        split: option.splits)
qed

lemma drift_count_eq:
  assumes "group_complete (ctx_group r)"
  shows "drift_count r is = Some (int (length (filter (drifted r) is)))"
  by (induction "is") (simp_all add: IsInstanceDrifted_eq [OF assms])

section \<open>Progress\<close>

lemma SetProgress_frame [simp]:
  "hist (SetProgress p n r) = hist r"
  "ctx_Cloud (SetProgress p n r) = ctx_Cloud r"
  "ru_Spec (ctx_RollingUpgrade (SetProgress p n r)) = ru_Spec (ctx_RollingUpgrade r)"
  "CurrentStatus (ctx_RollingUpgrade (SetProgress p n r)) = CurrentStatus (ctx_RollingUpgrade r)"
  by (simp_all add: SetProgress_def Let_def api_defs ctx_fields_of_more [OF metric_more(3)]
      ctx_fields_of_more [OF metric_more(2)])

lemma SetProgress_status:
  assumes "0 < n" and "0 \<le> p"
  shows "ru_Status (ctx_RollingUpgrade (SetProgress p n r)) =
    (ru_Status (ctx_RollingUpgrade r))\<lparr>status_TotalNodes := n, status_NodesProcessed := p,
      status_CompletePercentage :=
        Itoa (math_Round (fmul (fdiv (float_of_int p) (float_of_int n)) 100)) @ ''%''\<rparr>"
  using assms by (simp add: SetProgress_def Let_def api_defs ctx_fields_of_more [OF metric_more(3)]
      ctx_fields_of_more [OF metric_more(2)])

lemma percentage_bounds:
  assumes "0 \<le> p" and "p \<le> n" and "0 < n" and "n < 2 ^ 53"
  shows "0 \<le> math_Round (fmul (fdiv (float_of_int p) (float_of_int n)) 100) \<and>
         math_Round (fmul (fdiv (float_of_int p) (float_of_int n)) 100) \<le> 100"
proof -
  have f: "float_of_int p = of_int p" "float_of_int n = of_int n"
    using assms by (auto simp: float_of_int_def intro!: round64_int)
  have q: "0 \<le> (of_int p / of_int n :: rat)" "(of_int p / of_int n :: rat) \<le> of_int 1"
    using assms by simp_all
  have d: "0 \<le> fdiv (float_of_int p) (float_of_int n)" "fdiv (float_of_int p) (float_of_int n) \<le> 1"
    using round64_nonneg [OF q(1)] round64_le_int [OF q] q(2) by (simp_all add: fdiv_def f)
  let ?m = "fdiv (float_of_int p) (float_of_int n) * 100"
  have m: "0 \<le> ?m" "?m \<le> of_int 100" using d by simp_all
  have "0 \<le> round64 ?m" "round64 ?m \<le> of_int 100"
    using round64_nonneg [OF m(1)] round64_le_int [OF m] m(2) by simp_all
  then show ?thesis
    unfolding fmul_def by (rule math_Round_bounds)
qed

lemma percentage_full:
  assumes "0 < n" and "n < 2 ^ 53"
  shows "math_Round (fmul (fdiv (float_of_int n) (float_of_int n)) 100) = 100"
proof -
  have "float_of_int n = of_int n" using assms by (auto simp: float_of_int_def intro!: round64_int)
  then have "fdiv (float_of_int n) (float_of_int n) = 1"
    using assms round64_int [of 1] by (simp add: fdiv_def)
  then show ?thesis
    using round64_int [of 100] math_Round_int [of 100] by (simp add: fmul_def)
qed

section \<open>Readiness\<close>

lemma ListClusterNodes_more [simp, frame_simps]:
  "world.more (snd (ListClusterNodes e w)) = world.more w"
  by (simp add: ListClusterNodes_def Let_def case_prod_beta split: option.splits)

text \<open>The node list the readiness check works on: the fresh one, or the cached one on an error.\<close>

definition current_nodes :: "env \<Rightarrow> ctx \<Rightarrow> Node list" where
  "current_nodes e r =
     (case ListClusterNodes e r of ((nodes, err), _) \<Rightarrow> if err \<noteq> None then ctx_nodes r else nodes)"

lemma DesiredNodesReady_iff:
  "fst (DesiredNodesReady e r) \<longleftrightarrow>
     int (length (GetInServiceInstanceIDs (group_Instances (ctx_group r)))) = Int64Value (group_DesiredCapacity (ctx_group r)) \<and>
     int (length (filter (ready_node r (GetInServiceInstanceIDs (group_Instances (ctx_group r)))) (current_nodes e r)))
       = Int64Value (group_DesiredCapacity (ctx_group r))"
proof -
  obtain nodes err r1 where l: "ListClusterNodes e r = ((nodes, err), r1)" by (metis prod.exhaust)
  have "ctx_RollingUpgrade r1 = ctx_RollingUpgrade r" "ctx_nodes r1 = ctx_nodes r"
    using ctx_fields_of_more(1,2) [OF ListClusterNodes_more [of e r]] by (simp_all add: l)
  then have "ready_node r1 = ready_node r" "ctx_nodes r1 = ctx_nodes r"
    by (simp_all add: ready_node_def fun_eq_iff)
  then show ?thesis
    by (simp add: DesiredNodesReady_def current_nodes_def l Let_def)
qed

lemma DesiredNodesReady_more [simp, frame_simps]:
  "world.more (snd (DesiredNodesReady e r)) = world.more r"
  by (simp add: DesiredNodesReady_def Let_def case_prod_beta)

text \<open>A counting argument: as many pairwise different keys as there are slots use every slot.\<close>

lemma distinct_keys_cover:
  assumes "distinct (map f xs)" and "f ` set xs \<subseteq> g ` set ys" and "length xs = length ys" and "y \<in> set ys"
  shows "\<exists>x \<in> set xs. f x = g y"
proof -
  have "card (g ` set ys) \<le> length ys" by (metis card_image_le card_length finite_set le_trans)
  also have "\<dots> = card (f ` set xs)" using assms(1,3) by (metis distinct_card length_map list.set_map)
  finally have "f ` set xs = g ` set ys"
    using assms(2) by (intro card_subset_eq) (auto intro: card_mono antisym)
  with assms(4) show ?thesis by (metis imageE imageI)
qed

section \<open>Properties\<close>

text \<open>C19: for a group whose mixed instances policy is complete, the drift test returns and decides the
  specification \<open>drifted\<close>: the instance is not terminating and, under force refresh, belongs to a
  node older than the upgrade or launched from another source, otherwise was launched from
  another source than the group's. It panics exactly on an instance with a launch template that
  must be compared with a mixed instances policy lacking its template specification.\<close>

theorem IsInstanceDrifted_correct:
  "(group_complete (ctx_group r) \<longrightarrow> IsInstanceDrifted r i = Some (drifted r i)) \<and>
   (IsInstanceDrifted r i = None \<longleftrightarrow>
      \<not> terminating i \<and> force_refresh r (StringValue (inst_InstanceId i)) = None \<and>
      group_LaunchConfigurationName (ctx_group r) = None \<and> group_LaunchTemplate (ctx_group r) = None \<and>
      \<not> group_complete (ctx_group r) \<and> inst_LaunchTemplate i \<noteq> None)"
proof (intro conjI impI)
  assume "group_complete (ctx_group r)"
  then show "IsInstanceDrifted r i = Some (drifted r i)" by (rule IsInstanceDrifted_eq)
next
  show "IsInstanceDrifted r i = None \<longleftrightarrow>
      \<not> terminating i \<and> force_refresh r (StringValue (inst_InstanceId i)) = None \<and>
      group_LaunchConfigurationName (ctx_group r) = None \<and> group_LaunchTemplate (ctx_group r) = None \<and>
      \<not> group_complete (ctx_group r) \<and> inst_LaunchTemplate i \<noteq> None"
    by (auto simp: IsInstanceDrifted_def Let_def terminating_def group_complete_def
        split: option.splits Option.bind_splits)
qed

theorem IsInstanceDrifted_correct_witness:
  "IsInstanceDrifted sample_ctx (sample_instance ''i1'' ''a'' ''old'') = Some True"
proof -
  have "group_complete (ctx_group sample_ctx)"
    by (simp add: group_complete_def sample_ctx_def sample_group_def sample_RollingUpgrade_def
        complete_strategy_def ScalingGroupName_def)
  then have "IsInstanceDrifted sample_ctx (sample_instance ''i1'' ''a'' ''old'') =
      Some (drifted sample_ctx (sample_instance ''i1'' ''a'' ''old''))"
    using IsInstanceDrifted_correct by blast
  also have "\<dots> = Some True"
    by (simp add: drifted_def terminating_def desired_source_def sample_ctx_def sample_group_def
        sample_instance_def sample_RollingUpgrade_def complete_strategy_def ScalingGroupName_def
        IsForceRefresh_def TerminatingInstanceStates_def EqualFold_def fold_char_def)
  finally show ?thesis .
qed

text \<open>C20: for a desired capacity above 0 and below \<open>2 ^ 53\<close> and no more drifted instances than that, the scaling
  group is reported drifted exactly when some instance drifts. The status then shows
  the desired capacity as total, the capacity less the drifted instances as processed, and a
  percentage between 0 and 100, which is 100 when nothing drifts.\<close>

theorem IsScalingGroupDrifted_correct:
  assumes "group_complete (ctx_group r)"
    and "Int64Value (group_DesiredCapacity (ctx_group r)) = desired" and "0 < desired" and "desired < 2 ^ 53"
    and "length (filter (drifted r) (group_Instances (ctx_group r))) = k" and "int k \<le> desired"
  shows "\<exists>r' p. IsScalingGroupDrifted r = Some (\<exists>i \<in> set (group_Instances (ctx_group r)). drifted r i, r') \<and>
    status_TotalNodes (ru_Status (ctx_RollingUpgrade r')) = desired \<and>
    status_NodesProcessed (ru_Status (ctx_RollingUpgrade r')) = desired - int k \<and>
    status_CompletePercentage (ru_Status (ctx_RollingUpgrade r')) = Itoa p @ ''%'' \<and>
    0 \<le> p \<and> p \<le> 100 \<and> (k = 0 \<longrightarrow> p = 100) \<and> hist r' = hist r"
proof -
  have some: "(\<exists>i \<in> set (group_Instances (ctx_group r)). drifted r i) \<longleftrightarrow> k \<noteq> 0"
    using assms(5) by (auto simp: filter_empty_conv)
  have w: "wrap64 (desired - int k) = desired - int k"
    using assms by (intro wrap64_id) simp_all
  have "IsScalingGroupDrifted r = Some (k \<noteq> 0, SetProgress (desired - int k) desired r)"
    unfolding IsScalingGroupDrifted_def Let_def drift_count_eq [OF assms(1)] assms(2,5)
    by (simp add: w)
  moreover note SetProgress_status [of desired "desired - int k" r]
    percentage_bounds [of "desired - int k" desired] percentage_full [of desired]
  ultimately show ?thesis
    using assms(3,4,6) some
    by (intro exI [of _ "SetProgress (desired - int k) desired r"] exI) auto
qed

theorem IsScalingGroupDrifted_correct_witness:
  "\<exists>r'. IsScalingGroupDrifted sample_ctx = Some (True, r') \<and>
     status_NodesProcessed (ru_Status (ctx_RollingUpgrade r')) = 1"
proof -
  let ?r = sample_ctx
  note defs = drifted_def terminating_def desired_source_def sample_ctx_def sample_group_def
    sample_instance_def sample_RollingUpgrade_def complete_strategy_def ScalingGroupName_def
    IsForceRefresh_def TerminatingInstanceStates_def EqualFold_def fold_char_def group_complete_def
  have g: "group_complete (ctx_group ?r)" and d: "Int64Value (group_DesiredCapacity (ctx_group ?r)) = 2"
    and k: "length (filter (drifted ?r) (group_Instances (ctx_group ?r))) = 1"
    by (simp_all add: defs)
  have "\<exists>i \<in> set (group_Instances (ctx_group ?r)). drifted ?r i"
    using k by (auto simp: length_Suc_conv filter_eq_Cons_iff)
  then show ?thesis
    using IsScalingGroupDrifted_correct [OF g d _ _ k] by auto
qed

text \<open>C21: eager mode goes on only when the group is at full strength: if \<open>DesiredNodesReady\<close> answers yes
  and no two cluster nodes claim the same instance, then as many instances as desired are in
  service and each of them has a cluster node that is ready and passes the readiness gates.\<close>

theorem DesiredNodesReady_sound:
  assumes "fst (DesiredNodesReady e r)"
    and "distinct (map (\<lambda>n. map fold_char (GetNodeInstanceID (Some n))) (current_nodes e r))"
    and "i \<in> set (GetInServiceInstanceIDs (group_Instances (ctx_group r)))"
  shows "int (length (GetInServiceInstanceIDs (group_Instances (ctx_group r)))) =
      Int64Value (group_DesiredCapacity (ctx_group r)) \<and>
    (\<exists>node \<in> set (current_nodes e r). EqualFold (GetNodeInstanceID (Some node)) i \<and> IsNodeReady node \<and>
       IsNodePassesReadinessGates node (spec_ReadinessGates (ru_Spec (ctx_RollingUpgrade r))))"
proof -
  let ?ids = "GetInServiceInstanceIDs (group_Instances (ctx_group r))"
  let ?f = "\<lambda>n. map fold_char (GetNodeInstanceID (Some n))"
  let ?ready = "filter (ready_node r ?ids) (current_nodes e r)"
  note iff = assms(1) [unfolded DesiredNodesReady_iff]
  have "\<exists>node \<in> set ?ready. ?f node = map fold_char i"
  proof (rule distinct_keys_cover [of ?f ?ready "map fold_char" ?ids])
    show "distinct (map ?f ?ready)" using assms(2) by (rule distinct_map_filter)
    show "?f ` set ?ready \<subseteq> map fold_char ` set ?ids"
      by (auto simp: ready_node_def ContainsEqualFold_iff EqualFold_def) (metis imageI)
  qed (use iff assms(3) in simp_all)
  then show ?thesis
    using iff by (auto simp: ready_node_def EqualFold_def)
qed

theorem DesiredNodesReady_sound_witness:
  "\<exists>node \<in> set (current_nodes (sample_env\<lparr>env_NodesList := \<lambda>h. (None, Some (Errorf ''timeout''))\<rparr>) sample_ctx).
     EqualFold (GetNodeInstanceID (Some node)) ''i2'' \<and> IsNodeReady node"
proof -
  let ?e = "sample_env\<lparr>env_NodesList := \<lambda>h. (None, Some (Errorf ''timeout''))\<rparr>"
  note defs = sample_ctx_def sample_group_def sample_instance_def sample_RollingUpgrade_def
    sample_node_def complete_strategy_def ScalingGroupName_def EqualFold_def fold_char_def
    GetInServiceInstanceIDs_def current_nodes_def ListClusterNodes_def Let_def GetNodeInstanceID_def
  have 1: "fst (DesiredNodesReady ?e sample_ctx)"
    by (simp add: DesiredNodesReady_iff ready_node_def IsNodeReady_def IsNodePassesReadinessGates_def defs)
  have 2: "distinct (map (\<lambda>n. map fold_char (GetNodeInstanceID (Some n))) (current_nodes ?e sample_ctx))"
    by (simp add: defs)
  have 3: "''i2'' \<in> set (GetInServiceInstanceIDs (group_Instances (ctx_group sample_ctx)))"
    by (simp add: defs)
  show ?thesis using DesiredNodesReady_sound [OF 1 2 3] by blast
qed

end
