(* ===== verification/Target_Selection.thy ===== *)
theory Target_Selection
  imports Drift
begin

text \<open>
  Selecting the next batch, from \<^verbatim>\<open>controllers/upgrade.go\<close>: \<open>CalculateMaxUnavailable\<close> and
  \<open>SelectTargets\<close> with its two strategies. The inner loops are functions of their own:
  \<open>split_in_progress\<close> (instances already tagged, and orphaned tags), \<open>select_unprocessed\<close> (the
  drifted instances without the tag) and \<open>az_rounds\<close> (round-robin over the availability zones,
  which pops one target per zone and pass until all are taken). Shown: the batch size is at least
  one and at most the group's size, round-robin always ends with a permutation of its targets in
  which no zone runs ahead of another that still has targets, and every selected target is an
  instance of the group that is not terminating.
\<close>

section \<open>Definitions\<close>

definition CalculateMaxUnavailable :: "env \<Rightarrow> IntOrString \<Rightarrow> int \<Rightarrow> int" where
  "CalculateMaxUnavailable e batchSize totalNodes =
     (let unavailableInt =
            (if ios_Type batchSize = StringType then
               (if Contains (ios_StrVal batchSize) ''%''
                then fst (env_GetValueFromIntOrPercent e batchSize totalNodes True)
                else fst (Atoi (ios_StrVal batchSize)))
             else ios_IntVal batchSize);
          unavailableInt = (if unavailableInt > totalNodes then totalNodes else unavailableInt)
      in if unavailableInt = 0 then 1 else unavailableInt)"

text \<open>The in-progress instances: those to rotate, and those whose tag is orphaned.\<close>

fun split_in_progress :: "ctx \<Rightarrow> Group \<Rightarrow> string list \<Rightarrow> Instance list \<times> string list" where
  "split_in_progress r scalingGroup [] = ([], [])"
| "split_in_progress r scalingGroup (instance # instances) =
     (let (targets, orphaned) = split_in_progress r scalingGroup instances;
          selectedInstance = SelectScalingGroupInstance instance scalingGroup
      in if selectedInstance \<noteq> empty_Instance then
           (if \<not> ContainsEqualFold TerminatingInstanceStates (StringValue (inst_LifecycleState selectedInstance)) then
              (case SelectNodeByInstanceID instance (ctx_nodes r) of
                 None \<Rightarrow> (targets, instance # orphaned)
               | Some node \<Rightarrow> (selectedInstance # targets, orphaned))
            else (targets, orphaned))
         else (targets, instance # orphaned))"

fun select_unprocessed ::
  "ctx \<Rightarrow> Group \<Rightarrow> string list \<Rightarrow> string list \<Rightarrow> Instance list \<Rightarrow> Instance list option" where
  "select_unprocessed r scalingGroup excluded [] targets = Some targets"
| "select_unprocessed r scalingGroup excluded (instance # instances) targets =
     (let selectedInstance = SelectScalingGroupInstance instance scalingGroup;
          instanceID = StringValue (inst_InstanceId selectedInstance)
      in if selectedInstance \<noteq> empty_Instance then
           do { drift \<leftarrow> IsInstanceDrifted r selectedInstance;
                select_unprocessed r scalingGroup excluded instances
                  (if drift \<and> \<not> ContainsEqualFold TerminatingInstanceStates
                                   (StringValue (inst_LifecycleState selectedInstance))
                      \<and> \<not> ContainsEqualFold (GetInstanceIDs targets) instanceID
                      \<and> \<not> ContainsEqualFold excluded instanceID
                   then targets @ [selectedInstance] else targets) }
         else select_unprocessed r scalingGroup excluded instances targets)"

type_synonym az_map = "(string, Instance list) gomap"

definition az_get :: "az_map \<Rightarrow> string \<Rightarrow> Instance list" where
  "az_get m az = (case map_of m az of None \<Rightarrow> [] | Some ts \<Rightarrow> ts)"

definition az_of :: "Instance \<Rightarrow> string" where
  "az_of target = StringValue (inst_AvailabilityZone target)"

definition targetsByAZMap :: "Instance list \<Rightarrow> az_map" where
  "targetsByAZMap targets =
     fold (\<lambda>target m. AList.update (az_of target) (az_get m (az_of target) @ [target]) m) targets []"

text \<open>The body of the inner loop for one zone: pop the zone's last target.\<close>

definition az_pop :: "string \<Rightarrow> az_map \<times> Instance list \<Rightarrow> az_map \<times> Instance list" where
  "az_pop az = (\<lambda>(m, uniformAZTargets).
     if az_get m az \<noteq> []
     then (AList.update az (butlast (az_get m az)) m, uniformAZTargets @ [last (az_get m az)])
     else (m, uniformAZTargets))"

partial_function (option) az_rounds ::
  "env \<Rightarrow> nat \<Rightarrow> az_map \<Rightarrow> Instance list \<Rightarrow> ctx \<Rightarrow> (Instance list \<times> ctx) option" where
  "az_rounds e n m uniformAZTargets r =
     (if length uniformAZTargets = n then Some (uniformAZTargets, r)
      else let (azs, r') = range_keys e (map fst m) r;
               (m', uniformAZTargets') = fold az_pop azs (m, uniformAZTargets)
           in az_rounds e n m' uniformAZTargets' r')"

definition final_targets ::
  "env \<Rightarrow> Instance list \<Rightarrow> Instance list \<Rightarrow> ctx \<Rightarrow> (Instance list \<times> ctx) option" where
  "final_targets e inprogressTargets unprocessedTargets r =
     (if UpdateStrategyType (ctx_RollingUpgrade r) = RandomUpdateStrategy then
        Some (inprogressTargets @ unprocessedTargets, r)
      else if UpdateStrategyType (ctx_RollingUpgrade r) = UniformAcrossAzUpdateStrategy then
        do { (uniformAZTargets, r') \<leftarrow>
               az_rounds e (length unprocessedTargets) (targetsByAZMap unprocessedTargets) [] r;
             Some (inprogressTargets @ uniformAZTargets, r') }
      else Some ([], r))"

definition SelectTargets ::
  "env \<Rightarrow> Group \<Rightarrow> string list \<Rightarrow> ctx \<Rightarrow> (Instance list \<times> ctx) option" where
  "SelectTargets e scalingGroup excludedInstances r =
     (let batchSize = MaxUnavailable (ctx_RollingUpgrade r);
          totalNodes = Int64Value (group_DesiredCapacity scalingGroup);
          unavailableInt = CalculateMaxUnavailable e batchSize totalNodes;
          (inprogressTargets, orphaned) =
            split_in_progress r scalingGroup (cloud_InProgressInstances (ctx_Cloud r));
          r1 = (if orphaned \<noteq> []
                then snd (UntagEC2instances e orphaned instanceStateTagKey inProgressTagValue r) else r)
      in do { ((instances, err), r2) \<leftarrow>
                DescribeInstancesWithoutTagValue e instanceStateTagKey inProgressTagValue r1;
              if err \<noteq> None then Some ([], r2)
              else do {
                unprocessedTargets \<leftarrow> select_unprocessed r2 scalingGroup excludedInstances instances [];
                (finalTargets, r3) \<leftarrow> final_targets e inprogressTargets unprocessedTargets r2;
                let n = (if unavailableInt > int (length finalTargets)
                         then int (length finalTargets) else unavailableInt) in
                if n < 0 then None else Some (take (nat n) finalTargets, r3) } })"

section \<open>Batch size\<close>

text \<open>
  What the code relies on of \<^verbatim>\<open>intstr.GetValueFromIntOrPercent\<close>: for an accepted percentage and a
  non-negative total the answer is not negative (on a malformed string it is 0 with an error).
\<close>

definition percent_nonneg :: "env \<Rightarrow> bool" where
  "percent_nonneg e \<longleftrightarrow>
     (\<forall>v n up. ios_Type v = StringType \<longrightarrow> size_ok v \<longrightarrow> 0 \<le> n \<longrightarrow>
        0 \<le> fst (env_GetValueFromIntOrPercent e v n up))"

lemma CHR_percent_Contains: "Contains s [c] \<longleftrightarrow> c \<in> set s"
  by (induction s) auto

lemma Trim_absent: "c \<notin> set s \<Longrightarrow> Trim s c = s"
proof -
  have "dropWhile (\<lambda>x. x = c) t = t" if "c \<notin> set t" for t using that by (cases t) auto
  then show "c \<notin> set s \<Longrightarrow> Trim s c = s" by (simp add: Trim_def)
qed

lemma CalculateMaxUnavailable_bounds:
  assumes "percent_nonneg e" and "size_ok b" and "0 \<le> n"
  shows "1 \<le> CalculateMaxUnavailable e b n \<and> CalculateMaxUnavailable e b n \<le> max 1 n"
proof -
  let ?u = "if ios_Type b = StringType then
      (if Contains (ios_StrVal b) ''%'' then fst (env_GetValueFromIntOrPercent e b n True)
       else fst (Atoi (ios_StrVal b))) else ios_IntVal b"
  have "0 \<le> ?u"
    using assms by (auto simp: percent_nonneg_def size_ok_def size_acceptable_def CHR_percent_Contains
        Trim_absent split: IntOrStringType.splits)
  then show ?thesis
    using assms(3) by (auto simp: CalculateMaxUnavailable_def Let_def)
qed

section \<open>Round-robin over the zones\<close>

abbreviation in_az :: "string \<Rightarrow> Instance list \<Rightarrow> Instance list" where
  "in_az az ts \<equiv> filter (\<lambda>t. az_of t = az) ts"

lemma az_get_update [simp]: "az_get (AList.update k v m) az = (if az = k then v else az_get m az)"
  by (simp add: az_get_def)

lemma az_get_key: "az_get m az \<noteq> [] \<Longrightarrow> az \<in> fst ` set m"
  by (force simp: az_get_def dest: map_of_SomeD split: option.splits)

lemma keys_update_present: "k \<in> fst ` set m \<Longrightarrow> map fst (AList.update k v m) = map fst m"
  by (induction m) auto

lemma targetsByAZMap_get: "az_get (targetsByAZMap ts) az = in_az az ts"
proof -
  have "az_get (fold (\<lambda>t m. AList.update (az_of t) (az_get m (az_of t) @ [t]) m) ts m) az =
        az_get m az @ in_az az ts" for m
    by (induction ts arbitrary: m) auto
  then show ?thesis by (simp add: targetsByAZMap_def az_get_def)
qed

lemma targetsByAZMap_ok: "map_ok (targetsByAZMap ts)"
proof -
  have "map_ok m \<Longrightarrow> map_ok (fold (\<lambda>t m. AList.update (az_of t) (az_get m (az_of t) @ [t]) m) ts m)" for m
    by (induction ts arbitrary: m) auto
  then show ?thesis by (simp add: targetsByAZMap_def)
qed

text \<open>One pass pops the last target of every zone that has one.\<close>

lemma az_pass:
  assumes "distinct azs" and "fold az_pop azs (m, acc) = (m', acc')"
  shows "acc' = acc @ map (\<lambda>az. last (az_get m az)) (filter (\<lambda>az. az_get m az \<noteq> []) azs) \<and>
    (\<forall>az. az_get m' az = (if az \<in> set azs then butlast (az_get m az) else az_get m az)) \<and>
    map fst m' = map fst m"
  using assms
proof (induction azs arbitrary: m acc)
  case Nil
  then show ?case by simp
next
  case (Cons az azs)
  define m1 where "m1 = (if az_get m az \<noteq> [] then AList.update az (butlast (az_get m az)) m else m)"
  define acc1 where "acc1 = (if az_get m az \<noteq> [] then acc @ [last (az_get m az)] else acc)"
  have "fold az_pop azs (m1, acc1) = (m', acc')"
    using Cons.prems(2) by (simp add: az_pop_def [of az] m1_def acc1_def split: if_splits)
  note IH = Cons.IH [OF _ this]
  have other: "az' \<noteq> az \<Longrightarrow> az_get m1 az' = az_get m az'" for az' by (simp add: m1_def)
  have agree: "az_get m1 x = az_get m x" if "x \<in> set azs" for x
    using that Cons.prems(1) by (intro other) auto
  have "az_get m1 az = butlast (az_get m az)" by (simp add: m1_def)
  moreover have "map fst m1 = map fst m" by (simp add: m1_def keys_update_present az_get_key)
  moreover have "filter (\<lambda>az. az_get m1 az \<noteq> []) azs = filter (\<lambda>az. az_get m az \<noteq> []) azs"
    "map (\<lambda>az. last (az_get m1 az)) (filter (\<lambda>az. az_get m az \<noteq> []) azs) =
     map (\<lambda>az. last (az_get m az)) (filter (\<lambda>az. az_get m az \<noteq> []) azs)"
    by (auto simp: agree intro!: filter_cong)
  ultimately show ?case
    using IH Cons.prems(1) by (auto simp: acc1_def agree other)
qed

text \<open>
  \<open>az_balanced\<close>: in no prefix is a zone more than one target ahead of a zone with targets left.
\<close>

definition az_balanced :: "Instance list \<Rightarrow> Instance list \<Rightarrow> bool" where
  "az_balanced targets order \<longleftrightarrow>
     (\<forall>k a b. length (in_az a (take k order)) \<le> length (in_az b (take k order)) + 1 \<or>
              length (in_az b (take k order)) = length (in_az b targets))"

definition az_inv :: "Instance list \<Rightarrow> nat \<Rightarrow> az_map \<Rightarrow> Instance list \<Rightarrow> bool" where
  "az_inv targets j m acc \<longleftrightarrow> map_ok m \<and> az_balanced targets acc \<and>
     (\<forall>az. mset (az_get m az) + mset (in_az az acc) = mset (in_az az targets) \<and>
           length (az_get m az) = length (in_az az targets) - j)"

lemma mset_by_az: "(\<And>az. mset (in_az az xs) = mset (in_az az ys)) \<Longrightarrow> mset xs = mset ys"
proof (rule multiset_eqI)
  fix t assume "\<And>az. mset (in_az az xs) = mset (in_az az ys)"
  then have "count (mset (in_az (az_of t) xs)) t = count (mset (in_az (az_of t) ys)) t" by simp
  then show "count (mset xs) t = count (mset ys) t" by (simp add: count_mset)
qed

lemma az_inv_mset: "az_inv targets j m acc \<Longrightarrow> mset (az_get m az) + mset (in_az az acc) = mset (in_az az targets)"
  unfolding az_inv_def by blast

lemma az_inv_taken:
  assumes "az_inv targets j m acc"
  shows "length (in_az az acc) = min j (length (in_az az targets))"
proof -
  have "length (az_get m az) + length (in_az az acc) = length (in_az az targets)"
    using assms unfolding az_inv_def by (metis mset_append size_mset size_union)
  then show ?thesis using assms by (auto simp: az_inv_def min_def)
qed

lemma az_inv_member: "az_inv targets j m acc \<Longrightarrow> t \<in> set (az_get m az) \<Longrightarrow> az_of t = az"
proof -
  assume inv: "az_inv targets j m acc" and t: "t \<in> set (az_get m az)"
  then have "t \<in># mset (in_az az targets)" by (metis az_inv_def set_mset_mset union_iff)
  then show ?thesis by simp
qed

lemma filter_eq_single: "distinct xs \<Longrightarrow> filter (\<lambda>x. x = a) xs = (if a \<in> set xs then [a] else [])"
  by (induction xs) auto

lemma in_az_popped:
  assumes "az_inv targets j m acc" and "distinct azs" and "set azs = fst ` set m"
  shows "in_az a (map (\<lambda>az. last (az_get m az)) (filter (\<lambda>az. az_get m az \<noteq> []) azs)) =
    (if az_get m a \<noteq> [] then [last (az_get m a)] else [])"
proof -
  let ?azs = "filter (\<lambda>az. az_get m az \<noteq> []) azs"
  have "az_of (last (az_get m az)) = az" if "az_get m az \<noteq> []" for az
    using az_inv_member [OF assms(1)] that by simp
  then have "filter (\<lambda>az. az_of (last (az_get m az)) = a) ?azs = filter (\<lambda>az. az = a) ?azs"
    by (auto intro: filter_cong)
  also have "\<dots> = (if az_get m a \<noteq> [] then [a] else [])"
    using assms(2,3) az_get_key [of m a] by (subst filter_eq_single) auto
  finally show ?thesis by (simp add: filter_map o_def)
qed

lemma az_balanced_extend:
  assumes "az_balanced targets acc"
    and "\<And>a. length (in_az a acc) = min j (length (in_az a targets))"
    and "\<And>a. length (in_az a ps) \<le> 1"
    and "\<And>a. length (in_az a acc) + length (in_az a ps) \<le> length (in_az a targets)"
  shows "az_balanced targets (acc @ ps)"
  unfolding az_balanced_def
proof (intro allI)
  fix k a b
  show "length (in_az a (take k (acc @ ps))) \<le> length (in_az b (take k (acc @ ps))) + 1 \<or>
      length (in_az b (take k (acc @ ps))) = length (in_az b targets)"
  proof (cases "k \<le> length acc")
    case True
    then show ?thesis using assms(1) by (simp add: az_balanced_def)
  next
    case False
    let ?qs = "take (k - length acc) ps"
    have le: "length (in_az c ?qs) \<le> length (in_az c ps)" for c
      by (metis append_take_drop_id filter_append le_add1 length_append)
    have "length (in_az a acc) + length (in_az a ?qs) \<le> j + 1"
      using assms(2,3) [of a] le [of a] by linarith
    moreover have "length (in_az b acc) + length (in_az b ?qs) \<le> length (in_az b targets)"
      using assms(4) [of b] le [of b] by linarith
    moreover have "length (in_az b acc) = j \<or> length (in_az b acc) = length (in_az b targets)"
      using assms(2) [of b] by (auto simp: min_def)
    ultimately show ?thesis using False by auto
  qed
qed

lemma az_inv_step:
  assumes "az_inv targets j m acc" and "mset azs = mset (map fst m)"
    and "fold az_pop azs (m, acc) = (m', acc')"
  shows "az_inv targets (Suc j) m' acc'"
proof -
  have azs: "distinct azs" "set azs = fst ` set m"
    using assms(1,2) mset_eq_imp_distinct_iff [OF assms(2)] mset_eq_setD [OF assms(2)]
    by (auto simp: az_inv_def map_ok_def)
  let ?ps = "map (\<lambda>az. last (az_get m az)) (filter (\<lambda>az. az_get m az \<noteq> []) azs)"
  note pass = az_pass [OF azs(1) assms(3)]
  note popped = in_az_popped [OF assms(1) azs]
  have get: "az_get m' az = butlast (az_get m az)" for az
    using pass azs(2) az_get_key [of m az] by (cases "az_get m az = []") auto
  have ms: "mset (az_get m az) = mset (butlast (az_get m az)) + mset (in_az az ?ps)" for az
    using last_append_butlast [of "az_get m az"] by (simp add: popped)
  have inv: "mset (az_get m az) + mset (in_az az acc) = mset (in_az az targets)" for az
    using assms(1) by (rule az_inv_mset)
  have sz: "length (az_get m az) + length (in_az az acc) = length (in_az az targets)" for az
    using arg_cong [OF inv [of az], of size] by (simp del: mset_filter)
  have bal: "az_balanced targets acc" using assms(1) by (simp add: az_inv_def)
  have ps: "length (in_az az ?ps) \<le> 1" "length (in_az az ?ps) \<le> length (az_get m az)" for az
    using popped [of az] by (cases "az_get m az"; simp)+
  have "az_balanced targets (acc @ ?ps)"
  proof (rule az_balanced_extend [OF bal az_inv_taken [OF assms(1)] ps(1)])
    show "length (in_az a acc) + length (in_az a ?ps) \<le> length (in_az a targets)" for a
      using ps(2) [of a] sz [of a] by linarith
  qed
  moreover have "mset (az_get m' az) + mset (in_az az (acc @ ?ps)) = mset (in_az az targets)" for az
    using inv [of az] ms [of az] by (simp add: get union_ac)
  moreover have "map_ok m'" using pass assms(1) by (simp add: az_inv_def map_ok_def)
  ultimately show ?thesis
    using pass assms(1) by (simp add: az_inv_def get)
qed

lemma az_inv_done:
  assumes "az_inv targets j m acc" and "\<And>az. az_get m az = []"
  shows "mset acc = mset targets"
proof (rule mset_by_az)
  fix az
  show "mset (in_az az acc) = mset (in_az az targets)"
    using az_inv_mset [OF assms(1), of az] unfolding assms(2) by (simp del: mset_filter)
qed

lemma az_inv_sub: "az_inv targets j m acc \<Longrightarrow> mset acc \<subseteq># mset targets"
proof (rule mset_subset_eqI)
  fix t assume inv: "az_inv targets j m acc"
  have "count (mset (in_az (az_of t) acc)) t \<le> count (mset (in_az (az_of t) targets)) t"
    unfolding az_inv_mset [OF inv, symmetric] by (simp del: mset_filter)
  then show "count (mset acc) t \<le> count (mset targets) t" by simp
qed

lemma az_rounds_ends:
  assumes "az_inv targets j m acc"
  shows "\<exists>order r' j' m'. az_rounds e (length targets) m acc r = Some (order, r') \<and>
    az_inv targets j' m' order \<and> mset order = mset targets \<and> world.more r' = world.more r"
  using assms
proof (induction "length targets - length acc" arbitrary: j m acc r rule: less_induct)
  case less
  show ?case
  proof (cases "length acc = length targets")
    case True
    then have "mset acc = mset targets"
      using az_inv_sub [OF less.prems] by (metis mset_subset_size nless_le size_mset subset_mset.less_le)
    with True less.prems show ?thesis
      by (subst az_rounds.simps) auto
  next
    case False
    obtain azs r1 where rk: "range_keys e (map fst m) r = (azs, r1)" by fastforce
    obtain m1 acc1 where pass: "fold az_pop azs (m, acc) = (m1, acc1)" by fastforce
    have azs: "mset azs = mset (map fst m)" using range_keys_perm [of e "map fst m" r] by (simp add: rk)
    have more: "world.more r1 = world.more r" using rk by (auto simp: range_keys_def Let_def)
    have inv: "az_inv targets (Suc j) m1 acc1" using az_inv_step [OF less.prems azs pass] .
    obtain az where az: "az_get m az \<noteq> []"
      using az_inv_done [OF less.prems] False by (metis size_mset)
    have "distinct azs" "set azs = fst ` set m"
      using less.prems mset_eq_imp_distinct_iff [OF azs] mset_eq_setD [OF azs]
      by (auto simp: az_inv_def map_ok_def)
    then have "az \<in> set (filter (\<lambda>az. az_get m az \<noteq> []) azs)" using az az_get_key [of m az] by simp
    then have "length acc < length acc1"
      using az_pass [OF \<open>distinct azs\<close> pass] by (auto simp del: set_filter intro: length_pos_if_in_set)
    moreover have "length acc1 \<le> length targets"
      using az_inv_sub [OF inv] by (metis size_mset size_mset_mono)
    ultimately have "length targets - length acc1 < length targets - length acc" by linarith
    from less.hyps [OF this inv, of r1]
    obtain order r' j' m' where IH: "az_rounds e (length targets) m1 acc1 r1 = Some (order, r')"
        "az_inv targets j' m' order" "mset order = mset targets" "world.more r' = world.more r1"
      by blast
    have "az_rounds e (length targets) m acc r = Some (order, r')"
      using False IH(1) by (subst az_rounds.simps) (simp add: rk pass)
    with IH more show ?thesis by auto
  qed
qed

lemma az_inv_start: "az_inv targets 0 (targetsByAZMap targets) []"
  by (simp add: az_inv_def targetsByAZMap_get targetsByAZMap_ok az_balanced_def)

lemma az_rounds_start:
  "\<exists>order r'. az_rounds e (length targets) (targetsByAZMap targets) [] r = Some (order, r') \<and>
     mset order = mset targets \<and> az_balanced targets order \<and> world.more r' = world.more r"
  using az_rounds_ends [OF az_inv_start] by (metis az_inv_def)

section \<open>Candidates\<close>

lemma drift_frame:
  assumes "world.more s' = world.more s"
  shows "IsInstanceDrifted s' = IsInstanceDrifted s" "drifted s' = drifted s"
  by (simp_all only: IsInstanceDrifted_def [abs_def] drifted_def [abs_def] force_refresh_def
      ctx_fields_of_more(1,2) [OF assms])

abbreviation inst_id :: "Instance \<Rightarrow> string" where
  "inst_id i \<equiv> StringValue (inst_InstanceId i)"

text \<open>The in-progress instances that go on, and those whose tag is removed.\<close>

definition resumable :: "ctx \<Rightarrow> Group \<Rightarrow> string \<Rightarrow> bool" where
  "resumable r g i \<longleftrightarrow> SelectScalingGroupInstance i g \<noteq> empty_Instance \<and>
     \<not> terminating (SelectScalingGroupInstance i g) \<and> SelectNodeByInstanceID i (ctx_nodes r) \<noteq> None"

definition orphaned_tag :: "ctx \<Rightarrow> Group \<Rightarrow> string \<Rightarrow> bool" where
  "orphaned_tag r g i \<longleftrightarrow> SelectScalingGroupInstance i g = empty_Instance \<or>
     (\<not> terminating (SelectScalingGroupInstance i g) \<and> SelectNodeByInstanceID i (ctx_nodes r) = None)"

lemma split_in_progress_eq:
  "split_in_progress r g is =
     (map (\<lambda>i. SelectScalingGroupInstance i g) (filter (resumable r g) is), filter (orphaned_tag r g) is)"
  by (induction "is")
     (auto simp: resumable_def orphaned_tag_def terminating_def Let_def split: option.splits)

definition candidate :: "ctx \<Rightarrow> Group \<Rightarrow> string list \<Rightarrow> Instance \<Rightarrow> bool" where
  "candidate r g excluded t \<longleftrightarrow> t \<in> set (group_Instances g) \<and> IsInstanceDrifted r t = Some True \<and>
     \<not> terminating t \<and> \<not> ContainsEqualFold excluded (inst_id t)"

definition distinct_ids :: "Instance list \<Rightarrow> bool" where
  "distinct_ids ts \<longleftrightarrow> distinct (map (\<lambda>t. map fold_char (inst_id t)) ts)"

lemma distinct_ids_snoc:
  "distinct_ids ts \<Longrightarrow> \<not> ContainsEqualFold (GetInstanceIDs ts) (inst_id t) \<Longrightarrow> distinct_ids (ts @ [t])"
  by (auto simp: distinct_ids_def ContainsEqualFold_iff set_GetInstanceIDs EqualFold_def)

lemma select_unprocessed_ok:
  assumes "select_unprocessed r g ex is acc = Some ts"
    and "\<forall>t \<in> set acc. candidate r g ex t" and "distinct_ids acc"
  shows "(\<forall>t \<in> set ts. candidate r g ex t) \<and> distinct_ids ts \<and> set acc \<subseteq> set ts"
  using assms
proof (induction "is" arbitrary: acc)
  case (Cons i "is")
  let ?sel = "SelectScalingGroupInstance i g"
  show ?case
  proof (cases "?sel = empty_Instance")
    case True
    with Cons show ?thesis by simp
  next
    case False
    then obtain d where d: "IsInstanceDrifted r ?sel = Some d"
      using Cons.prems(1) by (cases "IsInstanceDrifted r ?sel") (auto simp: Let_def)
    define acc' where "acc' = (if d \<and> \<not> terminating ?sel \<and>
        \<not> ContainsEqualFold (GetInstanceIDs acc) (inst_id ?sel) \<and> \<not> ContainsEqualFold ex (inst_id ?sel)
      then acc @ [?sel] else acc)"
    have "select_unprocessed r g ex is acc' = Some ts"
      using Cons.prems(1) False d by (simp add: Let_def acc'_def terminating_def)
    moreover have "\<forall>t \<in> set acc'. candidate r g ex t"
      using Cons.prems(2) d SelectScalingGroupInstance_mem [OF False] by (auto simp: acc'_def candidate_def)
    moreover have "distinct_ids acc'"
      using Cons.prems(3) distinct_ids_snoc by (simp add: acc'_def)
    ultimately have "(\<forall>t \<in> set ts. candidate r g ex t) \<and> distinct_ids ts \<and> set acc' \<subseteq> set ts"
      by (rule Cons.IH)
    then show ?thesis by (auto simp: acc'_def split: if_splits)
  qed
qed simp

lemma select_unprocessed_total:
  assumes "group_complete (ctx_group r)"
  shows "\<exists>ts. select_unprocessed r g ex is acc = Some ts"
  by (induction "is" arbitrary: acc) (simp_all add: IsInstanceDrifted_eq [OF assms] Let_def)

lemma select_unprocessed_complete:
  assumes "select_unprocessed r g ex is acc = Some ts" and "i \<in> set is"
    and "candidate r g ex (SelectScalingGroupInstance i g)" and "SelectScalingGroupInstance i g \<noteq> empty_Instance"
    and "\<forall>t \<in> set acc. candidate r g ex t" and "distinct_ids acc"
  shows "\<exists>t \<in> set ts. EqualFold (inst_id t) (inst_id (SelectScalingGroupInstance i g))"
  using assms
proof (induction "is" arbitrary: acc)
  case (Cons i0 "is")
  let ?sel = "SelectScalingGroupInstance i0 g"
  show ?case
  proof (cases "?sel = empty_Instance")
    case True
    with Cons show ?thesis by auto
  next
    case False
    then obtain d where d: "IsInstanceDrifted r ?sel = Some d"
      using Cons.prems(1) by (cases "IsInstanceDrifted r ?sel") (auto simp: Let_def)
    define acc' where "acc' = (if d \<and> \<not> terminating ?sel \<and>
        \<not> ContainsEqualFold (GetInstanceIDs acc) (inst_id ?sel) \<and> \<not> ContainsEqualFold ex (inst_id ?sel)
      then acc @ [?sel] else acc)"
    have run: "select_unprocessed r g ex is acc' = Some ts"
      using Cons.prems(1) False d by (simp add: Let_def acc'_def terminating_def)
    have ok: "\<forall>t \<in> set acc'. candidate r g ex t" "distinct_ids acc'"
      using Cons.prems(5,6) d SelectScalingGroupInstance_mem [OF False] distinct_ids_snoc
      by (auto simp: acc'_def candidate_def)
    show ?thesis
    proof (cases "i = i0")
      case True
      then have "\<exists>t \<in> set acc'. EqualFold (inst_id t) (inst_id ?sel)"
        using Cons.prems(3) d by (auto simp: acc'_def candidate_def ContainsEqualFold_iff set_GetInstanceIDs)
      then show ?thesis
        using select_unprocessed_ok [OF run ok] True by blast
    next
      case False
      then show ?thesis using Cons.IH [OF run _ Cons.prems(3,4) ok] Cons.prems(2) by simp
    qed
  qed
qed simp

section \<open>The batch\<close>

lemma Describe_untagged_more [simp]:
  "DescribeInstancesWithoutTagValue e k v w = Some (x, w') \<Longrightarrow> world.more w' = world.more w"
  by (auto simp: DescribeInstancesWithoutTagValue_def Let_def split: prod.splits bind_splits)

lemma az_balanced_perm: "mset us = mset ts \<Longrightarrow> az_balanced us order \<Longrightarrow> az_balanced ts order"
proof -
  assume eq: "mset us = mset ts" and bal: "az_balanced us order"
  have "length (in_az b us) = length (in_az b ts)" for b
    using arg_cong [OF eq, of "\<lambda>M. size (filter_mset (\<lambda>t. az_of t = b) M)"]
    by (metis mset_filter size_mset)
  then show ?thesis using bal by (simp add: az_balanced_def)
qed

lemma distinct_ids_perm: "mset us = mset ts \<Longrightarrow> distinct_ids us \<Longrightarrow> distinct_ids ts"
  unfolding distinct_ids_def using mset_eq_imp_distinct_iff by (metis mset_map)

lemma final_targets_ok:
  assumes "final_targets e inp unp r = Some (fin, r')"
  shows "world.more r' = world.more r \<and>
    (fin = [] \<or> (\<exists>rest. fin = inp @ rest \<and> mset rest = mset unp \<and>
       (UpdateStrategyType (ctx_RollingUpgrade r) = UniformAcrossAzUpdateStrategy \<longrightarrow> az_balanced rest rest)))"
proof (cases "UpdateStrategyType (ctx_RollingUpgrade r) = UniformAcrossAzUpdateStrategy")
  case False
  then show ?thesis using assms by (auto simp: final_targets_def split: if_splits)
next
  case True
  obtain order r1 where "az_rounds e (length unp) (targetsByAZMap unp) [] r = Some (order, r1)"
      "mset order = mset unp" "az_balanced unp order" "world.more r1 = world.more r"
    using az_rounds_start by blast
  then show ?thesis
    using assms True az_balanced_perm [of unp order order] by (auto simp: final_targets_def)
qed

lemma final_targets_total: "\<exists>fin r'. final_targets e inp unp r = Some (fin, r')"
  using az_rounds_start [of e unp r] by (auto simp: final_targets_def)

definition in_progress_targets :: "ctx \<Rightarrow> Group \<Rightarrow> Instance list" where
  "in_progress_targets r g =
     map (\<lambda>i. SelectScalingGroupInstance i g) (filter (resumable r g) (cloud_InProgressInstances (ctx_Cloud r)))"

definition orphaned_tags :: "ctx \<Rightarrow> Group \<Rightarrow> string list" where
  "orphaned_tags r g = filter (orphaned_tag r g) (cloud_InProgressInstances (ctx_Cloud r))"

text \<open>The context after the orphaned tags were removed.\<close>

definition untag_orphans :: "env \<Rightarrow> Group \<Rightarrow> ctx \<Rightarrow> ctx" where
  "untag_orphans e g r =
     (if orphaned_tags r g \<noteq> []
      then snd (UntagEC2instances e (orphaned_tags r g) instanceStateTagKey inProgressTagValue r) else r)"

lemma untag_orphans_more [simp]: "world.more (untag_orphans e g r) = world.more r"
  by (simp add: untag_orphans_def)

lemma clip_min: "(if n > m then m else n) = min n (m :: int)"
  by (simp add: min_def)

lemma SelectTargets_eq:
  "SelectTargets e g ex r =
     do { ((instances, err), r2) \<leftarrow>
            DescribeInstancesWithoutTagValue e instanceStateTagKey inProgressTagValue (untag_orphans e g r);
          if err \<noteq> None then Some ([], r2)
          else do {
            unp \<leftarrow> select_unprocessed r2 g ex instances [];
            (fin, r3) \<leftarrow> final_targets e (in_progress_targets r g) unp r2;
            let n = min (CalculateMaxUnavailable e (MaxUnavailable (ctx_RollingUpgrade r))
                           (Int64Value (group_DesiredCapacity g))) (int (length fin)) in
            if n < 0 then None else Some (take (nat n) fin, r3) } }"
  unfolding SelectTargets_def split_in_progress_eq Let_def in_progress_targets_def [symmetric]
    orphaned_tags_def [symmetric] untag_orphans_def [symmetric] prod.case clip_min ..

lemma in_progress_target:
  "t \<in> set (in_progress_targets r g) \<Longrightarrow> t \<in> set (group_Instances g) \<and> \<not> terminating t"
  using SelectScalingGroupInstance_mem by (auto simp: in_progress_targets_def resumable_def)

lemma SelectTargets_result:
  assumes "SelectTargets e g ex r = Some (ts, r')"
  shows "world.more r' = world.more r \<and> (\<exists>rest.
    (ts = [] \<or> ts = take (length ts) (in_progress_targets r g @ rest)) \<and>
    (\<forall>t \<in> set rest. candidate r g ex t) \<and> distinct_ids rest \<and>
    (UpdateStrategyType (ctx_RollingUpgrade r) = UniformAcrossAzUpdateStrategy \<longrightarrow> az_balanced rest rest)) \<and>
    int (length ts) \<le> max 0 (CalculateMaxUnavailable e (MaxUnavailable (ctx_RollingUpgrade r))
                                (Int64Value (group_DesiredCapacity g)))"
proof -
  obtain ids err r2 where d: "DescribeInstancesWithoutTagValue e instanceStateTagKey inProgressTagValue
      (untag_orphans e g r) = Some ((ids, err), r2)"
    using assms unfolding SelectTargets_eq by (auto simp: Option.bind_eq_Some_conv)
  have r2: "world.more r2 = world.more r" using Describe_untagged_more [OF d] by simp
  note ru = ctx_fields_of_more(2) [OF r2]
  show ?thesis
  proof (cases err)
    case (Some er)
    then have "ts = [] \<and> r' = r2" using assms by (simp add: SelectTargets_eq d)
    with r2 show ?thesis
      by (auto intro!: exI [of _ "[]"] simp: distinct_ids_def az_balanced_def)
  next
    case None
    then obtain unp fin where unp: "select_unprocessed r2 g ex ids [] = Some unp"
      and fin: "final_targets e (in_progress_targets r g) unp r2 = Some (fin, r')"
      and ts: "\<exists>n. ts = take (nat n) fin \<and>
        n = min (CalculateMaxUnavailable e (MaxUnavailable (ctx_RollingUpgrade r))
                  (Int64Value (group_DesiredCapacity g))) (int (length fin))"
      using assms by (auto simp: SelectTargets_eq d Let_def Option.bind_eq_Some_conv split: if_splits)
    have c: "candidate r2 g ex = candidate r g ex"
      by (simp add: candidate_def fun_eq_iff drift_frame [OF r2])
    have ok: "\<forall>t \<in> set unp. candidate r g ex t" "distinct_ids unp"
      using select_unprocessed_ok [OF unp] by (auto simp: c distinct_ids_def)
    have len: "ts = take (length ts) fin" "int (length ts) \<le> max 0
        (CalculateMaxUnavailable e (MaxUnavailable (ctx_RollingUpgrade r)) (Int64Value (group_DesiredCapacity g)))"
      using ts by auto
    show ?thesis
      using final_targets_ok [OF fin] len r2
    proof (elim conjE disjE exE)
      assume "fin = []"
      with final_targets_ok [OF fin] len r2 show ?thesis
        by (auto intro!: exI [of _ "[]"] simp: distinct_ids_def az_balanced_def)
    next
      fix rest assume rest: "fin = in_progress_targets r g @ rest" "mset rest = mset unp"
        "UpdateStrategyType (ctx_RollingUpgrade r2) = UniformAcrossAzUpdateStrategy \<longrightarrow> az_balanced rest rest"
      then show ?thesis
        using final_targets_ok [OF fin] len r2 ok mset_eq_setD [OF rest(2)] distinct_ids_perm [of unp rest]
        by (intro conjI exI [of _ rest]) (auto simp: ru)
    qed
  qed
qed

lemma SelectTargets_random_nonempty:
  assumes "group_complete (ctx_group r)"
    and "DescribeInstancesWithoutTagValue e instanceStateTagKey inProgressTagValue (untag_orphans e g r) = Some ((ids, None), r2)"
    and "UpdateStrategyType (ctx_RollingUpgrade r) \<in> {RandomUpdateStrategy, UniformAcrossAzUpdateStrategy}"
    and "1 \<le> CalculateMaxUnavailable e (MaxUnavailable (ctx_RollingUpgrade r)) (Int64Value (group_DesiredCapacity g))"
    and "i \<in> set ids" and "SelectScalingGroupInstance i g \<noteq> empty_Instance"
    and "candidate r g ex (SelectScalingGroupInstance i g)"
  shows "\<exists>ts r'. SelectTargets e g ex r = Some (ts, r') \<and> ts \<noteq> []"
proof -
  have r2: "world.more r2 = world.more r" using Describe_untagged_more [OF assms(2)] by simp
  have gc: "group_complete (ctx_group r2)" using assms(1) ctx_fields_of_more(1,2) [OF r2] by simp
  have c: "candidate r2 g ex = candidate r g ex"
    by (simp add: candidate_def fun_eq_iff drift_frame [OF r2])
  obtain unp where unp: "select_unprocessed r2 g ex ids [] = Some unp"
    using select_unprocessed_total [OF gc] by blast
  have "unp \<noteq> []"
    using select_unprocessed_complete [OF unp assms(5)] assms(6,7) by (auto simp: c distinct_ids_def)
  moreover obtain fin r3 where fin: "final_targets e (in_progress_targets r g) unp r2 = Some (fin, r3)"
    using final_targets_total by blast
  moreover have "\<exists>rest. fin = in_progress_targets r g @ rest \<and> mset rest = mset unp"
    using fin assms(3) ctx_fields_of_more(2) [OF r2] az_rounds_start [of e unp r2]
    by (auto simp: final_targets_def)
  ultimately have "fin \<noteq> []" by (metis append_is_Nil_conv mset_zero_iff)
  then show ?thesis
    using assms(4) by (cases fin) (auto simp: SelectTargets_eq assms(2) unp fin Let_def min_def)
qed

lemma sample_percent: "percent_nonneg sample_env"
  by (auto simp: percent_nonneg_def sample_env_def size_ok_def size_acceptable_def
      pos_imp_zdiv_nonneg_iff split: IntOrStringType.splits)

lemma SelectTargets_returns:
  assumes "group_complete (ctx_group r)"
    and "DescribeInstancesWithoutTagValue e instanceStateTagKey inProgressTagValue (untag_orphans e g r) = Some ((ids, err), r2)"
    and "0 \<le> CalculateMaxUnavailable e (MaxUnavailable (ctx_RollingUpgrade r)) (Int64Value (group_DesiredCapacity g))"
  shows "\<exists>ts r'. SelectTargets e g ex r = Some (ts, r')"
proof -
  have r2: "world.more r2 = world.more r" using Describe_untagged_more [OF assms(2)] by simp
  have gc: "group_complete (ctx_group r2)" using assms(1) ctx_fields_of_more(1,2) [OF r2] by simp
  obtain unp where unp: "select_unprocessed r2 g ex ids [] = Some unp"
    using select_unprocessed_total [OF gc] by blast
  obtain fin r3 where "final_targets e (in_progress_targets r g) unp r2 = Some (fin, r3)"
    using final_targets_total by blast
  then show ?thesis
    using assms(3) unp by (auto simp: SelectTargets_eq assms(2) Let_def min_def)
qed

lemma Describe_untagged_emits:
  "DescribeInstancesWithoutTagValue e k v w = Some (x, w') \<Longrightarrow> (\<And>fs. P (EvDescribeInstances fs)) \<Longrightarrow> emits P w w'"
  by (auto simp: DescribeInstancesWithoutTagValue_def Let_def emits_def split: prod.splits bind_splits)

lemma az_rounds_emits:
  assumes "az_rounds e n m acc r = Some res" and "P EvRange"
  shows "emits P r (snd res)"
proof (rule az_rounds.raw_induct [where P = "\<lambda>e n m acc r res. emits P r (snd res)", OF _ assms(1)])
  fix rounds :: "env \<Rightarrow> nat \<Rightarrow> az_map \<Rightarrow> Instance list \<Rightarrow> ctx \<Rightarrow> (Instance list \<times> ctx) option"
    and e n m acc r res
  assume IH: "\<And>e n m acc r res. rounds e n m acc r = Some res \<Longrightarrow> emits P r (snd res)"
    and body: "(if length acc = n then Some (acc, r)
      else let (azs, r') = range_keys e (map fst m) r; (m', acc') = fold az_pop azs (m, acc)
           in rounds e n m' acc' r') = Some res"
  obtain azs r1 where rk: "range_keys e (map fst m) r = (azs, r1)" by fastforce
  have step: "emits P r r1" using rk assms(2) by (auto simp: range_keys_def Let_def)
  show "emits P r (snd res)"
    using body rk emits_trans [OF step IH] by (cases "fold az_pop azs (m, acc)") (auto split: if_splits)
qed

lemma SelectTargets_emits:
  assumes "SelectTargets e g ex r = Some (ts, r')" and "P EvRange" and "\<And>fs. P (EvDescribeInstances fs)"
  shows "emits P (untag_orphans e g r) r'"
proof -
  obtain ids err r2 where d: "DescribeInstancesWithoutTagValue e instanceStateTagKey inProgressTagValue
      (untag_orphans e g r) = Some ((ids, err), r2)"
    using assms(1) by (auto simp: SelectTargets_eq Option.bind_eq_Some_conv)
  have em: "emits P (untag_orphans e g r) r2" using Describe_untagged_emits [OF d] assms(3) by blast
  show ?thesis
  proof (cases err)
    case None
    then obtain unp fin where fin: "final_targets e (in_progress_targets r g) unp r2 = Some (fin, r')"
      using assms(1) by (auto simp: SelectTargets_eq d Option.bind_eq_Some_conv Let_def split: if_splits)
    have "emits P r2 r'"
      using fin az_rounds_emits [where P = P] assms(2)
      by (auto simp: final_targets_def Option.bind_eq_Some_conv split: if_splits)
    then show ?thesis by (rule emits_trans [OF em])
  qed (use assms(1) d em in \<open>auto simp: SelectTargets_eq\<close>)
qed

lemma SelectTargets_extends: "SelectTargets e g ex r = Some (ts, r') \<Longrightarrow> extends (untag_orphans e g r) r'"
  using SelectTargets_emits [where P = "\<lambda>_. True"] emits_extends by blast

section \<open>Properties\<close>

text \<open>For a validated batch size and a group that is not of negative size, the batch has at least
  one node and at most as many as the group has; for an absolute size it is that size, cut down
  to the size of the group.\<close>

lemma CalculateMaxUnavailable_correct:
  assumes "percent_nonneg e" and "size_ok b" and "0 \<le> n"
  shows "1 \<le> CalculateMaxUnavailable e b n \<and> CalculateMaxUnavailable e b n \<le> max 1 n \<and>
    (ios_Type b = IntType \<longrightarrow> CalculateMaxUnavailable e b n = max 1 (min (ios_IntVal b) n))"
proof (intro conjI impI)
  show "1 \<le> CalculateMaxUnavailable e b n" "CalculateMaxUnavailable e b n \<le> max 1 n"
    using CalculateMaxUnavailable_bounds [OF assms] by simp_all
  assume "ios_Type b = IntType"
  then show "CalculateMaxUnavailable e b n = max 1 (min (ios_IntVal b) n)"
    using assms(2,3) by (auto simp: CalculateMaxUnavailable_def Let_def size_ok_def)
qed

text \<open>C26: the round-robin loop over the availability zones always ends, in whatever order Go ranges over
  the zones in each pass. Its result is a permutation of the targets in which, at every prefix,
  no zone is more than one target ahead of a zone that still has targets left.\<close>

theorem az_rounds_correct:
  "\<exists>order r'. az_rounds e (length targets) (targetsByAZMap targets) [] r = Some (order, r') \<and>
     mset order = mset targets \<and>
     (\<forall>k a b. length (filter (\<lambda>t. az_of t = a) (take k order)) \<le> length (filter (\<lambda>t. az_of t = b) (take k order)) + 1 \<or>
        length (filter (\<lambda>t. az_of t = b) (take k order)) = length (filter (\<lambda>t. az_of t = b) targets))"
  using az_rounds_start [of e targets r] unfolding az_balanced_def by blast

text \<open>C17: whenever \<open>SelectTargets\<close> returns a batch, every target is an instance of the scaling group that
  is not terminating; the batch is the beginning of the in-progress instances followed by
  drifted instances that are not excluded and are listed once each; with the uniform strategy the
  latter are balanced over the zones; and the batch is no larger than the batch size.\<close>

theorem SelectTargets_sound:
  assumes "SelectTargets e g ex r = Some (ts, r')"
  shows "(\<forall>t \<in> set ts. t \<in> set (group_Instances g) \<and> \<not> terminating t) \<and>
    (\<exists>rest. (ts = [] \<or> ts = take (length ts) (in_progress_targets r g @ rest)) \<and>
       (\<forall>t \<in> set rest. IsInstanceDrifted r t = Some True \<and> \<not> ContainsEqualFold ex (inst_id t)) \<and>
       distinct_ids rest \<and>
       (UpdateStrategyType (ctx_RollingUpgrade r) = UniformAcrossAzUpdateStrategy \<longrightarrow> az_balanced rest rest)) \<and>
    int (length ts) \<le> max 0 (CalculateMaxUnavailable e (MaxUnavailable (ctx_RollingUpgrade r))
                                (Int64Value (group_DesiredCapacity g)))"
proof -
  obtain rest where rest: "ts = [] \<or> ts = take (length ts) (in_progress_targets r g @ rest)"
      "\<forall>t \<in> set rest. candidate r g ex t" "distinct_ids rest"
      "UpdateStrategyType (ctx_RollingUpgrade r) = UniformAcrossAzUpdateStrategy \<longrightarrow> az_balanced rest rest"
    using SelectTargets_result [OF assms] by blast
  have "set ts \<subseteq> set (in_progress_targets r g) \<union> set rest"
    using rest(1) by (metis empty_set empty_subsetI set_append set_take_subset)
  then have "\<forall>t \<in> set ts. t \<in> set (group_Instances g) \<and> \<not> terminating t"
    using in_progress_target rest(2) by (auto simp: candidate_def)
  moreover have "\<forall>t \<in> set rest. IsInstanceDrifted r t = Some True \<and> \<not> ContainsEqualFold ex (inst_id t)"
    using rest(2) by (simp add: candidate_def)
  ultimately show ?thesis
    using rest SelectTargets_result [OF assms] by blast
qed

definition sample_cloud_env :: env where
  "sample_cloud_env = sample_env\<lparr>env_DescribeInstancesPages := \<lambda>h fs.
     ([([[\<lparr>ec2_InstanceId = Some ''i1'', ec2_Tags = []\<rparr>, \<lparr>ec2_InstanceId = Some ''i2'', ec2_Tags = []\<rparr>]], False)],
      None)\<rparr>"

lemmas sample_defs =
  sample_cloud_env_def sample_env_def sample_ctx_def sample_group_def sample_instance_def sample_node_def
  sample_RollingUpgrade_def complete_strategy_def

lemma sample_candidate:
  "group_complete (ctx_group sample_ctx)"
  "SelectScalingGroupInstance ''i1'' sample_group = sample_instance ''i1'' ''a'' ''old''"
  "candidate sample_ctx sample_group [] (sample_instance ''i1'' ''a'' ''old'')"
proof -
  show gc: "group_complete (ctx_group sample_ctx)"
    by (simp add: group_complete_def sample_defs ScalingGroupName_def)
  show "SelectScalingGroupInstance ''i1'' sample_group = sample_instance ''i1'' ''a'' ''old''"
    by (simp add: SelectScalingGroupInstance_def sample_group_def sample_instance_def)
  have "drifted sample_ctx (sample_instance ''i1'' ''a'' ''old'')"
    by (simp add: drifted_def terminating_def desired_source_def sample_defs ScalingGroupName_def
        IsForceRefresh_def TerminatingInstanceStates_def EqualFold_def fold_char_def)
  then show "candidate sample_ctx sample_group [] (sample_instance ''i1'' ''a'' ''old'')"
    unfolding candidate_def IsInstanceDrifted_eq [OF gc] by (simp add: drifted_def sample_group_def)
qed

lemma sample_describe:
  "\<exists>r2. DescribeInstancesWithoutTagValue sample_cloud_env instanceStateTagKey inProgressTagValue
     (untag_orphans sample_cloud_env sample_group sample_ctx) = Some (([''i1'', ''i2''], None), r2)"
  by (simp add: DescribeInstancesWithoutTagValue_def sample_cloud_env_def Let_def)

lemma sample_batch_size:
  "1 \<le> CalculateMaxUnavailable sample_cloud_env (MaxUnavailable (ctx_RollingUpgrade sample_ctx))
        (Int64Value (group_DesiredCapacity sample_group))"
  by (simp add: CalculateMaxUnavailable_def MaxUnavailable_def sample_defs Let_def)

text \<open>C18: selection makes progress: if some instance without the in-progress tag drifts, is not
  terminating and not excluded, the strategy type is literally one of the two constants and EC2 describes
  the instances without an error, then \<open>SelectTargets\<close> returns and its batch is not empty.\<close>

theorem SelectTargets_progress:
  assumes "group_complete (ctx_group r)" and "percent_nonneg e" and "size_ok (MaxUnavailable (ctx_RollingUpgrade r))"
    and "0 \<le> Int64Value (group_DesiredCapacity g)"
    and "UpdateStrategyType (ctx_RollingUpgrade r) \<in> {RandomUpdateStrategy, UniformAcrossAzUpdateStrategy}"
    and "DescribeInstancesWithoutTagValue e instanceStateTagKey inProgressTagValue (untag_orphans e g r) = Some ((ids, None), r2)"
    and "i \<in> set ids" and "SelectScalingGroupInstance i g = t" and "t \<noteq> empty_Instance"
    and "drifted r t" and "\<not> ContainsEqualFold ex (inst_id t)"
  shows "\<exists>ts r'. SelectTargets e g ex r = Some (ts, r') \<and> ts \<noteq> []"
proof (rule SelectTargets_random_nonempty [OF assms(1,6,5) _ assms(7)])
  show "1 \<le> CalculateMaxUnavailable e (MaxUnavailable (ctx_RollingUpgrade r)) (Int64Value (group_DesiredCapacity g))"
    using CalculateMaxUnavailable_bounds [OF assms(2,3,4)] by simp
  show "SelectScalingGroupInstance i g \<noteq> empty_Instance" using assms(8,9) by simp
  then show "candidate r g ex (SelectScalingGroupInstance i g)"
    using SelectScalingGroupInstance_mem [of i g] assms(8,10,11)
    by (simp add: candidate_def IsInstanceDrifted_eq [OF assms(1)] drifted_def)
qed

theorem SelectTargets_progress_witness:
  "\<exists>ts r'. SelectTargets sample_cloud_env sample_group [] sample_ctx = Some (ts, r') \<and> ts \<noteq> []"
proof -
  obtain r2 where d: "DescribeInstancesWithoutTagValue sample_cloud_env instanceStateTagKey inProgressTagValue
     (untag_orphans sample_cloud_env sample_group sample_ctx) = Some (([''i1'', ''i2''], None), r2)"
    using sample_describe by blast
  have "percent_nonneg sample_cloud_env"
    using sample_percent by (simp add: percent_nonneg_def sample_cloud_env_def)
  moreover have "size_ok (MaxUnavailable (ctx_RollingUpgrade sample_ctx))"
    by (simp add: MaxUnavailable_def sample_defs size_ok_def size_acceptable_def)
  moreover have "drifted sample_ctx (sample_instance ''i1'' ''a'' ''old'')"
    using sample_candidate(3) IsInstanceDrifted_eq [OF sample_candidate(1)] by (simp add: candidate_def)
  ultimately show ?thesis
    using SelectTargets_progress [OF sample_candidate(1) _ _ _ _ d _ sample_candidate(2)]
    by (simp add: sample_defs UpdateStrategyType_def empty_Instance_def)
qed

theorem SelectTargets_sound_witness:
  "\<exists>ts r'. SelectTargets sample_cloud_env sample_group [] sample_ctx = Some (ts, r') \<and>
     ts \<noteq> [] \<and> (\<forall>t \<in> set ts. t \<in> set (group_Instances sample_group) \<and> \<not> terminating t)"
proof -
  obtain r2 where d: "DescribeInstancesWithoutTagValue sample_cloud_env instanceStateTagKey inProgressTagValue
     (untag_orphans sample_cloud_env sample_group sample_ctx) = Some (([''i1'', ''i2''], None), r2)"
    using sample_describe by blast
  have "UpdateStrategyType (ctx_RollingUpgrade sample_ctx) = RandomUpdateStrategy"
    by (simp add: UpdateStrategyType_def sample_defs)
  then obtain ts r' where "SelectTargets sample_cloud_env sample_group [] sample_ctx = Some (ts, r')" "ts \<noteq> []"
    using SelectTargets_random_nonempty [OF sample_candidate(1) d _ sample_batch_size, of "''i1''" "[]"]
      sample_candidate(2,3) by (auto simp: sample_instance_def empty_Instance_def)
  then show ?thesis using SelectTargets_sound by blast
qed

text \<open>C37: selection compares the strategy type exactly, while validation compares it up to case: for a
  resource whose type is not literally one of the two constants \<open>SelectTargets\<close> selects nothing,
  whatever the cloud answers.\<close>

theorem SelectTargets_type_is_case_sensitive:
  assumes "UpdateStrategyType (ctx_RollingUpgrade r) \<notin> {RandomUpdateStrategy, UniformAcrossAzUpdateStrategy}"
    and "SelectTargets e g ex r = Some (ts, r')"
  shows "ts = []"
proof -
  have "fin = []" if "final_targets e inp unp s = Some (fin, s')" "world.more s = world.more r" for inp unp s fin s'
    using that assms(1) ctx_fields_of_more(2) [of s r] by (simp add: final_targets_def)
  then show ?thesis
    using assms(2) Describe_untagged_more untag_orphans_more [of e g r]
    by (fastforce simp: SelectTargets_eq Option.bind_eq_Some_conv Let_def split: if_splits)
qed

theorem SelectTargets_type_is_case_sensitive_witness:
  "\<exists>r0 r1 r'. Validate r0 = ((True, None), r1) \<and>
     SelectTargets sample_cloud_env sample_group [] (sample_ctx\<lparr>ctx_RollingUpgrade := r1\<rparr>) = Some ([], r')"
proof -
  let ?r0 = "upd_strategy (\<lambda>s. s\<lparr>strategy_Type := ''RandomUpdate''\<rparr>) sample_RollingUpgrade"
  let ?r1 = "upd_strategy complete_strategy ?r0"
  let ?s = "sample_ctx\<lparr>ctx_RollingUpgrade := ?r1\<rparr>"
  have "ContainsEqualFold AllowedStrategyType ''RandomUpdate''" by code_simp
  then have v: "Validate ?r0 = ((True, None), ?r1)"
    by (intro Validate_accepts) (simp add: sample_RollingUpgrade_def strategy_acceptable_def size_acceptable_def)
  have ty: "UpdateStrategyType (ctx_RollingUpgrade ?s) \<notin> {RandomUpdateStrategy, UniformAcrossAzUpdateStrategy}"
    by (simp add: UpdateStrategyType_def complete_strategy_def sample_RollingUpgrade_def)
  obtain r2 where "DescribeInstancesWithoutTagValue sample_cloud_env instanceStateTagKey inProgressTagValue
     (untag_orphans sample_cloud_env sample_group ?s) = Some (([''i1'', ''i2''], None), r2)"
    by (simp add: DescribeInstancesWithoutTagValue_def sample_cloud_env_def Let_def)
  moreover have "group_complete (ctx_group ?s)"
    by (simp add: group_complete_def sample_defs ScalingGroupName_def)
  moreover have "0 \<le> CalculateMaxUnavailable sample_cloud_env (MaxUnavailable (ctx_RollingUpgrade ?s))
      (Int64Value (group_DesiredCapacity sample_group))"
    by (simp add: CalculateMaxUnavailable_def MaxUnavailable_def sample_defs Let_def)
  ultimately obtain ts r' where "SelectTargets sample_cloud_env sample_group [] ?s = Some (ts, r')"
    using SelectTargets_returns by blast
  with SelectTargets_type_is_case_sensitive [OF ty this] v show ?thesis by blast
qed

text \<open>C38: an in-progress instance that belongs to another scaling group loses its in-progress tag: its id
  is in the request to delete tags that \<open>SelectTargets\<close> makes, before it reads anything else.\<close>

theorem SelectTargets_untags_other_groups:
  assumes "i \<in> set (cloud_InProgressInstances (ctx_Cloud r))"
    and "\<forall>x \<in> set (group_Instances g). \<not> EqualFold (inst_id x) i"
    and "SelectTargets e g ex r = Some (ts, r')"
  shows "\<exists>ids err rest. i \<in> set ids \<and>
    hist r' = hist r @ EvDeleteTags ids instanceStateTagKey inProgressTagValue err # rest"
proof -
  have "SelectScalingGroupInstance i g = empty_Instance"
    using inst.select_missing [OF assms(2)] by (simp add: SelectScalingGroupInstance_def)
  then have i: "i \<in> set (orphaned_tags r g)" using assms(1) by (simp add: orphaned_tags_def orphaned_tag_def)
  have "extends (untag_orphans e g r) r'"
    using assms(3) by (rule SelectTargets_extends)
  moreover have "hist (untag_orphans e g r) = hist r @ [EvDeleteTags (orphaned_tags r g) instanceStateTagKey
      inProgressTagValue (fst (UntagEC2instances e (orphaned_tags r g) instanceStateTagKey inProgressTagValue r))]"
    using i by (auto simp: untag_orphans_def)
  ultimately show ?thesis using i by (auto simp: extends_def)
qed

theorem SelectTargets_untags_other_groups_witness:
  "\<exists>ids err rest r' ts.
     SelectTargets sample_cloud_env sample_group []
       (upd_cloud (\<lambda>c. c\<lparr>cloud_InProgressInstances := [''i9'']\<rparr>) sample_ctx) = Some (ts, r') \<and>
     ''i9'' \<in> set ids \<and> hist r' = EvDeleteTags ids instanceStateTagKey inProgressTagValue err # rest"
proof -
  let ?s = "upd_cloud (\<lambda>c. c\<lparr>cloud_InProgressInstances := [''i9'']\<rparr>) sample_ctx"
  obtain r2 where d: "DescribeInstancesWithoutTagValue sample_cloud_env instanceStateTagKey inProgressTagValue
     (untag_orphans sample_cloud_env sample_group ?s) = Some (([''i1'', ''i2''], None), r2)"
    by (simp add: DescribeInstancesWithoutTagValue_def sample_cloud_env_def Let_def)
  have "group_complete (ctx_group ?s)"
    by (simp add: group_complete_def sample_defs ScalingGroupName_def)
  moreover have "0 \<le> CalculateMaxUnavailable sample_cloud_env (MaxUnavailable (ctx_RollingUpgrade ?s))
      (Int64Value (group_DesiredCapacity sample_group))"
    by (simp add: CalculateMaxUnavailable_def MaxUnavailable_def sample_defs Let_def)
  ultimately obtain ts r' where s: "SelectTargets sample_cloud_env sample_group [] ?s = Some (ts, r')"
    using SelectTargets_returns d by blast
  have "\<forall>x \<in> set (group_Instances sample_group). \<not> EqualFold (inst_id x) ''i9''"
    by (simp add: sample_group_def sample_instance_def EqualFold_def fold_char_def)
  moreover have "''i9'' \<in> set (cloud_InProgressInstances (ctx_Cloud ?s))" by simp
  moreover have "hist ?s = []" by (simp add: sample_ctx_def)
  ultimately show ?thesis
    using SelectTargets_untags_other_groups [OF _ _ s, of "''i9''"] s by (metis append_Nil)
qed

end
