(* ===== verification/Capacity.thy ===== *)
theory Capacity
  imports Target_Selection
begin

text \<open>
  Replacement capacity and stand-by, from \<^verbatim>\<open>controllers/upgrade.go\<close>: \<open>ClusterBallooning\<close>, the counter
  of replacement nodes shared by all upgrades of the cluster, its decrement after a termination,
  and \<open>SetBatchStandBy\<close>. Shown: one call grants no more than was asked, never pushes the counter
  past the maximum, and grants exactly what it adds; stand-by requests are at most 19 instances
  each, cover the batch in order and stop at the first failure. The counter is read and written
  in separate steps: two upgrades that interleave them grant more than the maximum.
\<close>

section \<open>Definitions\<close>

abbreviation replacementKey :: string where
  "replacementKey \<equiv> ''ReplacementNodes''"

text \<open>
  The shared counter is loaded in one atomic step and stored in another; what happens in between
  is the second function, which gets the count that was loaded.
\<close>

definition ClusterBallooning_load :: "ctx \<Rightarrow> int \<times> ctx" where
  "ClusterBallooning_load r =
     (let (n, _, m) = sm_LoadOrStore replacementKey 0 (ctx_ReplacementNodesMap r)
      in (n, r\<lparr>ctx_ReplacementNodesMap := m\<rparr>))"

definition ClusterBallooning_decide :: "int \<Rightarrow> int \<Rightarrow> ctx \<Rightarrow> (bool \<times> int) \<times> ctx" where
  "ClusterBallooning_decide n batchSize r =
     (let newReplacementCount = wrap64 (n + batchSize);
          partialReplacementCount = wrap64 (ctx_MaxReplacementNodes r - n)
      in if ctx_MaxReplacementNodes r = 0 then ((False, batchSize), r)
         else if newReplacementCount \<le> ctx_MaxReplacementNodes r then
           ((False, batchSize),
            r\<lparr>ctx_ReplacementNodesMap := sm_Store replacementKey newReplacementCount (ctx_ReplacementNodesMap r),
              ctx_AllowReplacements := True\<rparr>)
         else if partialReplacementCount < batchSize \<and> partialReplacementCount > 0 then
           ((False, partialReplacementCount),
            r\<lparr>ctx_ReplacementNodesMap :=
                 sm_Store replacementKey (wrap64 (n + partialReplacementCount)) (ctx_ReplacementNodesMap r),
              ctx_AllowReplacements := True\<rparr>)
         else if \<not> ctx_AllowReplacements r then ((True, 0), r)
         else ((False, batchSize), r))"

definition ClusterBallooning :: "int \<Rightarrow> ctx \<Rightarrow> (bool \<times> int) \<times> ctx" where
  "ClusterBallooning batchSize r =
     (let (n, r1) = ClusterBallooning_load r in ClusterBallooning_decide n batchSize r1)"

text \<open>After a successful termination.\<close>

definition decrement_replacements :: "ctx \<Rightarrow> ctx" where
  "decrement_replacements r =
     (case sm_Load (ctx_ReplacementNodesMap r) replacementKey of
        Some n \<Rightarrow>
          if n > 0 then
            r\<lparr>ctx_ReplacementNodesMap := sm_Store replacementKey (n - 1) (ctx_ReplacementNodesMap r),
              ctx_AllowReplacements := False\<rparr>
          else r
      | None \<Rightarrow> r)"

fun standby_chunks :: "env \<Rightarrow> string list list \<Rightarrow> ctx \<Rightarrow> error option \<times> ctx" where
  "standby_chunks e [] r = (None, r)"
| "standby_chunks e (batch # batches) r =
     (let (err, r1) = SetInstancesStandBy e batch (spec_AsgName (ru_Spec (ctx_RollingUpgrade r))) r
      in if err \<noteq> None then (err, r1) else standby_chunks e batches r1)"

definition SetBatchStandBy :: "env \<Rightarrow> string list \<Rightarrow> ctx \<Rightarrow> (error option \<times> ctx) option" where
  "SetBatchStandBy e instanceIDs r =
     do { instanceBatch \<leftarrow> GetChunks instanceIDs InstanceStandByLimit;
          Some (standby_chunks e instanceBatch r) }"

section \<open>The counter\<close>

definition replacement_count :: "ctx \<Rightarrow> int" where
  "replacement_count r = (case sm_Load (ctx_ReplacementNodesMap r) replacementKey of None \<Rightarrow> 0 | Some n \<Rightarrow> n)"

text \<open>Sizes for which no sum overflows.\<close>

definition capacity_ok :: "int \<Rightarrow> ctx \<Rightarrow> bool" where
  "capacity_ok batchSize r \<longleftrightarrow> 0 \<le> replacement_count r \<and> 0 \<le> batchSize \<and> 0 \<le> ctx_MaxReplacementNodes r \<and>
     replacement_count r + batchSize \<le> max_int64 \<and> ctx_MaxReplacementNodes r \<le> max_int64"

lemma replacement_count_set [simp]:
  "replacement_count (r\<lparr>ctx_ReplacementNodesMap := m\<rparr>) = (case sm_Load m replacementKey of None \<Rightarrow> 0 | Some n \<Rightarrow> n)"
  "replacement_count (r\<lparr>ctx_AllowReplacements := b\<rparr>) = replacement_count r"
  by (simp_all add: replacement_count_def)

lemma ClusterBallooning_load_count:
  "fst (ClusterBallooning_load r) = replacement_count r"
  "replacement_count (snd (ClusterBallooning_load r)) = replacement_count r"
  "ctx_MaxReplacementNodes (snd (ClusterBallooning_load r)) = ctx_MaxReplacementNodes r"
  "ctx_AllowReplacements (snd (ClusterBallooning_load r)) = ctx_AllowReplacements r"
  by (auto simp: ClusterBallooning_load_def replacement_count_def sm_LoadOrStore_def sm.load_store
      split: option.splits)

lemma ClusterBallooning_decide_cases:
  assumes "0 \<le> n" and "0 \<le> batchSize" and "0 \<le> mx" and "n + batchSize \<le> max_int64" and "mx \<le> max_int64"
    and "ctx_MaxReplacementNodes r = mx"
  shows "fst (ClusterBallooning_decide n batchSize r) =
      (if mx = 0 \<or> n + batchSize \<le> mx then (False, batchSize)
       else if n < mx then (False, mx - n)
       else if \<not> ctx_AllowReplacements r then (True, 0) else (False, batchSize))"
    and "replacement_count (snd (ClusterBallooning_decide n batchSize r)) =
      (if mx \<noteq> 0 \<and> n + batchSize \<le> mx then n + batchSize
       else if mx \<noteq> 0 \<and> n < mx then mx else replacement_count r)"
proof -
  have w: "wrap64 (n + batchSize) = n + batchSize" "wrap64 (mx - n) = mx - n" "wrap64 mx = mx"
    using assms by (auto intro!: wrap64_id)
  have d: "ClusterBallooning_decide n batchSize r =
     (if mx = 0 then ((False, batchSize), r)
      else if n + batchSize \<le> mx then ((False, batchSize),
        r\<lparr>ctx_ReplacementNodesMap := sm_Store replacementKey (n + batchSize) (ctx_ReplacementNodesMap r),
          ctx_AllowReplacements := True\<rparr>)
      else if n < mx then ((False, mx - n),
        r\<lparr>ctx_ReplacementNodesMap := sm_Store replacementKey mx (ctx_ReplacementNodesMap r),
          ctx_AllowReplacements := True\<rparr>)
      else if \<not> ctx_AllowReplacements r then ((True, 0), r)
      else ((False, batchSize), r))"
    using assms(6) by (simp add: ClusterBallooning_decide_def Let_def w)
  show "fst (ClusterBallooning_decide n batchSize r) =
      (if mx = 0 \<or> n + batchSize \<le> mx then (False, batchSize)
       else if n < mx then (False, mx - n)
       else if \<not> ctx_AllowReplacements r then (True, 0) else (False, batchSize))"
    unfolding d by simp
  show "replacement_count (snd (ClusterBallooning_decide n batchSize r)) =
      (if mx \<noteq> 0 \<and> n + batchSize \<le> mx then n + batchSize
       else if mx \<noteq> 0 \<and> n < mx then mx else replacement_count r)"
    unfolding d by (simp add: sm.load_store)
qed

lemma ClusterBallooning_cases:
  assumes "capacity_ok batchSize r"
  defines "n \<equiv> replacement_count r" and "mx \<equiv> ctx_MaxReplacementNodes r"
  shows "fst (ClusterBallooning batchSize r) =
      (if mx = 0 \<or> n + batchSize \<le> mx then (False, batchSize)
       else if n < mx then (False, mx - n)
       else if \<not> ctx_AllowReplacements r then (True, 0) else (False, batchSize))"
    and "replacement_count (snd (ClusterBallooning batchSize r)) =
      (if mx \<noteq> 0 \<and> n + batchSize \<le> mx then n + batchSize else if mx \<noteq> 0 \<and> n < mx then mx else n)"
  using ClusterBallooning_decide_cases [of n batchSize mx "snd (ClusterBallooning_load r)"] assms(1)
  by (simp_all add: ClusterBallooning_def case_prod_beta ClusterBallooning_load_count capacity_ok_def
      n_def mx_def)

section \<open>Stand-by\<close>

text \<open>The requests actually made: all chunks, or those up to the first failure.\<close>

lemma standby_chunks_events:
  "\<exists>k \<le> length bs. hist (snd (standby_chunks e bs r)) = hist r @
     map (\<lambda>(b, err). EvEnterStandby b (spec_AsgName (ru_Spec (ctx_RollingUpgrade r))) err)
       (zip (take k bs) (replicate (k - 1) None @ [fst (standby_chunks e bs r)])) \<and>
   (fst (standby_chunks e bs r) = None \<longrightarrow> k = length bs) \<and> (bs \<noteq> [] \<longrightarrow> 0 < k) \<and>
   world.more (snd (standby_chunks e bs r)) = world.more r"
proof (induction bs arbitrary: r)
  case Nil
  then show ?case by simp
next
  case (Cons b bs)
  let ?asg = "spec_AsgName (ru_Spec (ctx_RollingUpgrade r))"
  obtain err r1 where one: "SetInstancesStandBy e b ?asg r = (err, r1)" by fastforce
  have h: "hist r1 = hist r @ [EvEnterStandby b ?asg err]" and more: "world.more r1 = world.more r"
    using aws_calls_hist(4) [of e b ?asg r] aws_calls_more(4) [of e b ?asg r] by (simp_all add: one)
  show ?case
  proof (cases err)
    case (Some er)
    then show ?thesis using h more by (intro exI [of _ 1]) (simp add: one)
  next
    case None
    obtain k where k: "k \<le> length bs" "hist (snd (standby_chunks e bs r1)) = hist r1 @
        map (\<lambda>(b, err). EvEnterStandby b ?asg err)
          (zip (take k bs) (replicate (k - 1) None @ [fst (standby_chunks e bs r1)]))"
        "fst (standby_chunks e bs r1) = None \<longrightarrow> k = length bs" "bs \<noteq> [] \<longrightarrow> 0 < k"
        "world.more (snd (standby_chunks e bs r1)) = world.more r1"
      using Cons.IH [of r1] ctx_fields_of_more(2) [OF more] by auto
    show ?thesis
    proof (cases k)
      case 0
      with k(4) have "bs = []" by blast
      then show ?thesis using h more by (intro exI [of _ 1]) (simp add: one None)
    next
      case (Suc k')
      then show ?thesis
        using k h more by (intro exI [of _ "Suc k"]) (simp add: one None)
    qed
  qed
qed

section \<open>Properties\<close>

text \<open>C22: a call of \<open>ClusterBallooning\<close> grants between nothing and the size asked for; with a maximum set
  and the counter within it, the counter stays within the maximum and grows by exactly what a
  context without an earlier grant is granted; and the upgrade is sent back to the queue only when
  the maximum is reached.\<close>

theorem ClusterBallooning_correct:
  assumes "capacity_ok batchSize r" and "0 < batchSize"
    and "ClusterBallooning batchSize r = ((balloons, granted), r')"
  shows "0 \<le> granted \<and> granted \<le> batchSize \<and> (balloons \<longleftrightarrow> granted = 0) \<and>
    (ctx_MaxReplacementNodes r = 0 \<longrightarrow> granted = batchSize \<and> replacement_count r' = replacement_count r) \<and>
    (0 < ctx_MaxReplacementNodes r \<and> replacement_count r \<le> ctx_MaxReplacementNodes r \<longrightarrow>
       replacement_count r' \<le> ctx_MaxReplacementNodes r \<and>
       (\<not> ctx_AllowReplacements r \<longrightarrow> replacement_count r' = replacement_count r + granted) \<and>
       (balloons \<longrightarrow> replacement_count r = ctx_MaxReplacementNodes r))"
  using ClusterBallooning_cases [OF assms(1)] assms(2) assms(1)
  unfolding assms(3) capacity_ok_def by (auto split: if_splits)

theorem ClusterBallooning_correct_witness:
  "replacement_count (snd (ClusterBallooning 5
      (sample_ctx\<lparr>ctx_MaxReplacementNodes := 3, ctx_ReplacementNodesMap := [(replacementKey, 1)]\<rparr>))) \<le> 3"
proof -
  let ?r = "sample_ctx\<lparr>ctx_MaxReplacementNodes := 3, ctx_ReplacementNodesMap := [(replacementKey, 1)]\<rparr>"
  obtain b g r' where run: "ClusterBallooning 5 ?r = ((b, g), r')" by (metis prod.exhaust)
  have c: "replacement_count ?r = 1" by (simp add: replacement_count_def sm_Load_def)
  then have "capacity_ok 5 ?r" by (simp add: capacity_ok_def)
  with ClusterBallooning_correct [OF _ _ run] c show ?thesis by (simp add: run)
qed

text \<open>C23: setting a batch to stand-by always returns. The ids are split in order into requests of at most
  19, sent one after the other until one fails: if the result is a success every request was sent
  and succeeded, otherwise the last request sent is the one that failed.\<close>

theorem SetBatchStandBy_correct:
  "\<exists>chunks k err r'. SetBatchStandBy e ids r = Some (err, r') \<and>
     concat chunks = ids \<and> (\<forall>c \<in> set chunks. 0 < length c \<and> length c \<le> 19) \<and>
     k \<le> length chunks \<and> (err = None \<longrightarrow> k = length chunks) \<and>
     hist r' = hist r @
       map (\<lambda>(b, res). EvEnterStandby b (spec_AsgName (ru_Spec (ctx_RollingUpgrade r))) res)
         (zip (take k chunks) (replicate (k - 1) None @ [err]))"
proof -
  define chunks where "chunks = chunks_of 19 ids"
  have get: "GetChunks ids InstanceStandByLimit = Some chunks"
    using GetChunks_chunks_of [of InstanceStandByLimit ids] by (simp add: InstanceStandByLimit_def chunks_def)
  have "concat chunks = ids" by (simp add: chunks_def concat_chunks_of)
  have "\<forall>c \<in> set chunks. 0 < length c \<and> length c \<le> 19"
    unfolding chunks_def by (intro ballI chunks_of_length) simp_all
  obtain k where "k \<le> length chunks"
    "hist (snd (standby_chunks e chunks r)) = hist r @
       map (\<lambda>(b, res). EvEnterStandby b (spec_AsgName (ru_Spec (ctx_RollingUpgrade r))) res)
         (zip (take k chunks) (replicate (k - 1) None @ [fst (standby_chunks e chunks r)]))"
    "fst (standby_chunks e chunks r) = None \<longrightarrow> k = length chunks"
    using standby_chunks_events [of chunks e r] by (elim exE conjE) (rule that)
  have "SetBatchStandBy e ids r = Some (fst (standby_chunks e chunks r), snd (standby_chunks e chunks r))"
    by (simp add: SetBatchStandBy_def get)
  show ?thesis
    by (rule exI [of _ chunks], rule exI [of _ k], rule exI [of _ "fst (standby_chunks e chunks r)"],
        rule exI [of _ "snd (standby_chunks e chunks r)"], intro conjI) fact+
qed

theorem SetBatchStandBy_correct_witness:
  "\<exists>chunks k err r'. SetBatchStandBy sample_env [''i1''] sample_ctx = Some (err, r') \<and>
     concat chunks = [''i1''] \<and> k \<le> length chunks"
  using SetBatchStandBy_correct [of sample_env "[''i1'']" sample_ctx] by blast

text \<open>C39: the counter is not a mutual exclusion: when two upgrades load it before either stores, each is
  granted its whole batch of \<open>b\<close> nodes for a maximum of \<open>b\<close>, and the counter shows only \<open>b\<close> of the
  \<open>2 * b\<close> replacements granted.\<close>

theorem ClusterBallooning_race:
  assumes "0 < b" and "b \<le> max_int64"
    and "ctx_MaxReplacementNodes r1 = b" and "ctx_MaxReplacementNodes r2 = b"
    and "replacement_count r1 = 0" and "ctx_ReplacementNodesMap r2 = ctx_ReplacementNodesMap r1"
    and "ClusterBallooning_load r1 = (n1, s1)"
    and "ClusterBallooning_load (r2\<lparr>ctx_ReplacementNodesMap := ctx_ReplacementNodesMap s1\<rparr>) = (n2, s2)"
    and "ClusterBallooning_decide n1 b (s1\<lparr>ctx_ReplacementNodesMap := ctx_ReplacementNodesMap s2\<rparr>) = ((x1, g1), t1)"
    and "ClusterBallooning_decide n2 b (s2\<lparr>ctx_ReplacementNodesMap := ctx_ReplacementNodesMap t1\<rparr>) = ((x2, g2), t2)"
  shows "g1 + g2 = 2 * b \<and> replacement_count t2 = b"
proof -
  have 1: "n1 = 0" "replacement_count s1 = 0" "ctx_MaxReplacementNodes s1 = b"
    using ClusterBallooning_load_count [of r1] assms(3,5) by (simp_all add: assms(7))
  have "replacement_count (r2\<lparr>ctx_ReplacementNodesMap := ctx_ReplacementNodesMap s1\<rparr>) = 0"
    using 1(2) by (simp add: replacement_count_def)
  then have 2: "n2 = 0" "ctx_MaxReplacementNodes s2 = b"
    using ClusterBallooning_load_count [of "r2\<lparr>ctx_ReplacementNodesMap := ctx_ReplacementNodesMap s1\<rparr>"] assms(4)
    by (simp_all add: assms(8))
  have g1: "g1 = b"
    using ClusterBallooning_decide_cases(1) [of 0 b b "s1\<lparr>ctx_ReplacementNodesMap := ctx_ReplacementNodesMap s2\<rparr>"]
      assms(1,2) 1 assms(9) by simp
  have "g2 = b" "replacement_count t2 = b"
    using ClusterBallooning_decide_cases [of 0 b b "s2\<lparr>ctx_ReplacementNodesMap := ctx_ReplacementNodesMap t1\<rparr>"]
      assms(1,2,10) 2 by simp_all
  with g1 show ?thesis by simp
qed

theorem ClusterBallooning_race_witness:
  "\<exists>s1 s2 t1 t2 x1 x2 g1 g2.
     ClusterBallooning_load (sample_ctx\<lparr>ctx_MaxReplacementNodes := 4\<rparr>) = (0, s1) \<and>
     ClusterBallooning_load ((sample_ctx\<lparr>ctx_MaxReplacementNodes := 4\<rparr>)\<lparr>ctx_ReplacementNodesMap := ctx_ReplacementNodesMap s1\<rparr>) = (0, s2) \<and>
     ClusterBallooning_decide 0 4 (s1\<lparr>ctx_ReplacementNodesMap := ctx_ReplacementNodesMap s2\<rparr>) = ((x1, g1), t1) \<and>
     ClusterBallooning_decide 0 4 (s2\<lparr>ctx_ReplacementNodesMap := ctx_ReplacementNodesMap t1\<rparr>) = ((x2, g2), t2) \<and>
     g1 + g2 = 8 \<and> replacement_count t2 = 4"
proof -
  let ?r = "sample_ctx\<lparr>ctx_MaxReplacementNodes := 4\<rparr>"
  obtain n1 s1 where s1: "ClusterBallooning_load ?r = (n1, s1)" by fastforce
  obtain n2 s2 where s2: "ClusterBallooning_load (?r\<lparr>ctx_ReplacementNodesMap := ctx_ReplacementNodesMap s1\<rparr>) = (n2, s2)"
    by fastforce
  obtain x1 g1 t1 where t1: "ClusterBallooning_decide n1 4 (s1\<lparr>ctx_ReplacementNodesMap := ctx_ReplacementNodesMap s2\<rparr>) = ((x1, g1), t1)"
    by (metis prod.exhaust)
  obtain x2 g2 t2 where t2: "ClusterBallooning_decide n2 4 (s2\<lparr>ctx_ReplacementNodesMap := ctx_ReplacementNodesMap t1\<rparr>) = ((x2, g2), t2)"
    by (metis prod.exhaust)
  have c: "replacement_count ?r = 0" by (simp add: replacement_count_def sm_Load_def sample_ctx_def)
  have "n1 = 0" "replacement_count s1 = 0" using ClusterBallooning_load_count [of ?r] c by (simp_all add: s1)
  moreover from this have "n2 = 0"
    using ClusterBallooning_load_count(1) [of "?r\<lparr>ctx_ReplacementNodesMap := ctx_ReplacementNodesMap s1\<rparr>"]
    by (simp add: s2 replacement_count_def)
  moreover have "g1 + g2 = 8 \<and> replacement_count t2 = 4"
    using ClusterBallooning_race [OF _ _ _ _ c _ s1 s2 t1 t2] by simp
  ultimately show ?thesis using s1 s2 t1 t2 by metis
qed

end
