(* ===== verification/Early_Cordon.thy ===== *)
theory Early_Cordon
  imports Capacity
begin

text \<open>
  Early cordoning, from \<^verbatim>\<open>controllers/upgrade.go\<close>: \<open>CordonUncordonAllNodes\<close> with
  \<open>cordonAndAnnotateNode\<close> and \<open>uncordonAndRemoveAnnotation\<close>. Cordoned nodes are marked with an
  annotation, and only marked nodes are uncordoned. The retry loops run over the list of attempts.
  Node objects are pointers shared with the context's cluster nodes: an operation that writes the
  object it is given returns it, and \<open>write_node\<close> puts it back. Shown: an attempt on a node is bounded and
  succeeds exactly if its calls end with the annotation stored, or with the node uncordoned after the
  annotation was removed; a run over all nodes is a sequence of attempts on exactly the nodes it is
  for, early cordon on nodes of drifted instances that were schedulable, cleaning up on annotated nodes.
\<close>

section \<open>Definitions\<close>

definition EarlyCordonAnnotationKey :: string where
  "EarlyCordonAnnotationKey = ''rollingupgrade.keikoproj.io/early-cordoned-by''"

definition EarlyCordonAnnotationValue :: string where
  "EarlyCordonAnnotationValue = ''upgrade-manager''"

text \<open>The Kubernetes API's \<^verbatim>\<open>Nodes().Get\<close> and \<^verbatim>\<open>Nodes().Update\<close>.\<close>

definition error_of :: "error + 'b \<Rightarrow> error option" where
  "error_of x = (case x of Inl er \<Rightarrow> Some er | Inr _ \<Rightarrow> None)"

definition NodesGet :: "env \<Rightarrow> string \<Rightarrow> 'a world_scheme \<Rightarrow> (error + Node) \<times> 'a world_scheme" where
  "NodesGet e name w = (let res = env_NodesGet e (hist w) name in (res, log_event (EvGetNode name (error_of res)) w))"

definition NodesUpdate :: "env \<Rightarrow> Node \<Rightarrow> 'a world_scheme \<Rightarrow> (error + Node) \<times> 'a world_scheme" where
  "NodesUpdate e n w = (let res = env_NodesUpdate e (hist w) n in (res, log_event (EvUpdateNode n (error_of res)) w))"

abbreviation maxRetries :: int where
  "maxRetries \<equiv> (3::int)"

definition is_conflict :: "error \<Rightarrow> bool" where
  "is_conflict er = Contains (error_msg er) ''the object has been modified''"

definition has_annotation :: "Node \<Rightarrow> bool" where
  "has_annotation node \<longleftrightarrow> node_Annotations node EarlyCordonAnnotationKey = Some EarlyCordonAnnotationValue"

text \<open>The retry loop that removes the annotation, over the attempts still to make.\<close>

fun remove_annotation ::
  "env \<Rightarrow> string \<Rightarrow> int list \<Rightarrow> 'a world_scheme \<Rightarrow> (error + Node option) \<times> 'a world_scheme" where
  "remove_annotation e name [] w = (Inr None, w)"
| "remove_annotation e name (attempt # attempts) w =
     (let (res, w1) = NodesGet e name w in
      (case res of
         Inl er \<Rightarrow> (Inl (Errorf (''failed to get current node object: '' @ error_msg er)), w1)
       | Inr currentNodeObject \<Rightarrow>
          (let current = currentNodeObject\<lparr>node_Annotations :=
                 (node_Annotations currentNodeObject)(EarlyCordonAnnotationKey := None)\<rparr>;
               (upd, w2) = NodesUpdate e current w1 in
           (case upd of
              Inl er \<Rightarrow>
                if attempt < maxRetries \<and> is_conflict er
                then remove_annotation e name attempts (Sleep (attempt * 100 * Millisecond) w2)
                else (Inl (Errorf (''failed to remove annotation from node after '' @ Itoa maxRetries @
                        '' attempts: '' @ error_msg er)), w2)
            | Inr finalNodeObject \<Rightarrow> (Inr (Some finalNodeObject), w2)))))"

definition uncordonAndRemoveAnnotation ::
  "env \<Rightarrow> Node \<Rightarrow> 'a world_scheme \<Rightarrow> (error option \<times> Node) \<times> 'a world_scheme" where
  "uncordonAndRemoveAnnotation e node w =
     (if has_annotation node then
        (let (res, w1) = remove_annotation e (node_Name node) [1..maxRetries] w in
         (case res of
            Inl er \<Rightarrow> ((Some er, node), w1)
          | Inr finalNodeObject \<Rightarrow>
             (let ((err, _), w2) = CordonUncordonNode e finalNodeObject (Some ()) False w1 in
              (case err of
                 Some er \<Rightarrow> ((Some (Errorf (''failed to uncordon node: '' @ error_msg er)), node), w2)
               | None \<Rightarrow> ((None, node), w2)))))
      else
        (let ((err, node'), w1) = CordonUncordonNode e (Some node) (Some ()) False w;
             node'' = (case node' of Some n \<Rightarrow> n | None \<Rightarrow> node) in
         (case err of
            Some er \<Rightarrow> ((Some (Errorf (''failed to uncordon node: '' @ error_msg er)), node''), w1)
          | None \<Rightarrow> ((None, node''), w1))))"

fun annotate_loop ::
  "env \<Rightarrow> Node \<Rightarrow> int list \<Rightarrow> 'a world_scheme \<Rightarrow> (error option \<times> Node) \<times> 'a world_scheme" where
  "annotate_loop e node [] w = ((Some (Errorf ''unexpected exit from retry loop''), node), w)"
| "annotate_loop e node (attempt # attempts) w =
     (let (res, w1) = NodesGet e (node_Name node) w in
      (case res of
         Inl er \<Rightarrow>
           if attempt < maxRetries
           then annotate_loop e node attempts (Sleep (attempt * 100 * Millisecond) w1)
           else (let ((_, node'), w2) = uncordonAndRemoveAnnotation e node w1
                 in ((Some (Errorf (''failed to get current node object after '' @ Itoa maxRetries @
                        '' attempts: '' @ error_msg er)), node'), w2))
       | Inr currentNodeObject \<Rightarrow>
          (let current = currentNodeObject\<lparr>node_Annotations :=
                 (node_Annotations currentNodeObject)(EarlyCordonAnnotationKey \<mapsto> EarlyCordonAnnotationValue)\<rparr>;
               (upd, w2) = NodesUpdate e current w1 in
           (case upd of
              Inl er \<Rightarrow>
                if attempt < maxRetries \<and> is_conflict er
                then annotate_loop e node attempts (Sleep (attempt * 100 * Millisecond) w2)
                else (let (_, w3) = uncordonAndRemoveAnnotation e current w2
                      in ((Some (Errorf (''failed to annotate node after '' @ Itoa maxRetries @
                             '' attempts: '' @ error_msg er)), node), w3))
            | Inr _ \<Rightarrow> ((None, node), w2)))))"

definition cordonAndAnnotateNode ::
  "env \<Rightarrow> Node \<Rightarrow> 'a world_scheme \<Rightarrow> (error option \<times> Node) \<times> 'a world_scheme" where
  "cordonAndAnnotateNode e node w =
     (let ((err, node'), w1) = CordonUncordonNode e (Some node) (Some ()) True w;
          node'' = (case node' of Some n \<Rightarrow> n | None \<Rightarrow> node) in
      (case err of
         Some er \<Rightarrow> ((Some (Errorf (''failed to cordon node: '' @ error_msg er)), node''), w1)
       | None \<Rightarrow> annotate_loop e node'' [1..maxRetries] w1))"

text \<open>Writing through the pointer that \<open>SelectNodeByInstanceID\<close> returned.\<close>

fun write_node :: "string \<Rightarrow> Node \<Rightarrow> Node list \<Rightarrow> Node list" where
  "write_node instanceID node' [] = []"
| "write_node instanceID node' (node # nodes) =
     (if EqualFold instanceID (GetNodeInstanceID (Some node)) then node' # nodes
      else node # write_node instanceID node' nodes)"

text \<open>The loop over the instances, with the counts of processed nodes and of errors.\<close>

fun cordon_instances ::
  "env \<Rightarrow> bool \<Rightarrow> Instance list \<Rightarrow> int \<Rightarrow> int \<Rightarrow> ctx \<Rightarrow> ((int \<times> int) \<times> ctx) option" where
  "cordon_instances e cordonNode [] processed errors r = Some ((processed, errors), r)"
| "cordon_instances e cordonNode (instance # instances) processed errors r =
     (if ContainsEqualFold TerminatingInstanceStates (StringValue (inst_LifecycleState instance))
      then cordon_instances e cordonNode instances processed errors r
      else do {
        drift \<leftarrow> (if cordonNode then IsInstanceDrifted r instance else Some True);
        if \<not> drift then cordon_instances e cordonNode instances processed errors r
        else do {
          instanceID \<leftarrow> inst_InstanceId instance;
          (case SelectNodeByInstanceID instanceID (ctx_nodes r) of
             None \<Rightarrow> cordon_instances e cordonNode instances processed errors r
           | Some node \<Rightarrow>
              if cordonNode then
                (if node_Unschedulable node then cordon_instances e cordonNode instances processed errors r
                 else (let ((err, node'), r1) = cordonAndAnnotateNode e node r;
                           r2 = upd_cloud (\<lambda>c. c\<lparr>cloud_ClusterNodes := write_node instanceID node' (cloud_ClusterNodes c)\<rparr>) r1
                       in if err \<noteq> None then cordon_instances e cordonNode instances processed (errors + 1) r2
                          else cordon_instances e cordonNode instances (processed + 1) errors r2))
              else
                (if has_annotation node then
                   (let ((err, node'), r1) = uncordonAndRemoveAnnotation e node r;
                        r2 = upd_cloud (\<lambda>c. c\<lparr>cloud_ClusterNodes := write_node instanceID node' (cloud_ClusterNodes c)\<rparr>) r1
                    in if err \<noteq> None then cordon_instances e cordonNode instances processed (errors + 1) r2
                       else cordon_instances e cordonNode instances (processed + 1) errors r2)
                 else cordon_instances e cordonNode instances processed errors r)) } })"

definition CordonUncordonAllNodes :: "env \<Rightarrow> bool \<Rightarrow> ctx \<Rightarrow> ((bool \<times> error option) \<times> ctx) option" where
  "CordonUncordonAllNodes e cordonNode r =
     do { ((processedCount, errorCount), r') \<leftarrow>
            cordon_instances e cordonNode (group_Instances (ctx_group r)) 0 0 r;
          Some (if errorCount > 0 \<and> processedCount > 0 then ((True, None), r')
                else if errorCount = 0 then ((True, None), r')
                else ((False, Some (Errorf (''failed to process any nodes: '' @ Itoa errorCount @
                         '' errors encountered''))), r')) }"

definition cleanupEarlyCordonedNodes :: "env \<Rightarrow> ctx \<Rightarrow> ctx option" where
  "cleanupEarlyCordonedNodes e r = do { (_, r') \<leftarrow> CordonUncordonAllNodes e False r; Some r' }"

section \<open>Frames\<close>

lemma CordonUncordonNode_Some:
  "CordonUncordonNode e (Some n) (Some ()) c w =
     (let ((err, n'), w1) = run_cordon e n c w in ((err, Some n'), w1))"
  by (simp add: CordonUncordonNode_def case_prod_beta Let_def prod_eq_iff)

lemma CordonUncordonNode_None: "CordonUncordonNode e None (Some ()) c w = ((Some (Errorf ''node not set''), None), w)"
  by (simp add: CordonUncordonNode_def)

lemma node_calls_more [simp, frame_simps]:
  "world.more (snd (NodesGet e n w)) = world.more w"
  "world.more (snd (NodesUpdate e x w)) = world.more w"
  "world.more (Sleep d w) = world.more w"
  by (simp_all add: NodesGet_def NodesUpdate_def Sleep_def Let_def)

lemma node_calls_hist [simp, hist_simps]:
  "hist (snd (NodesGet e n w)) = hist w @ [EvGetNode n (error_of (fst (NodesGet e n w)))]"
  "hist (snd (NodesUpdate e x w)) = hist w @ [EvUpdateNode x (error_of (fst (NodesUpdate e x w)))]"
  "hist (Sleep d w) = hist w @ [EvSleep d]"
  by (simp_all add: NodesGet_def NodesUpdate_def Sleep_def Let_def)

lemma remove_annotation_more [simp, frame_simps]:
  "world.more (snd (remove_annotation e name attempts w)) = world.more w"
  by (induction attempts arbitrary: w)
     (simp_all add: Let_def case_prod_beta split: sum.splits)

lemma CordonUncordonNode_more [simp, frame_simps]:
  "world.more (snd (CordonUncordonNode e n (Some ()) c w)) = world.more w"
  by (cases n) (simp_all add: CordonUncordonNode_None CordonUncordonNode_Some case_prod_beta Let_def)

lemma uncordonAndRemoveAnnotation_more [simp, frame_simps]:
  "world.more (snd (uncordonAndRemoveAnnotation e n w)) = world.more w"
  by (simp add: uncordonAndRemoveAnnotation_def Let_def case_prod_beta split: sum.splits option.splits)

lemma annotate_loop_more [simp, frame_simps]:
  "world.more (snd (annotate_loop e n attempts w)) = world.more w"
  by (induction attempts arbitrary: w)
     (simp_all add: Let_def case_prod_beta split: sum.splits)

lemma cordonAndAnnotateNode_more [simp, frame_simps]:
  "world.more (snd (cordonAndAnnotateNode e n w)) = world.more w"
  by (simp add: cordonAndAnnotateNode_def Let_def case_prod_beta split: option.splits)

section \<open>The node object\<close>

text \<open>
  \<open>same_object strict a b\<close>: \<open>b\<close> is the node \<open>a\<close> with at most its schedulability changed; when strict,
  \<open>b\<close> is schedulable only if \<open>a\<close> was.
\<close>

definition same_object :: "bool \<Rightarrow> Node \<Rightarrow> Node \<Rightarrow> bool" where
  "same_object strict a b \<longleftrightarrow> b = a\<lparr>node_Unschedulable := node_Unschedulable b\<rparr> \<and>
     (strict \<and> \<not> node_Unschedulable b \<longrightarrow> \<not> node_Unschedulable a)"

lemma same_object_refl [simp]: "same_object strict a a"
  by (simp add: same_object_def)

lemma same_object_fields:
  "same_object strict a b \<Longrightarrow> node_Name b = node_Name a \<and> node_ProviderID b = node_ProviderID a \<and>
     node_Annotations b = node_Annotations a \<and> node_CreationTimestamp b = node_CreationTimestamp a"
  unfolding same_object_def by (metis Node.ext_inject Node.surjective Node.update_convs(6))

lemma same_object_trans: "same_object strict a b \<Longrightarrow> same_object strict b c \<Longrightarrow> same_object strict a c"
  unfolding same_object_def by (metis Node.unfold_congs(6) Node.update_convs(6) Node.surjective)

lemma run_cordon_object: "\<exists>u. snd (fst (run_cordon e n c w)) = n\<lparr>node_Unschedulable := u\<rparr>"
  by (auto simp: run_cordon_def Let_def split: prod.splits)

lemma uncordonAndRemoveAnnotation_object: "same_object False n (snd (fst (uncordonAndRemoveAnnotation e n w)))"
  using run_cordon_object [of e n False w]
  by (auto simp: uncordonAndRemoveAnnotation_def Let_def case_prod_beta same_object_def CordonUncordonNode_Some
      split: sum.splits option.splits)

lemma annotate_loop_object: "same_object False n (snd (fst (annotate_loop e n attempts w)))"
  by (induction attempts arbitrary: w)
     (simp_all add: Let_def case_prod_beta uncordonAndRemoveAnnotation_object split: sum.splits)

lemma cordonAndAnnotateNode_object: "same_object False n (snd (fst (cordonAndAnnotateNode e n w)))"
proof -
  obtain u where u: "snd (fst (run_cordon e n True w)) = n\<lparr>node_Unschedulable := u\<rparr>"
    using run_cordon_object by blast
  have "same_object False n (n\<lparr>node_Unschedulable := u\<rparr>)" by (simp add: same_object_def)
  then show ?thesis
    using same_object_trans [OF _ annotate_loop_object [of "n\<lparr>node_Unschedulable := u\<rparr>"]]
    by (auto simp: cordonAndAnnotateNode_def CordonUncordonNode_Some Let_def case_prod_beta u split: option.splits)
qed

section \<open>Events\<close>

text \<open>What the code relies on of the Kubernetes API: answers are about the node asked for.\<close>

definition api_names :: "env \<Rightarrow> bool" where
  "api_names e \<longleftrightarrow> (\<forall>h name n. env_NodesGet e h name = Inr n \<longrightarrow> node_Name n = name) \<and>
     (\<forall>h n n'. env_NodesUpdate e h n = Inr n' \<longrightarrow> node_Name n' = node_Name n)"

definition uncordon_event :: "string \<Rightarrow> event \<Rightarrow> bool" where
  "uncordon_event name ev \<longleftrightarrow>
     (case ev of EvGetNode n _ \<Rightarrow> n = name | EvUpdateNode x _ \<Rightarrow> node_Name x = name \<and> \<not> has_annotation x
      | EvCordon n c _ \<Rightarrow> n = name \<and> \<not> c | EvSleep _ \<Rightarrow> True | _ \<Rightarrow> False)"

definition cordon_event :: "string \<Rightarrow> event \<Rightarrow> bool" where
  "cordon_event name ev \<longleftrightarrow>
     (case ev of EvGetNode n _ \<Rightarrow> n = name | EvUpdateNode x _ \<Rightarrow> node_Name x = name
      | EvCordon n c _ \<Rightarrow> n = name | EvSleep _ \<Rightarrow> True | _ \<Rightarrow> False)"

lemma uncordon_is_cordon_event: "uncordon_event name ev \<Longrightarrow> cordon_event name ev"
  by (auto simp: uncordon_event_def cordon_event_def split: event.splits)

text \<open>At most \<open>k\<close> calls, and at most \<open>d\<close> nanoseconds asleep.\<close>

definition time_slept :: "event list \<Rightarrow> duration" where
  "time_slept evs = (\<Sum>ev \<leftarrow> evs. case ev of EvSleep d \<Rightarrow> d | _ \<Rightarrow> 0)"

definition effort :: "nat \<Rightarrow> duration \<Rightarrow> 'a world_scheme \<Rightarrow> 'b world_scheme \<Rightarrow> bool" where
  "effort k d w w' \<longleftrightarrow> (\<exists>evs. hist w' = hist w @ evs \<and> length evs \<le> k \<and> time_slept evs \<le> d)"

lemma effort_trans: "effort k d u v \<Longrightarrow> effort k' d' v w \<Longrightarrow> effort (k + k') (d + d') u w"
  unfolding effort_def time_slept_def by fastforce

lemma effort_mono: "effort k d w w' \<Longrightarrow> k \<le> k' \<Longrightarrow> d \<le> d' \<Longrightarrow> effort k' d' w w'"
  unfolding effort_def by (meson order_trans)

lemma effort_append: "hist w' = hist w @ evs \<Longrightarrow> effort k d w w' \<longleftrightarrow> length evs \<le> k \<and> time_slept evs \<le> d"
  by (auto simp: effort_def)

text \<open>The longest time a retry loop over these attempts sleeps.\<close>

definition backoff :: "int list \<Rightarrow> duration" where
  "backoff attempts = (\<Sum>a \<leftarrow> filter (\<lambda>a. a < maxRetries) attempts. a * 100 * Millisecond)"

lemma backoff_nonneg: "list_all (\<lambda>a. 0 \<le> a) attempts \<Longrightarrow> 0 \<le> backoff attempts"
  by (induction attempts) (auto simp: backoff_def)

lemma remove_annotation_events:
  assumes "api_names e" and "list_all (\<lambda>a. 0 \<le> a) attempts"
  shows "emits (uncordon_event name) w (snd (remove_annotation e name attempts w)) \<and>
    effort (3 * length attempts) (backoff attempts) w (snd (remove_annotation e name attempts w)) \<and>
    (\<forall>n. fst (remove_annotation e name attempts w) = Inr (Some n) \<longrightarrow> node_Name n = name)"
  using assms(2)
proof (induction attempts arbitrary: w)
  case Nil
  then show ?case by (simp add: effort_def time_slept_def backoff_def)
next
  case (Cons a attempts)
  have b: "0 \<le> backoff (a # attempts)" using Cons.prems by (rule backoff_nonneg)
  obtain res w1 where g: "NodesGet e name w = (res, w1)" by fastforce
  have h1: "hist w1 = hist w @ [EvGetNode name (error_of res)]"
    using node_calls_hist(1) [of e name w] by (simp add: g)
  show ?case
  proof (cases res)
    case (Inl er)
    then have fin: "remove_annotation e name (a # attempts) w =
        (Inl (Errorf (''failed to get current node object: '' @ error_msg er)), w1)" by (simp add: g)
    show ?thesis
      unfolding fin using b by (simp add: emits_append [OF h1] effort_append [OF h1] uncordon_event_def time_slept_def)
  next
    case (Inr cur)
    let ?cur = "cur\<lparr>node_Annotations := (node_Annotations cur)(EarlyCordonAnnotationKey := None)\<rparr>"
    have nm: "node_Name cur = name"
      using assms(1) g Inr by (auto simp: api_names_def NodesGet_def Let_def)
    obtain upd w2 where u: "NodesUpdate e ?cur w1 = (upd, w2)" by fastforce
    have h2: "hist w2 = hist w @ [EvGetNode name (error_of res), EvUpdateNode ?cur (error_of upd)]"
      using node_calls_hist(2) [of e ?cur w1] h1 by (simp add: u)
    have ev: "list_all (uncordon_event name) [EvGetNode name (error_of res), EvUpdateNode ?cur (error_of upd)]"
      using nm by (simp add: uncordon_event_def has_annotation_def)
    show ?thesis
    proof (cases "\<exists>er. upd = Inl er \<and> a < maxRetries \<and> is_conflict er")
      case True
      let ?w3 = "Sleep (a * 100 * Millisecond) w2"
      have run: "remove_annotation e name (a # attempts) w = remove_annotation e name attempts ?w3"
        using True by (auto simp: g Inr u)
      have h3: "hist ?w3 = hist w @ [EvGetNode name (error_of res), EvUpdateNode ?cur (error_of upd),
          EvSleep (a * 100 * Millisecond)]"
        using h2 by simp
      have e3: "emits (uncordon_event name) w ?w3"
        unfolding emits_append [OF h3] using ev by (simp add: uncordon_event_def)
      have f3: "effort 3 (a * 100 * Millisecond) w ?w3"
        unfolding effort_append [OF h3] by (simp add: time_slept_def)
      have IH: "emits (uncordon_event name) ?w3 (snd (remove_annotation e name attempts ?w3))"
        "effort (3 * length attempts) (backoff attempts) ?w3 (snd (remove_annotation e name attempts ?w3))"
        "\<forall>n. fst (remove_annotation e name attempts ?w3) = Inr (Some n) \<longrightarrow> node_Name n = name"
        using Cons.IH [of ?w3] Cons.prems by simp_all
      have bo: "backoff (a # attempts) = a * 100 * Millisecond + backoff attempts" and
        len: "3 * length (a # attempts) = 3 + 3 * length attempts"
        using True by (auto simp: backoff_def)
      show ?thesis
        unfolding run bo len using emits_trans [OF e3 IH(1)] effort_trans [OF f3 IH(2)] IH(3) by blast
    next
      case False
      then have fin: "snd (remove_annotation e name (a # attempts) w) = w2"
        "\<And>n. fst (remove_annotation e name (a # attempts) w) = Inr (Some n) \<Longrightarrow> upd = Inr n"
        by (auto simp: g Inr u split: sum.splits)
      have "node_Name n = name" if "upd = Inr n" for n
        using assms(1) u that nm by (auto simp: api_names_def NodesUpdate_def Let_def)
      moreover have "effort (3 * length (a # attempts)) (backoff (a # attempts)) w w2"
        using b by (simp add: effort_append [OF h2] time_slept_def)
      ultimately show ?thesis
        using fin(2) ev unfolding fin(1) emits_append [OF h2] by blast
    qed
  qed
qed

lemma attempts_list: "[1..maxRetries] = [1, 2, 3]"
  by (simp add: upto.simps)

lemma uncordonAndRemoveAnnotation_events:
  assumes "api_names e"
  shows "emits (uncordon_event (node_Name n)) w (snd (uncordonAndRemoveAnnotation e n w)) \<and>
    effort 10 (300 * Millisecond) w (snd (uncordonAndRemoveAnnotation e n w))"
proof (cases "has_annotation n")
  case False
  then show ?thesis
    using run_cordon_hist [of e n False w]
    by (auto simp: uncordonAndRemoveAnnotation_def CordonUncordonNode_Some Let_def case_prod_beta
        emits_append [OF run_cordon_hist] effort_append [OF run_cordon_hist] uncordon_event_def
        time_slept_def split: option.splits)
next
  case True
  obtain res w1 where r: "remove_annotation e (node_Name n) [1, 2, 3] w = (res, w1)" by fastforce
  have one: "emits (uncordon_event (node_Name n)) w w1" "effort 9 (300 * Millisecond) w w1"
      "\<And>x. res = Inr (Some x) \<Longrightarrow> node_Name x = node_Name n"
    using remove_annotation_events [OF assms, of "[1, 2, 3]" "node_Name n" w]
    by (simp_all add: r backoff_def del: remove_annotation.simps)
  show ?thesis
  proof (cases "\<exists>x. res = Inr (Some x)")
    case False
    then have "snd (uncordonAndRemoveAnnotation e n w) = w1"
      using True by (auto simp: uncordonAndRemoveAnnotation_def attempts_list r CordonUncordonNode_None
          simp del: remove_annotation.simps split: sum.splits option.splits)
    then show ?thesis using one effort_mono [OF one(2)] by simp
  next
    case Tr: True
    then obtain x where x: "res = Inr (Some x)" by blast
    then have "snd (uncordonAndRemoveAnnotation e n w) = snd (run_cordon e x False w1)"
      using True by (simp add: uncordonAndRemoveAnnotation_def attempts_list r CordonUncordonNode_Some Let_def
          case_prod_beta del: remove_annotation.simps split: option.splits)
    moreover have "emits (uncordon_event (node_Name n)) w1 (snd (run_cordon e x False w1))"
      "effort 1 0 w1 (snd (run_cordon e x False w1))"
      using one(3) [OF x] by (simp_all add: emits_append [OF run_cordon_hist] effort_append [OF run_cordon_hist]
          uncordon_event_def time_slept_def)
    ultimately show ?thesis
      using one effort_trans [OF one(2)] emits_trans [OF one(1)] by force
  qed
qed

text \<open>An annotation stored: the last event is a successful update of the node with the annotation.\<close>

definition annotated_last :: "string \<Rightarrow> 'a world_scheme \<Rightarrow> 'b world_scheme \<Rightarrow> bool" where
  "annotated_last name w w' \<longleftrightarrow> (\<exists>evs n. hist w' = hist w @ evs @ [EvUpdateNode n None] \<and>
     has_annotation n \<and> node_Name n = name \<and> list_all (\<lambda>ev. \<forall>m c err. ev \<noteq> EvCordon m c err) evs)"

lemma annotated_last_extend:
  "annotated_last name v w' \<Longrightarrow> hist v = hist w @ evs \<Longrightarrow> list_all (\<lambda>ev. \<forall>m c err. ev \<noteq> EvCordon m c err) evs \<Longrightarrow>
   annotated_last name w w'"
  unfolding annotated_last_def by fastforce

definition annotate_ok :: "string \<Rightarrow> int list \<Rightarrow> (error option \<times> Node) \<times> 'a world_scheme \<Rightarrow> 'a world_scheme \<Rightarrow> bool" where
  "annotate_ok name attempts res w \<longleftrightarrow> emits (cordon_event name) w (snd res) \<and>
     effort (3 * length attempts + 10) (backoff attempts + 300 * Millisecond) w (snd res) \<and>
     (fst (fst res) = None \<longrightarrow> annotated_last name w (snd res))"

lemma annotate_ok_retry:
  assumes "annotate_ok name attempts res v" and "hist v = hist w @ evs @ [EvSleep (a * 100 * Millisecond)]"
    and "length evs \<le> 2" and "list_all (\<lambda>ev. cordon_event name ev \<and> (\<forall>m c err. ev \<noteq> EvCordon m c err)) evs"
    and "time_slept evs = 0" and "a < maxRetries"
  shows "annotate_ok name (a # attempts) res w"
proof -
  have h: "hist v = hist w @ (evs @ [EvSleep (a * 100 * Millisecond)])" using assms(2) by simp
  have e: "emits (cordon_event name) w v"
    unfolding emits_append [OF h] using assms(4) by (simp add: cordon_event_def list_all_iff)
  have f: "effort 3 (a * 100 * Millisecond) w v"
    unfolding effort_append [OF h] using assms(3,5) by (simp add: time_slept_def)
  have n: "list_all (\<lambda>ev. \<forall>m c err. ev \<noteq> EvCordon m c err) (evs @ [EvSleep (a * 100 * Millisecond)])"
    using assms(4) by (simp add: list_all_iff)
  have bo: "backoff (a # attempts) + 300 * Millisecond = a * 100 * Millisecond + (backoff attempts + 300 * Millisecond)"
    and len: "3 * length (a # attempts) + 10 = 3 + (3 * length attempts + 10)"
    using assms(6) by (simp_all add: backoff_def)
  show ?thesis
    using assms(1) emits_trans [OF e] effort_trans [OF f] annotated_last_extend [OF _ h n]
    unfolding annotate_ok_def bo len by blast
qed

lemma annotate_ok_rollback:
  assumes "api_names e" and "list_all (\<lambda>a. 0 \<le> a) (a # attempts)" and "node_Name n = name"
    and "hist v = hist w @ evs" and "length evs \<le> 2" and "list_all (cordon_event name) evs" and "time_slept evs = 0"
    and "snd res = snd (uncordonAndRemoveAnnotation e n v)" and "fst (fst res) \<noteq> None"
  shows "annotate_ok name (a # attempts) res w"
proof -
  have u: "emits (cordon_event name) v (snd res)" "effort 10 (300 * Millisecond) v (snd res)"
    using uncordonAndRemoveAnnotation_events [OF assms(1), of n v] assms(3,8)
      emits_mono [OF _ uncordon_is_cordon_event] by auto
  have e: "emits (cordon_event name) w v" and f: "effort 2 0 w v"
    unfolding emits_append [OF assms(4)] effort_append [OF assms(4)] using assms(5,6,7) by simp_all
  have "effort (3 * length (a # attempts) + 10) (backoff (a # attempts) + 300 * Millisecond) w (snd res)"
    using effort_mono [OF effort_trans [OF f u(2)]] backoff_nonneg [OF assms(2)] by simp
  with emits_trans [OF e u(1)] assms(9) show ?thesis unfolding annotate_ok_def by blast
qed

lemma annotate_loop_ok:
  assumes "api_names e" and "list_all (\<lambda>a. 0 \<le> a) attempts"
  shows "annotate_ok (node_Name n) attempts (annotate_loop e n attempts w) w"
  using assms(2)
proof (induction attempts arbitrary: w)
  case Nil
  then show ?case by (simp add: annotate_ok_def effort_def time_slept_def backoff_def)
next
  case (Cons a attempts)
  obtain res w1 where g: "NodesGet e (node_Name n) w = (res, w1)" by fastforce
  have h1: "hist w1 = hist w @ [EvGetNode (node_Name n) (error_of res)]"
    using node_calls_hist(1) [of e "node_Name n" w] by (simp add: g)
  show ?case
  proof (cases res)
    case (Inl er)
    show ?thesis
    proof (cases "a < maxRetries")
      case True
      let ?v = "Sleep (a * 100 * Millisecond) w1"
      have run: "annotate_loop e n (a # attempts) w = annotate_loop e n attempts ?v"
        using True Inl by (simp add: g)
      show ?thesis
        unfolding run
        by (rule annotate_ok_retry [OF Cons.IH [of ?v], where evs = "[EvGetNode (node_Name n) (error_of res)]"])
           (use Cons.prems h1 True in \<open>simp_all add: cordon_event_def time_slept_def\<close>)
    next
      case False
      have run: "snd (annotate_loop e n (a # attempts) w) = snd (uncordonAndRemoveAnnotation e n w1)"
        "fst (fst (annotate_loop e n (a # attempts) w)) \<noteq> None"
        using False Inl by (simp_all add: g case_prod_beta Let_def)
      show ?thesis
        by (rule annotate_ok_rollback [OF assms(1) Cons.prems refl h1 _ _ _ run])
           (simp_all add: cordon_event_def time_slept_def)
    qed
  next
    case (Inr cur)
    let ?cur = "cur\<lparr>node_Annotations := (node_Annotations cur)(EarlyCordonAnnotationKey \<mapsto> EarlyCordonAnnotationValue)\<rparr>"
    have nm: "node_Name ?cur = node_Name n"
      using assms(1) g Inr by (auto simp: api_names_def NodesGet_def Let_def)
    have an: "has_annotation ?cur" by (simp add: has_annotation_def)
    obtain upd w2 where u: "NodesUpdate e ?cur w1 = (upd, w2)" by fastforce
    have h2: "hist w2 = hist w @ [EvGetNode (node_Name n) (error_of res), EvUpdateNode ?cur (error_of upd)]"
      using node_calls_hist(2) [of e ?cur w1] h1 by (simp add: u)
    show ?thesis
    proof (cases upd)
      case (Inr x)
      then have run: "annotate_loop e n (a # attempts) w = ((None, n), w2)"
        using \<open>res = Inr cur\<close> by (simp add: g u)
      have "annotated_last (node_Name n) w w2"
        unfolding annotated_last_def using h2 an nm Inr
        by (intro exI [of _ "[EvGetNode (node_Name n) (error_of res)]"] exI [of _ ?cur]) (simp add: error_of_def)
      then show ?thesis
        unfolding run annotate_ok_def fst_conv snd_conv emits_append [OF h2] effort_append [OF h2]
        using nm backoff_nonneg [OF Cons.prems] by (simp add: cordon_event_def time_slept_def)
    next
      case (Inl er)
      show ?thesis
      proof (cases "a < maxRetries \<and> is_conflict er")
        case True
        let ?v = "Sleep (a * 100 * Millisecond) w2"
        have run: "annotate_loop e n (a # attempts) w = annotate_loop e n attempts ?v"
          using True Inl \<open>res = Inr cur\<close> by (simp add: g u)
        show ?thesis
          unfolding run
          by (rule annotate_ok_retry [OF Cons.IH [of ?v],
                where evs = "[EvGetNode (node_Name n) (error_of res), EvUpdateNode ?cur (error_of upd)]"])
             (use Cons.prems h2 True nm in \<open>simp_all add: cordon_event_def time_slept_def\<close>)
      next
        case False
        have run: "snd (annotate_loop e n (a # attempts) w) = snd (uncordonAndRemoveAnnotation e ?cur w2)"
          "fst (fst (annotate_loop e n (a # attempts) w)) \<noteq> None"
          using False Inl \<open>res = Inr cur\<close> by (auto simp: g u case_prod_beta Let_def)
        show ?thesis
          by (rule annotate_ok_rollback [OF assms(1) Cons.prems nm h2 _ _ _ run])
             (use nm in \<open>simp_all add: cordon_event_def time_slept_def\<close>)
      qed
    qed
  qed
qed

lemma cordonAndAnnotateNode_emits:
  assumes "api_names e"
  shows "emits (cordon_event (node_Name n)) w (snd (cordonAndAnnotateNode e n w)) \<and>
    effort 20 (600 * Millisecond) w (snd (cordonAndAnnotateNode e n w)) \<and>
    (fst (fst (cordonAndAnnotateNode e n w)) = None \<longrightarrow>
      (\<exists>evs x. hist (snd (cordonAndAnnotateNode e n w)) =
           hist w @ EvCordon (node_Name n) True None # evs @ [EvUpdateNode x None] \<and>
         has_annotation x \<and> node_Name x = node_Name n \<and>
         list_all (\<lambda>ev. \<forall>m c err. ev \<noteq> EvCordon m c err) evs))"
proof -
  obtain err n' w1 where c: "run_cordon e n True w = ((err, n'), w1)" by (metis prod.exhaust)
  have h: "hist w1 = hist w @ [EvCordon (node_Name n) True (fst (env_RunCordonOrUncordon e (hist w) n True))]"
    using run_cordon_hist [of e n True w] by (simp add: c)
  have nm: "node_Name n' = node_Name n" using run_cordon_node(1) [of e n True w] by (simp add: c)
  have one: "emits (cordon_event (node_Name n)) w w1" "effort 1 0 w w1"
    by (simp_all add: emits_append [OF h] effort_append [OF h] cordon_event_def time_slept_def)
  show ?thesis
  proof (cases err)
    case (Some er)
    then have "cordonAndAnnotateNode e n w = ((Some (Errorf (''failed to cordon node: '' @ error_msg er)), n'), w1)"
      by (simp add: cordonAndAnnotateNode_def CordonUncordonNode_Some c)
    then show ?thesis using one effort_mono [OF one(2), of 20 "600 * Millisecond"] by simp
  next
    case None
    then have run: "cordonAndAnnotateNode e n w = annotate_loop e n' [1, 2, 3] w1"
      by (simp add: cordonAndAnnotateNode_def CordonUncordonNode_Some c attempts_list)
    have ok: "annotate_ok (node_Name n) [1, 2, 3] (annotate_loop e n' [1, 2, 3] w1) w1"
      using annotate_loop_ok [OF assms, of "[1, 2, 3]" n' w1] nm by (simp del: annotate_loop.simps)
    have "backoff [1, 2, 3] = 300 * Millisecond" by (simp add: backoff_def)
    with ok have a: "emits (cordon_event (node_Name n)) w1 (snd (annotate_loop e n' [1, 2, 3] w1))"
      "effort 19 (600 * Millisecond) w1 (snd (annotate_loop e n' [1, 2, 3] w1))"
      "fst (fst (annotate_loop e n' [1, 2, 3] w1)) = None \<longrightarrow>
         annotated_last (node_Name n) w1 (snd (annotate_loop e n' [1, 2, 3] w1))"
      by (simp_all add: annotate_ok_def del: annotate_loop.simps)
    have "effort 20 (600 * Millisecond) w (snd (annotate_loop e n' [1, 2, 3] w1))"
      using effort_trans [OF one(2) a(2)] by simp
    moreover have "hist w1 = hist w @ [EvCordon (node_Name n) True None]"
      using run_cordon_error [of e n True w] None h by (simp add: c)
    ultimately show ?thesis
      unfolding run using a(3) emits_trans [OF one(1) a(1)] unfolding annotated_last_def by auto
  qed
qed

section \<open>Attempts on a node\<close>

text \<open>
  The calls of an attempt to cordon or to uncordon a node, and how they look if the attempt succeeds: the
  node is cordoned and the annotation is stored last, or the annotation is removed and the node then
  uncordoned.
\<close>

definition attempt_event :: "bool \<Rightarrow> string \<Rightarrow> event \<Rightarrow> bool" where
  "attempt_event cordonNode name ev \<longleftrightarrow> (if cordonNode then cordon_event name ev else uncordon_event name ev)"

definition attempt_succeeded :: "bool \<Rightarrow> string \<Rightarrow> event list \<Rightarrow> bool" where
  "attempt_succeeded cordonNode name evs \<longleftrightarrow>
     (if cordonNode then \<exists>mid n. evs = EvCordon name True None # mid @ [EvUpdateNode n None] \<and> has_annotation n
      else \<exists>pre n. evs = pre @ [EvUpdateNode n None, EvCordon name False None] \<and> \<not> has_annotation n)"

definition attempted :: "bool \<Rightarrow> string \<Rightarrow> (error option \<times> Node) \<times> 'a world_scheme \<Rightarrow> 'a world_scheme \<Rightarrow> event list \<Rightarrow> bool" where
  "attempted cordonNode name res w evs \<longleftrightarrow> hist (snd res) = hist w @ evs \<and> list_all (attempt_event cordonNode name) evs \<and>
     (fst (fst res) = None \<longleftrightarrow> attempt_succeeded cordonNode name evs)"

text \<open>The last call stored the annotation: not so if cordoning fails, since the node is then uncordoned.\<close>

definition ends_stored :: "event list \<Rightarrow> bool" where
  "ends_stored h \<longleftrightarrow> h \<noteq> [] \<and> (\<exists>n. last h = EvUpdateNode n None \<and> has_annotation n)"

lemma uncordon_not_stored:
  assumes "emits (uncordon_event name) w w'" and "\<not> ends_stored (hist w)"
  shows "\<not> ends_stored (hist w')"
proof -
  obtain evs where evs: "hist w' = hist w @ evs" "list_all (uncordon_event name) evs" using assms(1) by (auto simp: emits_def)
  show ?thesis
  proof (cases evs rule: rev_cases)
    case (snoc es ev)
    then have "last (hist w') = ev" "uncordon_event name ev" using evs by simp_all
    then show ?thesis by (auto simp: uncordon_event_def ends_stored_def)
  qed (use evs assms(2) in simp)
qed

lemma annotate_loop_failure:
  assumes "api_names e" and "\<not> ends_stored (hist w)" and "fst (fst (annotate_loop e n attempts w)) \<noteq> None"
  shows "\<not> ends_stored (hist (snd (annotate_loop e n attempts w)))"
  using assms(2,3)
proof (induction attempts arbitrary: w)
  case (Cons a attempts)
  note undo = uncordon_not_stored [OF conjunct1 [OF uncordonAndRemoveAnnotation_events [OF assms(1)]]]
  obtain res w1 where g: "NodesGet e (node_Name n) w = (res, w1)" by fastforce
  have h1: "hist w1 = hist w @ [EvGetNode (node_Name n) (error_of res)]"
    using node_calls_hist(1) [of e "node_Name n" w] by (simp add: g)
  show ?case
  proof (cases res)
    case (Inl er)
    moreover have "\<not> ends_stored (hist w1)" "\<not> ends_stored (hist (Sleep d w1))" for d using h1 by (simp_all add: ends_stored_def)
    ultimately show ?thesis
      using Cons.IH [of "Sleep (a * 100 * Millisecond) w1"] Cons.prems(2) undo [of w1]
      by (cases "a < maxRetries") (simp_all add: g case_prod_beta Let_def)
  next
    case (Inr cur)
    let ?cur = "cur\<lparr>node_Annotations := (node_Annotations cur)(EarlyCordonAnnotationKey \<mapsto> EarlyCordonAnnotationValue)\<rparr>"
    obtain upd w2 where u: "NodesUpdate e ?cur w1 = (upd, w2)" by fastforce
    have h2: "hist w2 = hist w @ [EvGetNode (node_Name n) (error_of res), EvUpdateNode ?cur (error_of upd)]"
      using node_calls_hist(2) [of e ?cur w1] h1 by (simp add: u)
    show ?thesis
    proof (cases upd)
      case Up: (Inl er)
      moreover have "\<not> ends_stored (hist w2)" "\<not> ends_stored (hist (Sleep d w2))" for d
        using h2 Up by (simp_all add: ends_stored_def error_of_def)
      ultimately show ?thesis
        using Cons.IH [of "Sleep (a * 100 * Millisecond) w2"] Cons.prems(2) undo [of w2] Inr
        by (cases "a < maxRetries \<and> is_conflict er") (simp add: g u case_prod_beta Let_def, auto simp: g u case_prod_beta Let_def)
    qed (use Cons.prems(2) Inr in \<open>simp add: g u\<close>)
  qed
qed simp

lemma cordonAndAnnotateNode_attempted:
  assumes "api_names e"
  shows "\<exists>evs. attempted True (node_Name n) (cordonAndAnnotateNode e n w) w evs"
proof -
  let ?res = "cordonAndAnnotateNode e n w"
  note ok = cordonAndAnnotateNode_emits [OF assms, of n w]
  then obtain evs where evs: "hist (snd ?res) = hist w @ evs" "list_all (cordon_event (node_Name n)) evs" by (auto simp: emits_def)
  have "\<not> attempt_succeeded True (node_Name n) evs" if err: "fst (fst ?res) \<noteq> None"
  proof
    assume s: "attempt_succeeded True (node_Name n) evs"
    obtain er n' w1 where c: "run_cordon e n True w = ((er, n'), w1)" by (metis prod.exhaust)
    have h: "hist w1 = hist w @ [EvCordon (node_Name n) True (fst (env_RunCordonOrUncordon e (hist w) n True))]"
      using run_cordon_hist [of e n True w] by (simp add: c)
    show False
    proof (cases er)
      case None
      then have "?res = annotate_loop e n' [1, 2, 3] w1"
        by (simp add: cordonAndAnnotateNode_def CordonUncordonNode_Some c attempts_list)
      then have "\<not> ends_stored (hist (snd ?res))"
        using annotate_loop_failure [OF assms, of w1 n' "[1, 2, 3]"] err h
        by (simp add: ends_stored_def del: annotate_loop.simps)
      then show False using s evs(1) by (auto simp: attempt_succeeded_def ends_stored_def)
    next
      case (Some x)
      then have "snd ?res = w1" by (simp add: cordonAndAnnotateNode_def CordonUncordonNode_Some c)
      then show False using s evs(1) h by (auto simp: attempt_succeeded_def)
    qed
  qed
  moreover have "attempt_succeeded True (node_Name n) evs" if "fst (fst ?res) = None"
    using ok that evs(1) by (auto simp: attempt_succeeded_def)
  ultimately have "attempted True (node_Name n) ?res w evs"
    using evs unfolding attempted_def attempt_event_def list_all_iff by (cases "fst (fst ?res)") auto
  then show ?thesis by blast
qed

lemma remove_annotation_stores:
  "\<exists>evs. hist (snd (remove_annotation e name attempts w)) = hist w @ evs \<and> (\<forall>m c er. EvCordon m c er \<notin> set evs) \<and>
     (\<forall>n. fst (remove_annotation e name attempts w) = Inr (Some n) \<longrightarrow>
        (\<exists>pre x. evs = pre @ [EvUpdateNode x None] \<and> \<not> has_annotation x))"
proof (induction attempts arbitrary: w)
  case (Cons a attempts)
  obtain res w1 where g: "NodesGet e name w = (res, w1)" by fastforce
  have h1: "hist w1 = hist w @ [EvGetNode name (error_of res)]"
    using node_calls_hist(1) [of e name w] by (simp add: g)
  show ?case
  proof (cases res)
    case (Inr cur)
    let ?cur = "cur\<lparr>node_Annotations := (node_Annotations cur)(EarlyCordonAnnotationKey := None)\<rparr>"
    obtain upd w2 where u: "NodesUpdate e ?cur w1 = (upd, w2)" by fastforce
    have h2: "hist w2 = hist w @ [EvGetNode name (error_of res), EvUpdateNode ?cur (error_of upd)]"
      using node_calls_hist(2) [of e ?cur w1] h1 by (simp add: u)
    show ?thesis
    proof (cases "\<exists>er. upd = Inl er \<and> a < maxRetries \<and> is_conflict er")
      case True
      let ?v = "Sleep (a * 100 * Millisecond) w2"
      have "remove_annotation e name (a # attempts) w = remove_annotation e name attempts ?v" using True by (auto simp: g Inr u)
      then show ?thesis using Cons.IH [of ?v] h2 by fastforce
    next
      case False
      then have "snd (remove_annotation e name (a # attempts) w) = w2"
        "\<And>n. fst (remove_annotation e name (a # attempts) w) = Inr (Some n) \<Longrightarrow> error_of upd = None"
        by (auto simp: g Inr u error_of_def split: sum.splits)
      moreover have "\<not> has_annotation ?cur" by (simp add: has_annotation_def)
      ultimately show ?thesis using h2 by fastforce
    qed
  qed (use h1 in \<open>simp add: g\<close>)
qed simp

lemma uncordonAndRemoveAnnotation_attempted:
  assumes "api_names e" and "has_annotation n"
  shows "\<exists>evs. attempted False (node_Name n) (uncordonAndRemoveAnnotation e n w) w evs"
proof -
  let ?res = "uncordonAndRemoveAnnotation e n w"
  obtain out w1 where r: "remove_annotation e (node_Name n) [1, 2, 3] w = (out, w1)" by fastforce
  obtain evs where evs: "hist w1 = hist w @ evs" "\<forall>m c er. EvCordon m c er \<notin> set evs"
    "\<And>x. out = Inr (Some x) \<Longrightarrow> \<exists>pre y. evs = pre @ [EvUpdateNode y None] \<and> \<not> has_annotation y"
    using remove_annotation_stores [of e "node_Name n" "[1, 2, 3]" w] by (auto simp: r simp del: remove_annotation.simps)
  have only: "hist (snd ?res) = hist w @ es \<Longrightarrow> list_all (attempt_event False (node_Name n)) es" for es
    using uncordonAndRemoveAnnotation_events [OF assms(1), of n w] by (auto simp: emits_def attempt_event_def list_all_iff)
  show ?thesis
  proof (cases "\<exists>x. out = Inr (Some x)")
    case False
    then have "snd ?res = w1" "fst (fst ?res) \<noteq> None"
      using assms(2) by (auto simp: uncordonAndRemoveAnnotation_def attempts_list r CordonUncordonNode_None
          simp del: remove_annotation.simps split: sum.splits option.splits)
    then have "attempted False (node_Name n) ?res w evs"
      using evs(1,2) only [of evs] unfolding attempted_def attempt_succeeded_def by fastforce
    then show ?thesis by blast
  next
    case True
    then obtain x where x: "out = Inr (Some x)" by blast
    have name: "node_Name x = node_Name n"
      using remove_annotation_events [OF assms(1), of "[1, 2, 3]" "node_Name n" w] x by (simp add: r del: remove_annotation.simps)
    obtain er n' w2 where c: "run_cordon e x False w1 = ((er, n'), w2)" by (metis prod.exhaust)
    let ?cordon = "EvCordon (node_Name n) False (fst (env_RunCordonOrUncordon e (hist w1) x False))"
    have h: "hist w2 = hist w @ evs @ [?cordon]" using run_cordon_hist [of e x False w1] evs(1) name by (simp add: c)
    have er: "er = None \<longleftrightarrow> fst (env_RunCordonOrUncordon e (hist w1) x False) = None"
      using run_cordon_error [of e x False w1] by (simp add: c)
    have res: "snd ?res = w2" "fst (fst ?res) = None \<longleftrightarrow> er = None"
      using assms(2) by (simp_all add: uncordonAndRemoveAnnotation_def attempts_list r x CordonUncordonNode_Some c
          del: remove_annotation.simps split: option.splits)
    have "attempted False (node_Name n) ?res w (evs @ [?cordon])"
      using h res er evs(3) [OF x] only [of "evs @ [?cordon]"] unfolding attempted_def attempt_succeeded_def by auto
    then show ?thesis by blast
  qed
qed

section \<open>All nodes of the group\<close>

lemma write_node_related:
  assumes "list_all2 R ns0 ns" and "SelectNodeByInstanceID i ns = Some n"
    and "\<And>a. a \<in> set ns0 \<Longrightarrow> R a n \<Longrightarrow> R a n'"
  shows "list_all2 R ns0 (write_node i n' ns)"
  using assms
proof (induction ns0 ns rule: list_all2_induct)
  case (Cons a ns0 b ns)
  then show ?case by (cases "EqualFold i (GetNodeInstanceID (Some b))") auto
qed simp

text \<open>Nodes that differ only in schedulability give the same selection and the same drift.\<close>

lemma select_related:
  assumes "list_all2 R ns0 ns" and "\<And>a b. R a b \<Longrightarrow> same_object strict a b"
  shows "rel_option R (SelectNodeByInstanceID i ns0) (SelectNodeByInstanceID i ns)"
  using assms(1)
proof (induction ns0 ns rule: list_all2_induct)
  case (Cons a ns0 b ns)
  then have "GetNodeInstanceID (Some b) = GetNodeInstanceID (Some a)"
    using same_object_fields [OF assms(2)] by (simp add: GetNodeInstanceID_def)
  with Cons show ?case by simp
qed simp

lemmas select_same_object = select_related [where R = "same_object strict" and strict = strict for strict, simplified]

lemma select_same_object_Some:
  assumes "list_all2 (same_object strict) ns0 ns" and "SelectNodeByInstanceID i ns = Some n"
  shows "\<exists>n0. SelectNodeByInstanceID i ns0 = Some n0 \<and> same_object strict n0 n"
  using select_same_object [OF assms(1), of i] assms(2) by (auto simp: option_rel_Some2)

text \<open>A context that differs from \<open>r0\<close> only in schedulability of nodes and in what calls were made.\<close>

definition cordon_frame :: "bool \<Rightarrow> ctx \<Rightarrow> ctx \<Rightarrow> bool" where
  "cordon_frame strict r0 r \<longleftrightarrow> list_all2 (same_object strict) (ctx_nodes r0) (ctx_nodes r) \<and>
     ctx_Cloud r = (ctx_Cloud r0)\<lparr>cloud_ClusterNodes := ctx_nodes r\<rparr> \<and>
     ctx_RollingUpgrade r = ctx_RollingUpgrade r0"

lemma cordon_frame_drift:
  assumes "cordon_frame strict r0 r"
  shows "IsInstanceDrifted r i = IsInstanceDrifted r0 i"
proof -
  have cl: "ctx_Cloud r = (ctx_Cloud r0)\<lparr>cloud_ClusterNodes := ctx_nodes r\<rparr>"
    using assms unfolding cordon_frame_def by blast
  have c: "cloud_ScalingGroups (ctx_Cloud r) = cloud_ScalingGroups (ctx_Cloud r0)"
    "cloud_LaunchTemplates (ctx_Cloud r) = cloud_LaunchTemplates (ctx_Cloud r0)"
    using arg_cong [OF cl, of cloud_ScalingGroups] arg_cong [OF cl, of cloud_LaunchTemplates] by simp_all
  have ru: "ctx_RollingUpgrade r = ctx_RollingUpgrade r0"
    using assms unfolding cordon_frame_def by blast
  have sel: "rel_option (same_object strict) (SelectNodeByInstanceID j (ctx_nodes r0)) (SelectNodeByInstanceID j (ctx_nodes r))" for j
    using assms select_same_object unfolding cordon_frame_def by blast
  have "force_refresh r j = force_refresh r0 j" for j
    using sel [of j] same_object_fields [of strict]
    by (cases "SelectNodeByInstanceID j (ctx_nodes r0)"; cases "SelectNodeByInstanceID j (ctx_nodes r)")
       (auto simp: force_refresh_def ru)
  then show ?thesis by (simp only: IsInstanceDrifted_def c ru)
qed

lemma same_object_schedulable:
  "same_object strict a n \<Longrightarrow> \<not> node_Unschedulable n \<Longrightarrow> same_object False n n' \<Longrightarrow> same_object strict a n'"
  using same_object_trans [of False a n n'] by (auto simp: same_object_def)

lemma cordon_frame_refl: "cordon_frame strict r r"
  by (simp add: cordon_frame_def list_all2_refl)

lemma cordon_frame_write:
  assumes "cordon_frame strict r0 r" and "world.more r1 = world.more r"
    and "SelectNodeByInstanceID i (ctx_nodes r) = Some n" and "same_object False n n'"
    and "strict \<Longrightarrow> \<not> node_Unschedulable n"
  shows "cordon_frame strict r0
    (upd_cloud (\<lambda>c. c\<lparr>cloud_ClusterNodes := write_node i n' (cloud_ClusterNodes c)\<rparr>) r1)"
proof -
  have same: "same_object strict a n'" if "same_object strict a n" for a
    using that assms(4,5) same_object_schedulable [of strict a n n'] same_object_trans [of False a n n']
    by (cases strict) auto
  have "list_all2 (same_object strict) (ctx_nodes r0) (write_node i n' (ctx_nodes r))"
    using assms(1,3) same unfolding cordon_frame_def by (blast intro: write_node_related)
  moreover have ru: "ctx_RollingUpgrade r = ctx_RollingUpgrade r0" and
      cl: "ctx_Cloud r = (ctx_Cloud r0)\<lparr>cloud_ClusterNodes := ctx_nodes r\<rparr>"
    using assms(1) unfolding cordon_frame_def by blast+
  moreover have "(ctx_Cloud r)\<lparr>cloud_ClusterNodes := ns\<rparr> = (ctx_Cloud r0)\<lparr>cloud_ClusterNodes := ns\<rparr>" for ns
    using arg_cong [OF cl, of "\<lambda>c. c\<lparr>cloud_ClusterNodes := ns\<rparr>"] by simp
  ultimately show ?thesis
    unfolding cordon_frame_def using ctx_fields_of_more(1,2) [OF assms(2)] by simp
qed

text \<open>The nodes that a run of all nodes is about: those of instances of the group that are not terminating,
  drifted and schedulable when cordoning, annotated when uncordoning.\<close>

definition cordon_target :: "bool \<Rightarrow> ctx \<Rightarrow> Instance list \<Rightarrow> string \<Rightarrow> bool" where
  "cordon_target cordonNode r is name \<longleftrightarrow> (\<exists>i \<in> set is. \<exists>iid n. inst_InstanceId i = Some iid \<and> \<not> terminating i \<and>
     (cordonNode \<longrightarrow> IsInstanceDrifted r i = Some True) \<and> SelectNodeByInstanceID iid (ctx_nodes r) = Some n \<and>
     (if cordonNode then \<not> node_Unschedulable n else has_annotation n) \<and> node_Name n = name)"

text \<open>The node objects of all but the named nodes are as they were.\<close>

definition untouched :: "string set \<Rightarrow> ctx \<Rightarrow> ctx \<Rightarrow> bool" where
  "untouched names r0 r \<longleftrightarrow> list_all2 (\<lambda>a b. b = a \<or> node_Name a \<in> names \<and> node_Name b = node_Name a) (ctx_nodes r0) (ctx_nodes r)"

lemma untouched_refl: "untouched names r r"
  by (simp add: untouched_def list_all2_refl)

lemma cordon_one_node:
  assumes "api_names e" and "cordon_frame c r0 r" and "i \<in> set is" and "\<not> terminating i"
    and "c \<Longrightarrow> IsInstanceDrifted r i = Some True" and "inst_InstanceId i = Some iid"
    and "SelectNodeByInstanceID iid (ctx_nodes r) = Some n"
    and "if c then \<not> node_Unschedulable n \<and> res = cordonAndAnnotateNode e n r
         else has_annotation n \<and> res = uncordonAndRemoveAnnotation e n r"
    and "r' = upd_cloud (\<lambda>cl. cl\<lparr>cloud_ClusterNodes := write_node iid (snd (fst res)) (cloud_ClusterNodes cl)\<rparr>) (snd res)"
  shows "\<exists>evs. attempted c (node_Name n) res r evs" and "cordon_target c r0 is (node_Name n)" and "cordon_frame c r0 r'"
    and "untouched names r0 r \<Longrightarrow> untouched (insert (node_Name n) names) r0 r'"
proof -
  obtain n0 where n0: "SelectNodeByInstanceID iid (ctx_nodes r0) = Some n0" "same_object c n0 n"
    using assms(2,7) select_same_object_Some unfolding cordon_frame_def by blast
  show "cordon_target c r0 is (node_Name n)"
    using assms(3-8) n0 same_object_fields [OF n0(2)] cordon_frame_drift [OF assms(2)]
    by (auto simp: cordon_target_def has_annotation_def same_object_def split: if_splits)
  show "\<exists>evs. attempted c (node_Name n) res r evs"
    using assms(8) cordonAndAnnotateNode_attempted [OF assms(1)] uncordonAndRemoveAnnotation_attempted [OF assms(1)]
    by (cases c) auto
  have more: "world.more (snd res) = world.more r" and obj: "same_object False n (snd (fst res))"
    using assms(8) cordonAndAnnotateNode_object uncordonAndRemoveAnnotation_object by (auto split: if_splits)
  show "cordon_frame c r0 r'"
    unfolding assms(9) using assms(8) by (intro cordon_frame_write [OF assms(2) more assms(7) obj]) (auto split: if_splits)
  let ?P = "\<lambda>a b. b = a \<or> node_Name a \<in> insert (node_Name n) names \<and> node_Name b = node_Name a"
  assume "untouched names r0 r"
  then have "list_all2 ?P (ctx_nodes r0) (ctx_nodes r)"
    unfolding untouched_def by (rule list_all2_mono) auto
  then have "list_all2 ?P (ctx_nodes r0) (write_node iid (snd (fst res)) (ctx_nodes r))"
    by (rule write_node_related [OF _ assms(7)]) (use same_object_fields [OF obj] in auto)
  then show "untouched (insert (node_Name n) names) r0 r'"
    unfolding untouched_def assms(9) using ctx_fields_of_more(1) [OF more] by simp
qed

text \<open>A target of the start that is passed over later was attempted before.\<close>

lemma passed_over:
  assumes "cordon_frame c r0 r" and "untouched names r0 r" and "cordon_target c r0 [i] name"
    and "\<And>iid n. inst_InstanceId i = Some iid \<Longrightarrow> \<not> terminating i \<Longrightarrow> c \<longrightarrow> IsInstanceDrifted r i = Some True \<Longrightarrow>
      SelectNodeByInstanceID iid (ctx_nodes r) = Some n \<Longrightarrow> \<not> (if c then \<not> node_Unschedulable n else has_annotation n)"
  shows "name \<in> names"
proof -
  obtain iid n0 where t: "inst_InstanceId i = Some iid" "\<not> terminating i" "c \<longrightarrow> IsInstanceDrifted r0 i = Some True"
    "SelectNodeByInstanceID iid (ctx_nodes r0) = Some n0" "if c then \<not> node_Unschedulable n0 else has_annotation n0" "node_Name n0 = name"
    using assms(3) by (auto simp: cordon_target_def)
  let ?P = "\<lambda>a b. same_object c a b \<and> (b = a \<or> node_Name a \<in> names \<and> node_Name b = node_Name a)"
  have "list_all2 ?P (ctx_nodes r0) (ctx_nodes r)"
    using assms(1,2) unfolding cordon_frame_def untouched_def by (simp add: list_all2_conv_all_nth)
  then have "rel_option ?P (SelectNodeByInstanceID iid (ctx_nodes r0)) (SelectNodeByInstanceID iid (ctx_nodes r))"
    by (rule select_related) blast
  then obtain n where n: "SelectNodeByInstanceID iid (ctx_nodes r) = Some n" "same_object c n0 n" "n = n0 \<or> node_Name n0 \<in> names"
    using t(4) by (auto simp: option_rel_Some1)
  have "\<not> (if c then \<not> node_Unschedulable n else has_annotation n)"
    using assms(4) [OF t(1,2) _ n(1)] t(3) cordon_frame_drift [OF assms(1)] by simp
  then show ?thesis using n(2,3) t(5,6) same_object_fields [OF n(2)] by (auto simp: has_annotation_def split: if_splits)
qed

text \<open>
  A run over instances is a sequence of attempts: each on a target, and for each target one, if its node
  was not among those attempted before. The counts are those of attempts that succeeded and failed.
\<close>

definition attempts_run :: "bool \<Rightarrow> ctx \<Rightarrow> Instance list \<Rightarrow> (string \<times> event list) list \<Rightarrow> ctx \<Rightarrow> ctx \<Rightarrow> bool" where
  "attempts_run c r0 is attempts r r' \<longleftrightarrow> hist r' = hist r @ concat (map snd attempts) \<and> cordon_frame c r0 r' \<and>
     (\<forall>(name, evs) \<in> set attempts. cordon_target c r0 is name \<and> list_all (attempt_event c name) evs)"

definition succeeded :: "bool \<Rightarrow> (string \<times> event list) list \<Rightarrow> int" where
  "succeeded c attempts = int (length (filter (\<lambda>(name, evs). attempt_succeeded c name evs) attempts))"

lemma cordon_target_cons: "cordon_target c r (i # is) name \<longleftrightarrow> cordon_target c r [i] name \<or> cordon_target c r is name"
  by (auto simp: cordon_target_def)

lemma selected_target:
  assumes "cordon_frame c r0 r" and "inst_InstanceId i = Some iid" and "SelectNodeByInstanceID iid (ctx_nodes r) = Some n"
    and "cordon_target c r0 [i] name"
  shows "name = node_Name n"
proof -
  obtain n0 where "SelectNodeByInstanceID iid (ctx_nodes r0) = Some n0" "node_Name n0 = name"
    using assms(2,4) by (auto simp: cordon_target_def)
  moreover obtain m where "SelectNodeByInstanceID iid (ctx_nodes r0) = Some m" "same_object c m n"
    using assms(1,3) select_same_object_Some unfolding cordon_frame_def by blast
  ultimately show ?thesis using same_object_fields [of c m n] by simp
qed

lemma cordon_instances_act:
  assumes "inst_InstanceId i = Some iid" and "SelectNodeByInstanceID iid (ctx_nodes r) = Some n" and "\<not> terminating i"
    and "c \<longrightarrow> IsInstanceDrifted r i = Some True" and "if c then \<not> node_Unschedulable n else has_annotation n"
    and "res = (if c then cordonAndAnnotateNode e n r else uncordonAndRemoveAnnotation e n r)"
    and "r2 = upd_cloud (\<lambda>cl. cl\<lparr>cloud_ClusterNodes := write_node iid (snd (fst res)) (cloud_ClusterNodes cl)\<rparr>) (snd res)"
  shows "cordon_instances e c (i # js) p k r = cordon_instances e c js
    (if fst (fst res) \<noteq> None then p else p + 1) (if fst (fst res) \<noteq> None then k + 1 else k) r2"
  using assms by (simp add: terminating_def case_prod_beta Let_def split: if_splits)

lemma cordon_instances_attempts:
  assumes "api_names e" and "cordon_instances e c js p k r = Some ((p', k'), r')"
    and "cordon_frame c r0 r" and "untouched names r0 r" and "set js \<subseteq> set is"
  shows "\<exists>attempts. attempts_run c r0 is attempts r r' \<and> p' = p + succeeded c attempts \<and>
    k' = k + (int (length attempts) - succeeded c attempts) \<and>
    (\<forall>name. cordon_target c r0 js name \<longrightarrow> name \<in> names \<union> fst ` set attempts)"
  using assms(2-5)
proof (induction js arbitrary: p k r names)
  case Nil
  then show ?case by (intro exI [of _ "[]"]) (simp add: attempts_run_def succeeded_def cordon_target_def)
next
  case (Cons i js)
  define node where "node = Option.bind (inst_InstanceId i) (\<lambda>iid. SelectNodeByInstanceID iid (ctx_nodes r))"
  let ?act = "\<lambda>n. \<not> terminating i \<and> (c \<longrightarrow> IsInstanceDrifted r i = Some True) \<and>
    (if c then \<not> node_Unschedulable n else has_annotation n)"
  show ?case
  proof (cases "\<exists>n. node = Some n \<and> ?act n")
    case False
    have "cordon_instances e c js p k r = Some ((p', k'), r')"
      using Cons.prems(1) False unfolding node_def terminating_def
      by (auto simp: Option.bind_eq_Some_conv split: if_splits option.splits)
    from Cons.IH [OF this Cons.prems(2,3)] Cons.prems(4)
    obtain attempts where at: "attempts_run c r0 is attempts r r'" "p' = p + succeeded c attempts"
      "k' = k + (int (length attempts) - succeeded c attempts)"
      "\<forall>name. cordon_target c r0 js name \<longrightarrow> name \<in> names \<union> fst ` set attempts" by auto
    have "name \<in> names" if "cordon_target c r0 [i] name" for name
      using passed_over [OF Cons.prems(2,3) that] False unfolding node_def by (auto simp: Option.bind_eq_Some_conv)
    then show ?thesis using at cordon_target_cons [of c r0 i js] by blast
  next
    case True
    then obtain n iid where n: "inst_InstanceId i = Some iid" "SelectNodeByInstanceID iid (ctx_nodes r) = Some n" "?act n"
      unfolding node_def Option.bind_eq_Some_conv by blast
    define res where "res = (if c then cordonAndAnnotateNode e n r else uncordonAndRemoveAnnotation e n r)"
    define r2 where "r2 = upd_cloud (\<lambda>cl. cl\<lparr>cloud_ClusterNodes := write_node iid (snd (fst res)) (cloud_ClusterNodes cl)\<rparr>) (snd res)"
    have "i \<in> set is" using Cons.prems(4) by simp
    note one = cordon_one_node [OF assms(1) Cons.prems(2) this _ _ n(1,2) _ r2_def]
    have act: "if c then \<not> node_Unschedulable n \<and> res = cordonAndAnnotateNode e n r
        else has_annotation n \<and> res = uncordonAndRemoveAnnotation e n r" using n(3) by (simp add: res_def)
    obtain evs where evs: "attempted c (node_Name n) res r evs" using one(1) act n(3) by blast
    have rest: "cordon_target c r0 is (node_Name n)" "cordon_frame c r0 r2" "untouched (insert (node_Name n) names) r0 r2"
      using one(2-4) act n(3) Cons.prems(3) by blast+
    have "cordon_instances e c js (if fst (fst res) \<noteq> None then p else p + 1)
        (if fst (fst res) \<noteq> None then k + 1 else k) r2 = Some ((p', k'), r')"
      using Cons.prems(1) cordon_instances_act [OF n(1,2) _ _ _ res_def r2_def] n(3) by simp
    from Cons.IH [OF this rest(2,3)] Cons.prems(4)
    obtain attempts where at: "attempts_run c r0 is attempts r2 r'"
      "p' = (if fst (fst res) \<noteq> None then p else p + 1) + succeeded c attempts"
      "k' = (if fst (fst res) \<noteq> None then k + 1 else k) + (int (length attempts) - succeeded c attempts)"
      "\<forall>name. cordon_target c r0 js name \<longrightarrow> name \<in> insert (node_Name n) names \<union> fst ` set attempts" by auto
    let ?as = "(node_Name n, evs) # attempts"
    have "attempts_run c r0 is ?as r r'"
      using at(1) evs rest(1) by (simp add: attempts_run_def attempted_def r2_def)
    moreover have "p' = p + succeeded c ?as" "k' = k + (int (length ?as) - succeeded c ?as)"
      using at(2,3) evs by (auto simp: succeeded_def attempted_def)
    moreover have "\<forall>name. cordon_target c r0 (i # js) name \<longrightarrow> name \<in> names \<union> fst ` set ?as"
      using at(4) cordon_target_cons [of c r0 i js] selected_target [OF Cons.prems(2) n(1,2)] by auto
    ultimately show ?thesis by blast
  qed
qed


lemma cordon_instances_total:
  assumes "group_complete (ctx_group r0)" and "cordon_frame c r0 r" and "api_names e"
    and "\<forall>i \<in> set js. inst_InstanceId i \<noteq> None"
  shows "\<exists>p' k' r'. cordon_instances e c js p k r = Some ((p', k'), r')"
  using assms(2,4)
proof (induction js arbitrary: p k r)
  case (Cons i js)
  obtain iid where iid: "inst_InstanceId i = Some iid" using Cons.prems(2) by auto
  have d: "IsInstanceDrifted r i = Some (drifted r0 i)"
    using cordon_frame_drift [OF Cons.prems(1)] IsInstanceDrifted_eq [OF assms(1)] by simp
  have skip: "\<exists>p' k' r'. cordon_instances e c js p k r = Some ((p', k'), r')"
    using Cons.IH [OF Cons.prems(1)] Cons.prems(2) by simp
  show ?case
  proof (cases "\<exists>n. \<not> terminating i \<and> (c \<longrightarrow> drifted r0 i) \<and> SelectNodeByInstanceID iid (ctx_nodes r) = Some n \<and>
      (if c then \<not> node_Unschedulable n else has_annotation n)")
    case False
    then show ?thesis
      using skip by (cases "SelectNodeByInstanceID iid (ctx_nodes r)") (auto simp: terminating_def d iid)
  next
    case True
    then obtain n where n: "\<not> terminating i" "c \<longrightarrow> drifted r0 i" "SelectNodeByInstanceID iid (ctx_nodes r) = Some n"
        "if c then \<not> node_Unschedulable n else has_annotation n" by blast
    define res where "res = (if c then cordonAndAnnotateNode e n r else uncordonAndRemoveAnnotation e n r)"
    define r2 where "r2 = upd_cloud (\<lambda>cl. cl\<lparr>cloud_ClusterNodes :=
        write_node iid (snd (fst res)) (cloud_ClusterNodes cl)\<rparr>) (snd res)"
    have fr: "cordon_frame c r0 r2"
      using n d by (intro cordon_one_node(3) [OF assms(3) Cons.prems(1) list.set_intros(1) [of i "[]"] _ _ iid n(3) _ r2_def])
        (auto simp: res_def split: if_splits)
    have "cordon_instances e c (i # js) p k r = cordon_instances e c js
        (if fst (fst res) \<noteq> None then p else p + 1) (if fst (fst res) \<noteq> None then k + 1 else k) r2"
      using n d by (intro cordon_instances_act [OF iid n(3,1) _ n(4) res_def r2_def]) simp
    then show ?thesis using Cons.IH [OF fr] Cons.prems(2) by simp
  qed
qed simp

section \<open>Properties\<close>

text \<open>C24: early cordoning of one node. It talks about that node only, makes at most 20 calls and sleeps at
  most 600 milliseconds, whatever the API answers. If it reports success, the node was cordoned
  and the last call stored the annotation that marks it as cordoned by the controller, with no
  uncordon in between.\<close>

theorem cordonAndAnnotateNode_correct:
  assumes "api_names e" and "cordonAndAnnotateNode e n w = ((err, n'), w')"
  shows "(\<exists>evs. hist w' = hist w @ evs \<and> length evs \<le> 20 \<and> time_slept evs \<le> 600 * Millisecond \<and>
      list_all (cordon_event (node_Name n)) evs) \<and>
    (err = None \<longrightarrow> (\<exists>evs x. hist w' = hist w @ EvCordon (node_Name n) True None # evs @ [EvUpdateNode x None] \<and>
       has_annotation x \<and> node_Name x = node_Name n \<and>
       list_all (\<lambda>ev. \<forall>m c er. ev \<noteq> EvCordon m c er) evs))"
  using cordonAndAnnotateNode_emits [OF assms(1), of n w]
  unfolding assms(2) emits_def effort_def by auto

definition sample_api_env :: env where
  "sample_api_env = sample_cloud_env\<lparr>env_NodesGet := \<lambda>h name. Inr (sample_node name ''i1'')\<rparr>"

lemma sample_api_names: "api_names sample_api_env"
  by (simp add: api_names_def sample_api_env_def sample_cloud_env_def sample_env_def sample_node_def)

theorem cordonAndAnnotateNode_correct_witness:
  "\<exists>evs x. hist (snd (cordonAndAnnotateNode sample_api_env (sample_node ''n1'' ''i1'') sample_ctx)) =
     EvCordon ''n1'' True None # evs @ [EvUpdateNode x None] \<and> has_annotation x"
proof -
  let ?n = "sample_node ''n1'' ''i1''"
  obtain err n' w' where run: "cordonAndAnnotateNode sample_api_env ?n sample_ctx = ((err, n'), w')"
    by (metis prod.exhaust)
  have "fst (fst (cordonAndAnnotateNode sample_api_env ?n sample_ctx)) = None"
    by (simp add: cordonAndAnnotateNode_def CordonUncordonNode_Some run_cordon_def attempts_list
        sample_api_env_def sample_cloud_env_def sample_env_def NodesGet_def NodesUpdate_def Let_def)
  then have "err = None" by (simp add: run)
  moreover have "node_Name ?n = ''n1''" "hist sample_ctx = []" by (simp_all add: sample_node_def sample_ctx_def)
  ultimately show ?thesis
    using cordonAndAnnotateNode_correct [OF sample_api_names run] by (auto simp: run)
qed

text \<open>C25: cordoning or uncordoning all nodes of the group returns for a well-formed group. What it does is a
  sequence of attempts, one after the other: only on nodes of instances of the group that are not
  terminating and, when cordoning, are drifted and were schedulable, when uncordoning, carry the
  controller's annotation; and on each of these nodes at least one. All calls of an attempt are about its
  node, and when uncordoning none of them cordons or annotates it. It reports success exactly if
  there was nothing to do or at least one attempt succeeded: cordoned its node and stored the annotation
  last, or removed the annotation and then uncordoned its node.\<close>

theorem CordonUncordonAllNodes_correct:
  assumes "api_names e" and "group_complete (ctx_group r)"
    and "\<forall>i \<in> set (group_Instances (ctx_group r)). inst_InstanceId i \<noteq> None"
  shows "\<exists>ok err r' attempts. CordonUncordonAllNodes e cordonNode r = Some ((ok, err), r') \<and>
    hist r' = hist r @ concat (map snd attempts) \<and>
    (\<forall>(name, evs) \<in> set attempts. cordon_target cordonNode r (group_Instances (ctx_group r)) name \<and>
       list_all (attempt_event cordonNode name) evs) \<and>
    (\<forall>name. cordon_target cordonNode r (group_Instances (ctx_group r)) name \<longrightarrow> name \<in> fst ` set attempts) \<and>
    (ok \<longleftrightarrow> attempts = [] \<or> (\<exists>(name, evs) \<in> set attempts. attempt_succeeded cordonNode name evs)) \<and> (ok \<longleftrightarrow> err = None)"
proof -
  let ?is = "group_Instances (ctx_group r)"
  obtain p k r' where run: "cordon_instances e cordonNode ?is 0 0 r = Some ((p, k), r')"
    using cordon_instances_total [OF assms(2) cordon_frame_refl assms(1,3)] by blast
  obtain attempts where at: "attempts_run cordonNode r ?is attempts r r'" "p = succeeded cordonNode attempts"
    "k = int (length attempts) - succeeded cordonNode attempts"
    "\<forall>name. cordon_target cordonNode r ?is name \<longrightarrow> name \<in> fst ` set attempts"
    using cordon_instances_attempts [OF assms(1) run cordon_frame_refl untouched_refl [of "{}"] subset_refl] by auto
  let ?succ = "\<lambda>(name, evs). attempt_succeeded cordonNode name evs"
  have "succeeded cordonNode attempts \<le> int (length attempts)" "0 \<le> succeeded cordonNode attempts"
    by (simp_all add: succeeded_def length_filter_le)
  then have "p > 0 \<or> k = 0 \<longleftrightarrow> attempts = [] \<or> 0 < succeeded cordonNode attempts"
    unfolding at(2,3) by (metis length_0_conv less_le of_nat_0 of_nat_eq_0_iff right_minus_eq)
  moreover have "0 < succeeded cordonNode attempts \<longleftrightarrow> (\<exists>a \<in> set attempts. ?succ a)"
    by (auto simp: succeeded_def filter_empty_conv)
  moreover have "\<exists>ok err. CordonUncordonAllNodes e cordonNode r = Some ((ok, err), r') \<and> (ok \<longleftrightarrow> err = None) \<and> (ok \<longleftrightarrow> p > 0 \<or> k = 0)"
    using \<open>succeeded cordonNode attempts \<le> int (length attempts)\<close> at(3) by (simp add: CordonUncordonAllNodes_def run)
  ultimately have "\<exists>ok err. CordonUncordonAllNodes e cordonNode r = Some ((ok, err), r') \<and> (ok \<longleftrightarrow> err = None) \<and>
      (ok \<longleftrightarrow> attempts = [] \<or> (\<exists>a \<in> set attempts. ?succ a))" by simp
  with at(1,4) show ?thesis unfolding attempts_run_def by blast
qed

theorem CordonUncordonAllNodes_correct_witness:
  "\<exists>err r' name. CordonUncordonAllNodes sample_api_env True sample_ctx = Some ((True, err), r') \<and>
     EvCordon name True None \<in> set (hist r') \<and> cordon_target True sample_ctx (group_Instances (ctx_group sample_ctx)) name"
proof -
  let ?is = "group_Instances (ctx_group sample_ctx)"
  have "\<forall>i \<in> set ?is. inst_InstanceId i \<noteq> None"
    by (simp add: sample_defs ScalingGroupName_def)
  from CordonUncordonAllNodes_correct [OF sample_api_names sample_candidate(1) this, of True]
  obtain ok err r' attempts where run: "CordonUncordonAllNodes sample_api_env True sample_ctx = Some ((ok, err), r')"
    "hist r' = concat (map snd attempts)"
    "\<forall>(name, evs) \<in> set attempts. cordon_target True sample_ctx ?is name \<and> list_all (attempt_event True name) evs"
    "\<forall>name. cordon_target True sample_ctx ?is name \<longrightarrow> name \<in> fst ` set attempts"
    "ok \<longleftrightarrow> attempts = [] \<or> (\<exists>(name, evs) \<in> set attempts. attempt_succeeded True name evs)"
    by (auto simp: sample_ctx_def)
  have i1: "sample_instance ''i1'' ''a'' ''old'' \<in> set ?is" "inst_InstanceId (sample_instance ''i1'' ''a'' ''old'') = Some ''i1''"
    by (simp_all add: sample_defs ScalingGroupName_def)
  have "IsInstanceDrifted sample_ctx (sample_instance ''i1'' ''a'' ''old'') = Some True"
    "\<not> terminating (sample_instance ''i1'' ''a'' ''old'')"
    using sample_candidate(3) IsInstanceDrifted_eq [OF sample_candidate(1)] by (simp_all add: candidate_def drifted_def)
  moreover have "SelectNodeByInstanceID ''i1'' (ctx_nodes sample_ctx) = Some (sample_node ''n1'' ''i1'')"
    by (simp add: sample_ctx_def sample_node_def GetNodeInstanceID_def EqualFold_def fold_char_def)
  ultimately have "cordon_target True sample_ctx ?is ''n1''"
    using i1 unfolding cordon_target_def by (force simp: sample_node_def)
  then have "attempts \<noteq> []" using run(4) by force
  moreover have ok
    using run(1) by (simp add: CordonUncordonAllNodes_def sample_defs ScalingGroupName_def TerminatingInstanceStates_def EqualFold_def
        fold_char_def IsInstanceDrifted_def force_refresh_def IsForceRefresh_def log_event_def cordonAndAnnotateNode_def CordonUncordonNode_Some run_cordon_def attempts_list
        sample_api_env_def sample_cloud_env_def sample_env_def NodesGet_def NodesUpdate_def Let_def GetNodeInstanceID_def)
  ultimately obtain name evs where a: "(name, evs) \<in> set attempts" "attempt_succeeded True name evs" using run(5) by auto
  then have "EvCordon name True None \<in> set evs" by (auto simp: attempt_succeeded_def)
  then have "EvCordon name True None \<in> set (hist r')" using a(1) run(2) by force
  then show ?thesis using run(1,3) a(1) \<open>ok\<close> by auto
qed

end
