(* ===== verification/Script_Runner.thy ===== *)
theory Script_Runner
  imports Upgrade_Context
begin

text \<open>
  \<^verbatim>\<open>controllers/script_runner.go\<close>: the four lifecycle scripts of an upgrade. Running a shell is
  the environment's \<open>env_Exec\<close>, which gets the script and the variables added to the process
  environment. Shown: an empty script runs nothing and succeeds, any other script is run exactly
  once with the variables of its target, and its exit status is the result.
\<close>

record ScriptTarget =
  target_InstanceID :: string
  target_NodeName :: string
  target_UpgradeObject :: RollingUpgrade

definition getEnv :: "ScriptTarget \<Rightarrow> string list" where
  "getEnv target =
     [''ASG_NAME'' @ ''='' @ ScalingGroupName (target_UpgradeObject target),
      ''INSTANCE_ID'' @ ''='' @ target_InstanceID target,
      ''INSTANCE_NAME'' @ ''='' @ target_NodeName target]"

definition runScript ::
  "env \<Rightarrow> string \<Rightarrow> ScriptTarget \<Rightarrow> 'a world_scheme \<Rightarrow> error option \<times> 'a world_scheme" where
  "runScript e script target w =
     (let err = env_Exec e (hist w) script (getEnv target)
      in (err, log_event (EvExec script (getEnv target) err) w))"

definition PostTerminate :: "env \<Rightarrow> ScriptTarget \<Rightarrow> 'a world_scheme \<Rightarrow> error option \<times> 'a world_scheme" where
  "PostTerminate e target w =
     (let script = PostTerminateScript (target_UpgradeObject target)
      in if script = '''' then (None, w) else runScript e script target w)"

definition PreDrain :: "env \<Rightarrow> ScriptTarget \<Rightarrow> 'a world_scheme \<Rightarrow> error option \<times> 'a world_scheme" where
  "PreDrain e target w =
     (let script = PreDrainScript (target_UpgradeObject target)
      in if script = '''' then (None, w) else runScript e script target w)"

definition PostDrain :: "env \<Rightarrow> ScriptTarget \<Rightarrow> 'a world_scheme \<Rightarrow> error option \<times> 'a world_scheme" where
  "PostDrain e target w =
     (let script = PostDrainScript (target_UpgradeObject target)
      in if script = '''' then (None, w) else runScript e script target w)"

definition PostWait :: "env \<Rightarrow> ScriptTarget \<Rightarrow> 'a world_scheme \<Rightarrow> error option \<times> 'a world_scheme" where
  "PostWait e target w =
     (let script = PostWaitScript (target_UpgradeObject target)
      in if script = '''' then (None, w) else runScript e script target w)"

section \<open>One contract for the four scripts\<close>

text \<open>
  \<open>script_stage\<close> is what the callers rely on: a stage runs the script it selects from the upgrade
  object, at most once, and changes nothing but the history.
\<close>

locale script_stage =
  fixes script_of :: "RollingUpgrade \<Rightarrow> string"
    and stage :: "env \<Rightarrow> ScriptTarget \<Rightarrow> ctx \<Rightarrow> error option \<times> ctx"
  assumes stage_eq: "stage e t w =
     (if script_of (target_UpgradeObject t) = '''' then (None, w)
      else runScript e (script_of (target_UpgradeObject t)) t w)"
begin

lemma stage_no_script:
  "script_of (target_UpgradeObject t) = '''' \<Longrightarrow> stage e t w = (None, w)"
  by (simp add: stage_eq)

lemma stage_hist:
  "hist (snd (stage e t w)) = hist w @
     (if script_of (target_UpgradeObject t) = '''' then []
      else [EvExec (script_of (target_UpgradeObject t)) (getEnv t) (fst (stage e t w))])"
  by (simp add: stage_eq runScript_def Let_def)

lemma stage_more: "world.more (snd (stage e t w)) = world.more w"
  by (simp add: stage_eq runScript_def Let_def)

lemma stage_registry: "registry (snd (stage e t w)) = registry w"
  by (simp add: stage_eq runScript_def Let_def)

end

interpretation preDrain: script_stage PreDrainScript PreDrain
  by unfold_locales (simp add: PreDrain_def Let_def)

interpretation postDrain: script_stage PostDrainScript PostDrain
  by unfold_locales (simp add: PostDrain_def Let_def)

interpretation postWait: script_stage PostWaitScript PostWait
  by unfold_locales (simp add: PostWait_def Let_def)

interpretation postTerminate: script_stage PostTerminateScript PostTerminate
  by unfold_locales (simp add: PostTerminate_def Let_def)

lemmas script_hist [hist_simps] =
  preDrain.stage_hist postDrain.stage_hist postWait.stage_hist postTerminate.stage_hist

lemmas script_more [simp, frame_simps] =
  preDrain.stage_more postDrain.stage_more postWait.stage_more postTerminate.stage_more

end
