(* ===== verification/Drain_Pool.thy ===== *)
theory Drain_Pool
  imports Early_Cordon Script_Runner
begin

text \<open>
  The drain goroutines of \<open>ReplaceNodeBatch\<close> in \<^verbatim>\<open>controllers/upgrade.go\<close> as an interleaved system. A
  goroutine is a \<open>drain_job\<close>; \<open>job_step\<close> runs it to its next blocking or shared point: one step per
  stage (pre-drain script, drain, post-drain script, post-wait script, the deferred \<^verbatim>\<open>Done\<close>). An
  error is sent on an unbuffered channel, so the goroutine blocks in \<open>Sending\<close> until \<open>receive\<close>
  takes the error, and then continues after the send. The relation \<open>pool_step\<close> has all steps of
  all goroutines, receives, and the start of new goroutines.

  Shown: the wait group's counter is the number of unfinished goroutines in every reachable state
  (so it never becomes negative, on which Go would panic); and goroutines that finish without an
  error having been received have run all their stages successfully, with a successful drain
  unless drain failures are ignored.
\<close>

section \<open>Definitions\<close>

abbreviation upd_pool :: "(DrainManager \<Rightarrow> DrainManager) \<Rightarrow> ctx \<Rightarrow> ctx" where
  "upd_pool f r \<equiv> r\<lparr>ctx_DrainManager := f (ctx_DrainManager r)\<rparr>"

abbreviation jobs :: "ctx \<Rightarrow> drain_job list" where
  "jobs r \<equiv> dm_jobs (ctx_DrainManager r)"

abbreviation set_pc :: "nat \<Rightarrow> drain_pc \<Rightarrow> ctx \<Rightarrow> ctx" where
  "set_pc i pc r \<equiv> upd_pool (\<lambda>d. d\<lparr>dm_jobs := (dm_jobs d)[i := (dm_jobs d ! i)\<lparr>job_pc := pc\<rparr>]\<rparr>) r"

definition job_target :: "drain_job \<Rightarrow> ScriptTarget" where
  "job_target j = \<lparr>target_InstanceID = job_InstanceID j, target_NodeName = job_NodeName j,
     target_UpgradeObject = job_UpgradeObject j\<rparr>"

text \<open>\<^verbatim>\<open>r.NodeStep\<close> on the maps the goroutines share.\<close>

definition job_NodeStep :: "env \<Rightarrow> drain_job \<Rightarrow> RollingUpgradeStep \<Rightarrow> ctx \<Rightarrow> ctx" where
  "job_NodeStep e j stepName r =
     (let ((inP, steps), r1) =
            NodeStep e (dm_InProcessingNodes (ctx_DrainManager r)) (dm_NodeSteps (ctx_DrainManager r))
              (spec_AsgName (ru_Spec (job_UpgradeObject j))) (job_NodeName j) stepName r
      in upd_pool (\<lambda>d. d\<lparr>dm_InProcessingNodes := inP, dm_NodeSteps := steps\<rparr>) r1)"

definition after_script :: "string \<Rightarrow> drain_job \<Rightarrow> error option \<Rightarrow> drain_pc \<Rightarrow> drain_pc" where
  "after_script what j err next =
     (case err of
        None \<Rightarrow> next
      | Some er \<Rightarrow> Sending (Errorf (what @ '' failed: instanceID - '' @ job_InstanceID j @ '', '' @ error_msg er)) next)"

definition drain_stage :: "env \<Rightarrow> drain_job \<Rightarrow> ctx \<Rightarrow> drain_pc \<times> ctx" where
  "drain_stage e j r =
     (case SelectNodeByInstanceID (job_InstanceID j) (dm_ClusterNodes (ctx_DrainManager r)) of
        None \<Rightarrow> (AtPostDrain, r)
      | Some node \<Rightarrow>
         (let r1 = job_NodeStep e j NodeRotationDrain r;
              ((err, node'), r2) = DrainNode e (Some node) (PostDrainDelaySeconds (job_UpgradeObject j))
                                     (job_DrainTimeout j) (Some ()) r1;
              r3 = (case node' of None \<Rightarrow> r2
                    | Some n \<Rightarrow> upd_pool (\<lambda>d. d\<lparr>dm_ClusterNodes :=
                                   write_node (job_InstanceID j) n (dm_ClusterNodes d)\<rparr>) r2)
          in (case err of
                None \<Rightarrow> (AtPostDrain, r3)
              | Some er \<Rightarrow>
                 if \<not> job_IgnoreDrainFailures j then
                   (let (_, r4) = TagEC2instances e [job_InstanceID j] instanceStateTagKey failedDrainTagValue r3
                    in (Sending (Errorf (''DrainNode failed: instanceID - '' @ job_InstanceID j @ '', '' @
                           error_msg er)) AtReturn, r4))
                 else (AtPostDrain, r3))))"

text \<open>One step of goroutine \<open>i\<close>; \<open>None\<close> when there is no such goroutine or it cannot move by itself.\<close>

definition job_step :: "env \<Rightarrow> nat \<Rightarrow> ctx \<Rightarrow> ctx option" where
  "job_step e i r =
     (if i < length (jobs r) then
        (let j = jobs r ! i in
         case job_pc j of
           AtPreDrain \<Rightarrow>
             (let r1 = job_NodeStep e j NodeRotationPredrainScript r;
                  (err, r2) = PreDrain e (job_target j) r1
              in Some (set_pc i (after_script ''PreDrain'' j err AtDrain) r2))
         | AtDrain \<Rightarrow> (let (pc, r1) = drain_stage e j r in Some (set_pc i pc r1))
         | AtPostDrain \<Rightarrow>
             (let r1 = job_NodeStep e j NodeRotationPostdrainScript r;
                  (err, r2) = PostDrain e (job_target j) r1
              in Some (set_pc i (after_script ''PostDrain'' j err AtPostWait) r2))
         | AtPostWait \<Rightarrow>
             (let r1 = job_NodeStep e j NodeRotationPostWait r;
                  (err, r2) = PostWait e (job_target j) r1
              in Some (set_pc i (after_script ''PostWait'' j err AtReturn) r2))
         | AtReturn \<Rightarrow>
             Some (set_pc i Finished (upd_pool (\<lambda>d. d\<lparr>dm_DrainGroup := dm_DrainGroup d - 1\<rparr>) r))
         | Sending _ _ \<Rightarrow> None
         | Finished \<Rightarrow> None)
      else None)"

definition receive :: "nat \<Rightarrow> ctx \<Rightarrow> (error \<times> ctx) option" where
  "receive i r =
     (if i < length (jobs r) then
        (case job_pc (jobs r ! i) of Sending er next \<Rightarrow> Some (er, set_pc i next r) | _ \<Rightarrow> None)
      else None)"

text \<open>Starting the goroutine for one target; the resource's settings take precedence.\<close>

definition spawn_drain :: "Instance \<Rightarrow> ctx \<Rightarrow> ctx" where
  "spawn_drain target r =
     (let instanceID = StringValue (inst_InstanceId target) in
      case SelectNodeByInstanceID instanceID (ctx_nodes r) of
        None \<Rightarrow> r
      | Some node \<Rightarrow>
         (let ru = ctx_RollingUpgrade r;
              drainTimeout = (case DrainTimeout ru of None \<Rightarrow> ctx_DrainTimeout r | Some t \<Rightarrow> t);
              ignoreDrainFailures = (case IsIgnoreDrainFailures ru of None \<Rightarrow> ctx_IgnoreDrainFailures r | Some b \<Rightarrow> b);
              job = \<lparr>job_InstanceID = instanceID, job_NodeName = node_Name node, job_UpgradeObject = ru,
                     job_DrainTimeout = drainTimeout, job_IgnoreDrainFailures = ignoreDrainFailures,
                     job_pc = AtPreDrain\<rparr>
          in upd_pool (\<lambda>d. d\<lparr>dm_DrainGroup := dm_DrainGroup d + 1, dm_jobs := dm_jobs d @ [job]\<rparr>) r))"

text \<open>
  All targets of a batch; the goroutines capture this call's cluster nodes and maps.
\<close>

definition spawn_drains :: "Instance list \<Rightarrow> in_processing \<Rightarrow> node_steps \<Rightarrow> ctx \<Rightarrow> ctx" where
  "spawn_drains batch inP steps r =
     fold spawn_drain batch
       (upd_pool (\<lambda>d. d\<lparr>dm_ClusterNodes := ctx_nodes r, dm_InProcessingNodes := inP, dm_NodeSteps := steps\<rparr>) r)"

text \<open>Some goroutines run: the schedule names which goroutine moves next; one that cannot is skipped.\<close>

fun run_jobs :: "env \<Rightarrow> nat list \<Rightarrow> ctx \<Rightarrow> ctx" where
  "run_jobs e [] r = r"
| "run_jobs e (i # is) r = run_jobs e is (case job_step e i r of None \<Rightarrow> r | Some r' \<Rightarrow> r')"

inductive pool_step :: "env \<Rightarrow> ctx \<Rightarrow> ctx \<Rightarrow> bool" for e where
  Run: "job_step e i r = Some r' \<Longrightarrow> pool_step e r r'"
| Receive: "receive i r = Some (er, r') \<Longrightarrow> pool_step e r r'"
| Spawn: "pool_step e r (spawn_drain target r)"

inductive_cases pool_stepE: "pool_step e r r'"

section \<open>Frames\<close>

lemmas NodeStep_ctx [simp, frame_simps] = ctx_fields_of_more [OF NodeStep_more]
lemmas script_ctx [simp, frame_simps] =
  ctx_fields_of_more [OF script_more(1)] ctx_fields_of_more [OF script_more(2)]
  ctx_fields_of_more [OF script_more(3)] ctx_fields_of_more [OF script_more(4)]
lemmas DrainNode_ctx [simp, frame_simps] = ctx_fields_of_more [OF DrainNode_more]
lemmas Tag_ctx [simp, frame_simps] = ctx_fields_of_more [OF aws_calls_more(1)]

lemma job_NodeStep_frame [simp, frame_simps]:
  "jobs (job_NodeStep e j st r) = jobs r"
  "dm_DrainGroup (ctx_DrainManager (job_NodeStep e j st r)) = dm_DrainGroup (ctx_DrainManager r)"
  "dm_ClusterNodes (ctx_DrainManager (job_NodeStep e j st r)) = dm_ClusterNodes (ctx_DrainManager r)"
  "ctx_Cloud (job_NodeStep e j st r) = ctx_Cloud r"
  "ctx_RollingUpgrade (job_NodeStep e j st r) = ctx_RollingUpgrade r"
  by (simp_all add: job_NodeStep_def Let_def case_prod_beta)

lemma job_NodeStep_hist: "\<exists>k. hist (job_NodeStep e j st r) = hist r @ replicate k EvNow"
  using NodeStep_hist by (simp add: job_NodeStep_def Let_def case_prod_beta)

lemma drain_stage_frame [simp, frame_simps]:
  "jobs (snd (drain_stage e j r)) = jobs r"
  "dm_DrainGroup (ctx_DrainManager (snd (drain_stage e j r))) = dm_DrainGroup (ctx_DrainManager r)"
  "ctx_Cloud (snd (drain_stage e j r)) = ctx_Cloud r"
  "ctx_RollingUpgrade (snd (drain_stage e j r)) = ctx_RollingUpgrade r"
  by (simp_all add: drain_stage_def Let_def case_prod_beta split: option.splits)

text \<open>Where a goroutine that is blocked sending an error may continue.\<close>

definition resume_ok :: "drain_pc \<Rightarrow> bool" where
  "resume_ok pc \<longleftrightarrow> (\<forall>er next. pc = Sending er next \<longrightarrow> next \<in> {AtDrain, AtPostWait, AtReturn})"

lemma drain_stage_pc: "fst (drain_stage e j r) \<noteq> Finished \<and> resume_ok (fst (drain_stage e j r))"
  by (simp add: drain_stage_def resume_ok_def Let_def case_prod_beta split: option.splits)

lemma after_script_pc:
  "next \<in> {AtDrain, AtPostWait, AtReturn} \<Longrightarrow>
   after_script what j err next \<noteq> Finished \<and> resume_ok (after_script what j err next)"
  by (auto simp: after_script_def resume_ok_def split: option.splits)

text \<open>A step moves the program counter of its goroutine; the counter follows the deferred \<^verbatim>\<open>Done\<close>.\<close>

lemma job_step_jobs:
  assumes "job_step e i r = Some r'"
  shows "i < length (jobs r) \<and> job_pc (jobs r ! i) \<noteq> Finished \<and>
    (\<exists>pc. jobs r' = (jobs r)[i := (jobs r ! i)\<lparr>job_pc := pc\<rparr>] \<and> resume_ok pc \<and>
       (if job_pc (jobs r ! i) = AtReturn
        then pc = Finished \<and> dm_DrainGroup (ctx_DrainManager r') = dm_DrainGroup (ctx_DrainManager r) - 1
        else pc \<noteq> Finished \<and> dm_DrainGroup (ctx_DrainManager r') = dm_DrainGroup (ctx_DrainManager r)))"
proof (cases "job_pc (jobs r ! i)")
  case AtDrain
  then show ?thesis
    using assms drain_stage_pc [of e "jobs r ! i" r]
    by (auto simp: job_step_def Let_def case_prod_beta split: if_splits)
next
  case AtReturn
  then show ?thesis
    using assms by (auto simp: job_step_def Let_def resume_ok_def split: if_splits)
qed (use assms in \<open>auto simp: job_step_def Let_def case_prod_beta after_script_pc split: if_splits\<close>)

lemma job_step_frame:
  "job_step e i r = Some r' \<Longrightarrow> ctx_Cloud r' = ctx_Cloud r \<and> ctx_RollingUpgrade r' = ctx_RollingUpgrade r"
  by (auto simp: job_step_def Let_def case_prod_beta split: if_splits drain_pc.splits)

section \<open>The wait group counts the unfinished goroutines\<close>

definition active :: "ctx \<Rightarrow> nat" where
  "active r = length (filter (\<lambda>j. job_pc j \<noteq> Finished) (jobs r))"

definition pool_ok :: "ctx \<Rightarrow> bool" where
  "pool_ok r \<longleftrightarrow> dm_DrainGroup (ctx_DrainManager r) = int (active r)"

lemma length_filter_update:
  assumes "i < length xs"
  shows "length (filter P (xs[i := x])) + (if P (xs ! i) then 1 else 0) =
         length (filter P xs) + (if P x then 1 else 0)"
proof -
  have "length (filter P xs) =
      length (filter P (take i xs)) + (if P (xs ! i) then 1 else 0) + length (filter P (drop (Suc i) xs))"
    by (subst id_take_nth_drop [OF assms]) simp
  then show ?thesis by (simp add: upd_conv_take_nth_drop [OF assms])
qed

lemma job_step_pool_ok:
  assumes "pool_ok r" and "job_step e i r = Some r'"
  shows "pool_ok r'"
proof -
  obtain pc where i: "i < length (jobs r)" "job_pc (jobs r ! i) \<noteq> Finished"
    and pc: "jobs r' = (jobs r)[i := (jobs r ! i)\<lparr>job_pc := pc\<rparr>]"
      "if job_pc (jobs r ! i) = AtReturn
        then pc = Finished \<and> dm_DrainGroup (ctx_DrainManager r') = dm_DrainGroup (ctx_DrainManager r) - 1
        else pc \<noteq> Finished \<and> dm_DrainGroup (ctx_DrainManager r') = dm_DrainGroup (ctx_DrainManager r)"
    using job_step_jobs [OF assms(2)] by blast
  have "active r' + 1 = active r + (if pc \<noteq> Finished then 1 else 0)"
    using length_filter_update [OF i(1), of "\<lambda>j. job_pc j \<noteq> Finished" "(jobs r ! i)\<lparr>job_pc := pc\<rparr>"] i(2)
    by (simp add: active_def pc(1))
  then show ?thesis
    using assms(1) pc(2) by (auto simp: pool_ok_def split: if_splits)
qed

lemma receive_pool_ok:
  assumes "pool_ok r" and "receive i r = Some (er, r')"
    and "\<forall>er next. job_pc (jobs r ! i) = Sending er next \<longrightarrow> next \<noteq> Finished"
  shows "pool_ok r'"
proof -
  obtain nxt where i: "i < length (jobs r)" and nxt: "job_pc (jobs r ! i) = Sending er nxt" "r' = set_pc i nxt r"
    using assms(2) by (auto simp: receive_def split: if_splits drain_pc.splits)
  have "active r' = active r"
    using length_filter_update [OF i, of "\<lambda>j. job_pc j \<noteq> Finished" "(jobs r ! i)\<lparr>job_pc := nxt\<rparr>"] assms(3) nxt
    by (simp add: active_def)
  with assms(1) nxt show ?thesis by (simp add: pool_ok_def)
qed

text \<open>No goroutine is blocked sending right before its last instruction.\<close>

definition sends_ok :: "ctx \<Rightarrow> bool" where
  "sends_ok r \<longleftrightarrow> (\<forall>j \<in> set (jobs r). resume_ok (job_pc j))"

lemma sends_ok_update:
  "sends_ok r \<Longrightarrow> jobs r' = (jobs r)[i := (jobs r ! i)\<lparr>job_pc := pc\<rparr>] \<Longrightarrow> resume_ok pc \<Longrightarrow> sends_ok r'"
  using set_update_subset_insert [of "jobs r" i "(jobs r ! i)\<lparr>job_pc := pc\<rparr>"] by (auto simp: sends_ok_def)

lemma job_step_sends_ok: "sends_ok r \<Longrightarrow> job_step e i r = Some r' \<Longrightarrow> sends_ok r'"
  using job_step_jobs sends_ok_update by metis

lemma receive_sends_ok:
  assumes "sends_ok r" and "receive i r = Some (er, r')"
  shows "sends_ok r'"
proof -
  obtain nxt where i: "i < length (jobs r)" and nxt: "job_pc (jobs r ! i) = Sending er nxt" "r' = set_pc i nxt r"
    using assms(2) by (auto simp: receive_def split: if_splits drain_pc.splits)
  then have "nxt \<in> {AtDrain, AtPostWait, AtReturn}"
    using assms(1) nth_mem [OF i] unfolding sends_ok_def resume_ok_def by blast
  then have "resume_ok nxt" by (auto simp: resume_ok_def)
  then show ?thesis
    using sends_ok_update [OF assms(1), of r' i nxt] nxt(2) by simp
qed

lemma spawn_drain_pool:
  "pool_ok r \<Longrightarrow> pool_ok (spawn_drain t r)" "sends_ok r \<Longrightarrow> sends_ok (spawn_drain t r)"
  by (auto simp: spawn_drain_def pool_ok_def active_def sends_ok_def resume_ok_def Let_def split: option.splits)

interpretation drains: invariant_system
  "\<lambda>r. ctx_DrainManager r = NewDrainManager" "pool_step e" "\<lambda>r. pool_ok r \<and> sends_ok r" for e
proof unfold_locales
  fix r :: ctx assume "ctx_DrainManager r = NewDrainManager"
  then show "pool_ok r \<and> sends_ok r" by (simp add: pool_ok_def active_def sends_ok_def NewDrainManager_def)
next
  fix r r' :: ctx assume inv: "pool_ok r \<and> sends_ok r" and step: "pool_step e r r'"
  from step show "pool_ok r' \<and> sends_ok r'"
  proof (cases rule: pool_step.cases)
    case (Run i)
    with inv show ?thesis using job_step_pool_ok job_step_sends_ok by blast
  next
    case (Receive i er)
    then have "i < length (jobs r)" by (auto simp: receive_def split: if_splits)
    then have "\<forall>er next. job_pc (jobs r ! i) = Sending er next \<longrightarrow> next \<noteq> Finished"
      using inv nth_mem unfolding sends_ok_def resume_ok_def by fastforce
    with inv Receive show ?thesis using receive_pool_ok receive_sends_ok by blast
  next
    case (Spawn t)
    with inv show ?thesis by (simp add: spawn_drain_pool)
  qed
qed

section \<open>Goroutines that finish without an error\<close>

definition script_ok :: "event list \<Rightarrow> string \<Rightarrow> ScriptTarget \<Rightarrow> bool" where
  "script_ok h script t \<longleftrightarrow> script = '''' \<or> EvExec script (getEnv t) None \<in> set h"

context script_stage
begin

lemma stage_script_ok:
  "fst (stage e t w) = None \<Longrightarrow> k \<le> length (hist w) \<Longrightarrow>
   script_ok (drop k (hist (snd (stage e t w)))) (script_of (target_UpgradeObject t)) t"
  by (auto simp: script_ok_def stage_hist)

lemma stage_extends: "extends w (snd (stage e t w))"
  by (auto simp: extends_def stage_hist)

end

text \<open>
  \<open>drain_tried\<close>: the node was cordoned and drained successfully; or failures are ignored, and the cordon
  failed or the drain after it did. \<open>drained\<close>: so it is for the node, or there is no node for the instance. \<open>job_ok\<close>: the stages the goroutine has passed were successful; nothing
  is said of a goroutine that is blocked sending an error.
\<close>

definition drain_tried :: "bool \<Rightarrow> string \<Rightarrow> duration \<Rightarrow> event list \<Rightarrow> bool" where
  "drain_tried ignoring name d h \<longleftrightarrow>
     EvCordon name True None \<in> set h \<and> EvDrain name d None \<in> set h \<or>
     ignoring \<and> ((\<exists>er. EvCordon name True (Some er) \<in> set h) \<or>
       EvCordon name True None \<in> set h \<and> (\<exists>er. EvDrain name d (Some er) \<in> set h))"

lemma drain_tried_mono: "drain_tried b name d h \<Longrightarrow> set h \<subseteq> set h' \<Longrightarrow> drain_tried b name d h'"
  unfolding drain_tried_def by blast

definition drained :: "Node list \<Rightarrow> event list \<Rightarrow> drain_job \<Rightarrow> bool" where
  "drained nodes h j \<longleftrightarrow> SelectNodeByInstanceID (job_InstanceID j) nodes = None \<or>
     drain_tried (job_IgnoreDrainFailures j) (job_NodeName j) (wrap64 (job_DrainTimeout j * Second)) h"

fun pc_rank :: "drain_pc \<Rightarrow> nat" where
  "pc_rank AtPreDrain = 0" | "pc_rank AtDrain = 1" | "pc_rank AtPostDrain = 2"
| "pc_rank AtPostWait = 3" | "pc_rank AtReturn = 4" | "pc_rank Finished = 4" | "pc_rank (Sending _ _) = 0"

definition job_ok :: "Node list \<Rightarrow> event list \<Rightarrow> drain_job \<Rightarrow> bool" where
  "job_ok nodes h j \<longleftrightarrow>
     (1 \<le> pc_rank (job_pc j) \<longrightarrow> script_ok h (PreDrainScript (job_UpgradeObject j)) (job_target j)) \<and>
     (2 \<le> pc_rank (job_pc j) \<longrightarrow> drained nodes h j) \<and>
     (3 \<le> pc_rank (job_pc j) \<longrightarrow> script_ok h (PostDrainScript (job_UpgradeObject j)) (job_target j)) \<and>
     (4 \<le> pc_rank (job_pc j) \<longrightarrow> script_ok h (PostWaitScript (job_UpgradeObject j)) (job_target j))"

definition named_ok :: "Node list \<Rightarrow> drain_job \<Rightarrow> bool" where
  "named_ok nodes j \<longleftrightarrow> (\<forall>n. SelectNodeByInstanceID (job_InstanceID j) nodes = Some n \<longrightarrow> node_Name n = job_NodeName j)"

lemma job_ok_mono: "job_ok nodes h j \<Longrightarrow> set h \<subseteq> set h' \<Longrightarrow> job_ok nodes h' j"
  by (auto simp: job_ok_def script_ok_def drained_def intro: drain_tried_mono)

lemma job_target_pc [simp]: "job_target (j\<lparr>job_pc := pc\<rparr>) = job_target j"
  by (simp add: job_target_def)

lemma target_job [simp]: "target_UpgradeObject (job_target j) = job_UpgradeObject j"
  by (simp add: job_target_def)

lemma job_NodeStep_extends: "extends r (job_NodeStep e j st r)"
  using job_NodeStep_hist [of e j st r] by (auto simp: extends_def)

lemma extends_set: "extends w w' \<Longrightarrow> set (drop k (hist w)) \<subseteq> set (drop k (hist w'))"
  by (auto simp: extends_def)

lemma extends_length: "extends w w' \<Longrightarrow> length (hist w) \<le> length (hist w')"
  by (auto simp: extends_def)

lemma DrainNode_extends: "extends w (snd (DrainNode e (Some n) d t (Some ()) w))"
  using DrainNode_events [of e n d t w] by (auto simp: extends_def)

lemma DrainNode_object:
  "\<exists>n'. snd (fst (DrainNode e (Some n) d t (Some ()) w)) = Some n' \<and> same_object False n n'"
  using run_cordon_object [of e n True w]
  by (auto simp: DrainNode_def Let_def case_prod_beta same_object_def split: option.splits)

lemma drain_stage_result:
  assumes "list_all2 (same_object False) nodes (dm_ClusterNodes (ctx_DrainManager r))" and "named_ok nodes j"
    and "k \<le> length (hist r)"
  shows "extends r (snd (drain_stage e j r)) \<and>
    list_all2 (same_object False) nodes (dm_ClusterNodes (ctx_DrainManager (snd (drain_stage e j r)))) \<and>
    (fst (drain_stage e j r) = AtPostDrain \<and> drained nodes (drop k (hist (snd (drain_stage e j r)))) j \<or>
     (\<exists>er next. fst (drain_stage e j r) = Sending er next))"
proof (cases "SelectNodeByInstanceID (job_InstanceID j) (dm_ClusterNodes (ctx_DrainManager r))")
  case None
  then have "SelectNodeByInstanceID (job_InstanceID j) nodes = None"
    using select_same_object [OF assms(1), of "job_InstanceID j"] by (auto simp: option_rel_Some1)
  with None assms(1) show ?thesis by (simp add: drain_stage_def drained_def)
next
  case (Some n)
  obtain n0 where n0: "SelectNodeByInstanceID (job_InstanceID j) nodes = Some n0" "same_object False n0 n"
    using select_same_object_Some [OF assms(1) Some] by blast
  have nm: "node_Name n = job_NodeName j"
    using same_object_fields [OF n0(2)] assms(2) n0(1) by (simp add: named_ok_def)
  define r1 where "r1 = job_NodeStep e j NodeRotationDrain r"
  obtain err n' r2 where d: "DrainNode e (Some n) (PostDrainDelaySeconds (job_UpgradeObject j)) (job_DrainTimeout j) (Some ()) r1
      = ((err, Some n'), r2)" and n': "same_object False n n'"
    using DrainNode_object by (metis prod.exhaust_sel)
  have x1: "extends r r1" unfolding r1_def by (rule job_NodeStep_extends)
  have x2: "extends r1 r2" using DrainNode_extends [of r1] d by (metis snd_conv)
  have ev: "err = None \<or> job_IgnoreDrainFailures j \<Longrightarrow> drained nodes (drop k (hist r2)) j"
    using DrainNode_events [of e n "PostDrainDelaySeconds (job_UpgradeObject j)" "job_DrainTimeout j" r1] nm
      extends_length [OF x1] assms(3) by (auto simp: d drained_def drain_tried_def split: if_splits)
  define r3 where "r3 = upd_pool (\<lambda>d. d\<lparr>dm_ClusterNodes := write_node (job_InstanceID j) n' (dm_ClusterNodes d)\<rparr>) r2"
  have r2: "dm_ClusterNodes (ctx_DrainManager r2) = dm_ClusterNodes (ctx_DrainManager r)"
    by (metis DrainNode_ctx(3) d job_NodeStep_frame(3) r1_def snd_conv)
  have nodes: "list_all2 (same_object False) nodes (dm_ClusterNodes (ctx_DrainManager r3))"
    using write_node_related [OF assms(1) Some, of n'] same_object_trans [OF _ n'] by (simp add: r3_def r2)
  have h3: "hist r3 = hist r2" by (simp add: r3_def)
  have run: "drain_stage e j r = (case err of None \<Rightarrow> (AtPostDrain, r3)
     | Some er \<Rightarrow> if \<not> job_IgnoreDrainFailures j then
          (Sending (Errorf (''DrainNode failed: instanceID - '' @ job_InstanceID j @ '', '' @ error_msg er)) AtReturn,
           snd (TagEC2instances e [job_InstanceID j] instanceStateTagKey failedDrainTagValue r3))
        else (AtPostDrain, r3))"
    by (cases err) (simp_all add: drain_stage_def Some r1_def [symmetric] d r3_def Let_def case_prod_beta)
  have x3: "extends r r3" using extends_trans [OF x1 x2] by (simp add: extends_def h3)
  then have x4: "extends r (snd (TagEC2instances e [job_InstanceID j] instanceStateTagKey failedDrainTagValue r3))"
    by (auto simp: extends_def)
  show ?thesis
    using x3 x4 nodes ev by (cases err) (auto simp: run h3)
qed

text \<open>A script stage of a goroutine, for each of the scripts.\<close>

context script_stage
begin

lemma job_stage:
  assumes "k \<le> length (hist r)" and "w = snd (stage e (job_target j) (job_NodeStep e j st r))"
  shows "extends r w \<and> jobs w = jobs r \<and>
    dm_ClusterNodes (ctx_DrainManager w) = dm_ClusterNodes (ctx_DrainManager r) \<and>
    (fst (stage e (job_target j) (job_NodeStep e j st r)) = None \<longrightarrow>
       script_ok (drop k (hist w)) (script_of (job_UpgradeObject j)) (job_target j))"
proof -
  have "k \<le> length (hist (job_NodeStep e j st r))"
    using assms(1) extends_length [OF job_NodeStep_extends] le_trans by blast
  then show ?thesis
    using extends_trans [OF job_NodeStep_extends stage_extends] assms(2)
      stage_script_ok [of e "job_target j" "job_NodeStep e j st r" k]
    by (simp add: ctx_fields_of_more [OF stage_more])
qed

end

text \<open>
  \<open>pool_clean\<close>: the goroutines before index \<open>start\<close> have finished; of those from \<open>start\<close> on, which one
  call started, every one is \<open>job_ok\<close> by the events since event \<open>k\<close>; and the nodes they share still are the call's nodes up to
  schedulability.
\<close>

definition pool_clean :: "nat \<Rightarrow> nat \<Rightarrow> Node list \<Rightarrow> ctx \<Rightarrow> bool" where
  "pool_clean start k nodes r \<longleftrightarrow> k \<le> length (hist r) \<and>
     list_all2 (same_object False) nodes (dm_ClusterNodes (ctx_DrainManager r)) \<and>
     (\<forall>j \<in> set (take start (jobs r)). job_pc j = Finished) \<and>
     (\<forall>j \<in> set (drop start (jobs r)). named_ok nodes j \<and> job_ok nodes (drop k (hist r)) j)"

lemma job_ok_pc_update:
  assumes "job_ok nodes h j" and "set h \<subseteq> set h'"
    and "pc_rank pc \<le> pc_rank (job_pc j) \<or>
      (pc_rank pc = Suc (pc_rank (job_pc j)) \<and>
       (pc = AtDrain \<longrightarrow> script_ok h' (PreDrainScript (job_UpgradeObject j)) (job_target j)) \<and>
       (pc = AtPostDrain \<longrightarrow> drained nodes h' j) \<and>
       (pc = AtPostWait \<longrightarrow> script_ok h' (PostDrainScript (job_UpgradeObject j)) (job_target j)) \<and>
       (pc = AtReturn \<longrightarrow> script_ok h' (PostWaitScript (job_UpgradeObject j)) (job_target j)))"
    and "pc \<noteq> Finished \<or> job_pc j = AtReturn"
  shows "job_ok nodes h' (j\<lparr>job_pc := pc\<rparr>)"
  using job_ok_mono [OF assms(1,2)] assms(3,4)
  by (cases pc; cases "job_pc j") (auto simp: job_ok_def drained_def)

lemma job_step_one:
  assumes "job_step e i r = Some r'"
    and "list_all2 (same_object False) nodes (dm_ClusterNodes (ctx_DrainManager r))"
    and "named_ok nodes (jobs r ! i)" and "k \<le> length (hist r)"
  shows "extends r r' \<and> list_all2 (same_object False) nodes (dm_ClusterNodes (ctx_DrainManager r')) \<and>
    (\<exists>pc. jobs r' = (jobs r)[i := (jobs r ! i)\<lparr>job_pc := pc\<rparr>] \<and>
       (job_ok nodes (drop k (hist r)) (jobs r ! i) \<longrightarrow>
        job_ok nodes (drop k (hist r')) ((jobs r ! i)\<lparr>job_pc := pc\<rparr>)))"
proof -
  let ?j = "jobs r ! i"
  have i: "i < length (jobs r)" using job_step_jobs [OF assms(1)] by blast
  have ext: "job_ok nodes (drop k (hist r)) ?j \<Longrightarrow> extends r w \<Longrightarrow> job_ok nodes (drop k (hist w)) (?j\<lparr>job_pc := pc\<rparr>)"
    if "pc_rank pc \<le> pc_rank (job_pc ?j) \<or>
      (pc_rank pc = Suc (pc_rank (job_pc ?j)) \<and>
       (pc = AtDrain \<longrightarrow> script_ok (drop k (hist w)) (PreDrainScript (job_UpgradeObject ?j)) (job_target ?j)) \<and>
       (pc = AtPostDrain \<longrightarrow> drained nodes (drop k (hist w)) ?j) \<and>
       (pc = AtPostWait \<longrightarrow> script_ok (drop k (hist w)) (PostDrainScript (job_UpgradeObject ?j)) (job_target ?j)) \<and>
       (pc = AtReturn \<longrightarrow> script_ok (drop k (hist w)) (PostWaitScript (job_UpgradeObject ?j)) (job_target ?j)))"
      "pc \<noteq> Finished \<or> job_pc ?j = AtReturn" for w :: ctx and pc
    using job_ok_pc_update [OF _ extends_set that] by blast
  note step = assms(1) [unfolded job_step_def Let_def] i
  show ?thesis
  proof (cases "job_pc ?j")
    case AtPreDrain
    define r1 where "r1 = job_NodeStep e ?j NodeRotationPredrainScript r"
    define w where "w = snd (PreDrain e (job_target ?j) r1)"
    define pc where "pc = after_script ''PreDrain'' ?j (fst (PreDrain e (job_target ?j) r1)) AtDrain"
    have r': "r' = set_pc i pc w" using step AtPreDrain by (simp add: r1_def w_def pc_def case_prod_beta)
    note st = preDrain.job_stage [OF assms(4) w_def [unfolded r1_def], folded r1_def]
    have "job_ok nodes (drop k (hist r)) ?j \<Longrightarrow> job_ok nodes (drop k (hist w)) (?j\<lparr>job_pc := pc\<rparr>)"
      using st AtPreDrain by (intro ext) (auto simp: pc_def after_script_def split: option.splits)
    then show ?thesis using st assms(2) by (auto simp: r' extends_def)
  next
    case AtDrain
    define w where "w = snd (drain_stage e ?j r)"
    define pc where "pc = fst (drain_stage e ?j r)"
    have r': "r' = set_pc i pc w" using step AtDrain by (simp add: w_def pc_def case_prod_beta)
    note ds = drain_stage_result [OF assms(2,3,4), of e, folded w_def pc_def]
    have "job_ok nodes (drop k (hist r)) ?j \<Longrightarrow> job_ok nodes (drop k (hist w)) (?j\<lparr>job_pc := pc\<rparr>)"
      using ds AtDrain by (intro ext) auto
    then show ?thesis using ds by (auto simp: r' extends_def) (auto simp: w_def)
  next
    case AtPostDrain
    define r1 where "r1 = job_NodeStep e ?j NodeRotationPostdrainScript r"
    define w where "w = snd (PostDrain e (job_target ?j) r1)"
    define pc where "pc = after_script ''PostDrain'' ?j (fst (PostDrain e (job_target ?j) r1)) AtPostWait"
    have r': "r' = set_pc i pc w" using step AtPostDrain by (simp add: r1_def w_def pc_def case_prod_beta)
    note st = postDrain.job_stage [OF assms(4) w_def [unfolded r1_def], folded r1_def]
    have "job_ok nodes (drop k (hist r)) ?j \<Longrightarrow> job_ok nodes (drop k (hist w)) (?j\<lparr>job_pc := pc\<rparr>)"
      using st AtPostDrain by (intro ext) (auto simp: pc_def after_script_def split: option.splits)
    then show ?thesis using st assms(2) by (auto simp: r' extends_def)
  next
    case AtPostWait
    define r1 where "r1 = job_NodeStep e ?j NodeRotationPostWait r"
    define w where "w = snd (PostWait e (job_target ?j) r1)"
    define pc where "pc = after_script ''PostWait'' ?j (fst (PostWait e (job_target ?j) r1)) AtReturn"
    have r': "r' = set_pc i pc w" using step AtPostWait by (simp add: r1_def w_def pc_def case_prod_beta)
    note st = postWait.job_stage [OF assms(4) w_def [unfolded r1_def], folded r1_def]
    have "job_ok nodes (drop k (hist r)) ?j \<Longrightarrow> job_ok nodes (drop k (hist w)) (?j\<lparr>job_pc := pc\<rparr>)"
      using st AtPostWait by (intro ext) (auto simp: pc_def after_script_def split: option.splits)
    then show ?thesis using st assms(2) by (auto simp: r' extends_def)
  next
    case AtReturn
    then have r': "r' = set_pc i Finished (upd_pool (\<lambda>d. d\<lparr>dm_DrainGroup := dm_DrainGroup d - 1\<rparr>) r)"
      using step by simp
    have "job_ok nodes (drop k (hist r)) ?j \<Longrightarrow> job_ok nodes (drop k (hist r)) (?j\<lparr>job_pc := Finished\<rparr>)"
      using AtReturn by (intro ext) auto
    then show ?thesis using assms(2) by (auto simp: r' extends_def)
  qed (use step in simp_all)
qed

lemma pool_clean_step:
  assumes "pool_clean start k nodes r" and "job_step e i r = Some r'"
  shows "pool_clean start k nodes r' \<and> extends r r'"
proof -
  have i: "i < length (jobs r)" "job_pc (jobs r ! i) \<noteq> Finished" using job_step_jobs [OF assms(2)] by auto
  have "start \<le> i"
  proof (rule ccontr)
    assume "\<not> start \<le> i"
    then have "jobs r ! i \<in> set (take start (jobs r))"
      using nth_mem [of i "take start (jobs r)"] i(1) by simp
    with assms(1) i(2) show False by (simp add: pool_clean_def)
  qed
  then have "jobs r ! i \<in> set (drop start (jobs r))"
    using nth_mem [of "i - start" "drop start (jobs r)"] i(1) by simp
  then have j: "named_ok nodes (jobs r ! i)" "job_ok nodes (drop k (hist r)) (jobs r ! i)"
    using assms(1) by (auto simp: pool_clean_def)
  have "list_all2 (same_object False) nodes (dm_ClusterNodes (ctx_DrainManager r))"
    using assms(1) by (simp add: pool_clean_def)
  note one = job_step_one [OF assms(2) this j(1), of k]
  have kr: "k \<le> length (hist r)" using assms(1) by (simp add: pool_clean_def)
  with one have x: "extends r r'" and nodes: "list_all2 (same_object False) nodes (dm_ClusterNodes (ctx_DrainManager r'))"
    by blast+
  from one kr j(2) obtain pc where jobs: "jobs r' = (jobs r)[i := (jobs r ! i)\<lparr>job_pc := pc\<rparr>]"
    and ok: "job_ok nodes (drop k (hist r')) ((jobs r ! i)\<lparr>job_pc := pc\<rparr>)"
    by blast
  have "take start (jobs r') = take start (jobs r)" using \<open>start \<le> i\<close> by (simp add: jobs)
  moreover have "set (drop start (jobs r')) \<subseteq> insert ((jobs r ! i)\<lparr>job_pc := pc\<rparr>) (set (drop start (jobs r)))"
    using set_update_subset_insert [of "drop start (jobs r)"] by (simp add: jobs drop_update_swap \<open>start \<le> i\<close>)
  moreover have "named_ok nodes ((jobs r ! i)\<lparr>job_pc := pc\<rparr>)" using j(1) by (simp add: named_ok_def)
  ultimately have "named_ok nodes q \<and> job_ok nodes (drop k (hist r')) q" if "q \<in> set (drop start (jobs r'))" for q
    using that ok assms(1) job_ok_mono [OF _ extends_set [OF x]] unfolding pool_clean_def by blast
  with \<open>take start (jobs r') = take start (jobs r)\<close> show ?thesis
    using assms(1) nodes x extends_length [OF x] by (simp add: pool_clean_def)
qed

lemma run_jobs_clean:
  "pool_clean start k nodes r \<Longrightarrow> pool_clean start k nodes (run_jobs e sched r) \<and> extends r (run_jobs e sched r)"
proof (induction sched arbitrary: r)
  case (Cons i sched)
  show ?case
  proof (cases "job_step e i r")
    case (Some r')
    with pool_clean_step [OF Cons.prems Some] Cons.IH [of r'] show ?thesis
      using extends_trans by fastforce
  qed (use Cons in simp)
qed simp

lemma run_jobs_pool_ok: "pool_ok r \<Longrightarrow> pool_ok (run_jobs e sched r)"
  by (induction sched arbitrary: r) (auto simp: job_step_pool_ok split: option.splits)

lemma run_jobs_frame [simp, frame_simps]:
  "ctx_Cloud (run_jobs e sched r) = ctx_Cloud r" "ctx_RollingUpgrade (run_jobs e sched r) = ctx_RollingUpgrade r"
  by (induction sched arbitrary: r) (auto dest: job_step_frame split: option.splits)

lemma run_jobs_length: "length (jobs (run_jobs e sched r)) = length (jobs r)"
proof (induction sched arbitrary: r)
  case (Cons i sched)
  show ?case
    using Cons [of "case job_step e i r of None \<Rightarrow> r | Some r' \<Rightarrow> r'"] job_step_jobs [of e i r]
    by (auto split: option.splits)
qed simp

text \<open>What a goroutine keeps of its closure.\<close>

definition job_closure :: "drain_job \<Rightarrow> drain_job" where
  "job_closure j = j\<lparr>job_pc := AtPreDrain\<rparr>"

lemma run_jobs_closure: "map job_closure (jobs (run_jobs e sched r)) = map job_closure (jobs r)"
proof (induction sched arbitrary: r)
  case (Cons i sched)
  have "map job_closure (jobs r') = map job_closure (jobs r)" if "job_step e i r = Some r'" for r'
    using job_step_jobs [OF that] by (auto simp: map_update job_closure_def list_update_same_conv)
  with Cons show ?case by (auto split: option.splits)
qed simp

text \<open>The goroutine started for a target whose node is \<open>n\<close>.\<close>

definition drain_job_of :: "ctx \<Rightarrow> Instance \<Rightarrow> Node \<Rightarrow> drain_job" where
  "drain_job_of r t n =
     \<lparr>job_InstanceID = inst_id t, job_NodeName = node_Name n, job_UpgradeObject = ctx_RollingUpgrade r,
      job_DrainTimeout = (case DrainTimeout (ctx_RollingUpgrade r) of None \<Rightarrow> ctx_DrainTimeout r | Some t \<Rightarrow> t),
      job_IgnoreDrainFailures = (case IsIgnoreDrainFailures (ctx_RollingUpgrade r) of
         None \<Rightarrow> ctx_IgnoreDrainFailures r | Some b \<Rightarrow> b),
      job_pc = AtPreDrain\<rparr>"

fun new_jobs :: "ctx \<Rightarrow> Instance list \<Rightarrow> drain_job list" where
  "new_jobs r [] = []"
| "new_jobs r (t # ts) =
     (case SelectNodeByInstanceID (inst_id t) (ctx_nodes r) of
        None \<Rightarrow> new_jobs r ts | Some n \<Rightarrow> drain_job_of r t n # new_jobs r ts)"

lemma new_jobs_pool [simp]: "new_jobs (r\<lparr>ctx_DrainManager := d\<rparr>) ts = new_jobs r ts"
  by (induction ts) (auto simp: drain_job_of_def split: option.splits)

lemma spawn_drain_eq:
  "spawn_drain t r = upd_pool (\<lambda>d. d\<lparr>dm_DrainGroup := dm_DrainGroup d + int (length (new_jobs r [t])),
      dm_jobs := dm_jobs d @ new_jobs r [t]\<rparr>) r"
  by (simp add: spawn_drain_def drain_job_of_def Let_def split: option.splits)

lemma fold_spawn_drain:
  "fold spawn_drain ts r = upd_pool (\<lambda>d. d\<lparr>dm_DrainGroup := dm_DrainGroup d + int (length (new_jobs r ts)),
      dm_jobs := dm_jobs d @ new_jobs r ts\<rparr>) r"
  by (induction ts arbitrary: r) (simp_all add: spawn_drain_eq split: option.splits)

lemma new_jobs_mem:
  "j \<in> set (new_jobs r ts) \<longleftrightarrow>
     (\<exists>t \<in> set ts. \<exists>n. SelectNodeByInstanceID (inst_id t) (ctx_nodes r) = Some n \<and> j = drain_job_of r t n)"
  by (induction ts) (auto split: option.splits)

lemma spawn_drains_eq:
  "spawn_drains ts inP steps r = upd_pool (\<lambda>d. d\<lparr>dm_DrainGroup := dm_DrainGroup d + int (length (new_jobs r ts)),
      dm_jobs := dm_jobs d @ new_jobs r ts, dm_ClusterNodes := ctx_nodes r, dm_InProcessingNodes := inP,
      dm_NodeSteps := steps\<rparr>) r"
  by (simp add: spawn_drains_def fold_spawn_drain)

lemma pool_idle: "pool_ok r \<Longrightarrow> dm_DrainGroup (ctx_DrainManager r) = 0 \<longleftrightarrow> (\<forall>j \<in> set (jobs r). job_pc j = Finished)"
  by (auto simp: pool_ok_def active_def filter_empty_conv)

lemma spawn_drains_clean:
  assumes "pool_ok r" and "dm_DrainGroup (ctx_DrainManager r) = 0"
  shows "pool_clean (length (jobs r)) (length (hist r)) (ctx_nodes r) (spawn_drains ts inP steps r)"
  using assms pool_idle [OF assms(1)]
  by (auto simp: pool_clean_def spawn_drains_eq list_all2_refl new_jobs_mem drain_job_of_def named_ok_def job_ok_def)

lemma spawn_drains_pool_ok: "pool_ok r \<Longrightarrow> pool_ok (spawn_drains ts inP steps r)"
proof -
  have "filter (\<lambda>j. job_pc j \<noteq> Finished) (new_jobs r ts) = new_jobs r ts"
    by (rule filter_True) (auto simp: new_jobs_mem drain_job_of_def)
  then show "pool_ok r \<Longrightarrow> pool_ok (spawn_drains ts inP steps r)"
    by (simp add: pool_ok_def active_def spawn_drains_eq)
qed

text \<open>All goroutines of a batch that have finished passed all their stages.\<close>

lemma finished_jobs_ok:
  assumes "pool_ok r" and "dm_DrainGroup (ctx_DrainManager r) = 0"
    and "r' = run_jobs e sched (spawn_drains batch inP steps r)"
    and "dm_DrainGroup (ctx_DrainManager r') = 0"
  shows "\<forall>j \<in> set (new_jobs r batch). job_ok (ctx_nodes r) (new_events r r') (j\<lparr>job_pc := Finished\<rparr>)"
proof
  fix j assume "j \<in> set (new_jobs r batch)"
  let ?s = "spawn_drains batch inP steps r"
  have clean: "pool_clean (length (jobs r)) (length (hist r)) (ctx_nodes r) r'"
    using run_jobs_clean [OF spawn_drains_clean [OF assms(1,2)]] assms(3) by blast
  have "pool_ok r'" using run_jobs_pool_ok [OF spawn_drains_pool_ok [OF assms(1)]] assms(3) by blast
  then have fin: "\<forall>k \<in> set (jobs r'). job_pc k = Finished" using pool_idle assms(4) by blast
  have "map job_closure (drop (length (jobs r)) (jobs r')) = map job_closure (new_jobs r batch)"
    using arg_cong [OF run_jobs_closure [of e sched ?s], of "drop (length (jobs r))"] assms(3)
    by (simp add: drop_map spawn_drains_eq)
  then have "job_closure j \<in> job_closure ` set (drop (length (jobs r)) (jobs r'))"
    using \<open>j \<in> set (new_jobs r batch)\<close> by (metis image_eqI list.set_map)
  then obtain k where k: "k \<in> set (drop (length (jobs r)) (jobs r'))" "job_closure k = job_closure j" by auto
  then have "job_pc k = Finished" using fin by (meson in_set_dropD)
  with k(2) have "k = j\<lparr>job_pc := Finished\<rparr>"
    by (cases k; cases j) (simp add: job_closure_def)
  with k(1) clean show "job_ok (ctx_nodes r) (new_events r r') (j\<lparr>job_pc := Finished\<rparr>)"
    by (auto simp: pool_clean_def new_events_def)
qed

section \<open>Goroutines end when the calls succeed\<close>

definition calls_succeed :: "env \<Rightarrow> bool" where
  "calls_succeed e \<longleftrightarrow> (\<forall>h script vars. env_Exec e h script vars = None) \<and>
     (\<forall>h n c. fst (env_RunCordonOrUncordon e h n c) = None) \<and> (\<forall>h n t. env_RunNodeDrain e h n t = None)"

fun steps_left :: "drain_pc \<Rightarrow> nat" where
  "steps_left AtPreDrain = 5" | "steps_left AtDrain = 4" | "steps_left AtPostDrain = 3"
| "steps_left AtPostWait = 2" | "steps_left AtReturn = 1" | "steps_left Finished = 0" | "steps_left (Sending _ next) = 0"

fun next_pc :: "drain_pc \<Rightarrow> drain_pc" where
  "next_pc AtPreDrain = AtDrain" | "next_pc AtDrain = AtPostDrain" | "next_pc AtPostDrain = AtPostWait"
| "next_pc AtPostWait = AtReturn" | "next_pc pc = Finished"

definition sending :: "drain_pc \<Rightarrow> bool" where
  "sending pc \<longleftrightarrow> (\<exists>er next. pc = Sending er next)"

lemma script_succeeds:
  assumes "calls_succeed e"
  shows "fst (PreDrain e t w) = None" "fst (PostDrain e t w) = None" "fst (PostWait e t w) = None"
  using assms by (simp_all add: calls_succeed_def PreDrain_def PostDrain_def PostWait_def runScript_def Let_def)

lemma drain_stage_succeeds: "calls_succeed e \<Longrightarrow> fst (drain_stage e j r) = AtPostDrain"
proof (cases "SelectNodeByInstanceID (job_InstanceID j) (dm_ClusterNodes (ctx_DrainManager r))")
  case (Some n)
  assume e: "calls_succeed e"
  have "fst (fst (DrainNode e (Some n) d t (Some ()) w)) = None" for d t and w :: ctx
    using e run_cordon_error [of e n True w]
    by (auto simp: DrainNode_def calls_succeed_def Let_def case_prod_beta split: option.splits)
  then show ?thesis by (simp add: drain_stage_def Some Let_def case_prod_beta)
qed (simp add: drain_stage_def)

lemma job_step_succeeds:
  assumes "calls_succeed e" and "i < length (jobs r)" and "\<not> sending (job_pc (jobs r ! i))"
  shows "case job_step e i r of
      None \<Rightarrow> job_pc (jobs r ! i) = Finished
    | Some r' \<Rightarrow> job_pc (jobs r ! i) \<noteq> Finished \<and>
        jobs r' = (jobs r)[i := (jobs r ! i)\<lparr>job_pc := next_pc (job_pc (jobs r ! i))\<rparr>]"
  using assms drain_stage_succeeds [OF assms(1), of "jobs r ! i" r]
  by (cases "job_pc (jobs r ! i)")
     (auto simp: job_step_def Let_def case_prod_beta after_script_def sending_def script_succeeds [OF assms(1)])

lemma next_pc_steps: "\<not> sending pc \<Longrightarrow> \<not> sending (next_pc pc) \<and> steps_left (next_pc pc) = steps_left pc - 1"
  by (cases pc) (auto simp: sending_def)

lemma steps_left_0: "\<not> sending pc \<Longrightarrow> steps_left pc = 0 \<longleftrightarrow> pc = Finished"
  by (cases pc) (auto simp: sending_def)

lemma run_jobs_finish:
  assumes "calls_succeed e" and "\<forall>i < length (jobs r). \<not> sending (job_pc (jobs r ! i)) \<and>
    steps_left (job_pc (jobs r ! i)) \<le> count_list sched i"
  shows "\<forall>j \<in> set (jobs (run_jobs e sched r)). job_pc j = Finished"
  using assms(2)
proof (induction sched arbitrary: r)
  case Nil
  show ?case
  proof
    fix j assume "j \<in> set (jobs (run_jobs e [] r))"
    then obtain i where i: "i < length (jobs r)" "j = jobs r ! i" by (auto simp: in_set_conv_nth)
    have "\<not> sending (job_pc j)" "steps_left (job_pc j) \<le> 0"
      using Nil [rule_format, OF i(1)] unfolding i(2) by simp_all
    then show "job_pc j = Finished" using steps_left_0 [of "job_pc j"] by simp
  qed
next
  case (Cons i sched)
  have prem: "\<not> sending (job_pc (jobs r ! k))" "steps_left (job_pc (jobs r ! k)) \<le> count_list (i # sched) k"
    if "k < length (jobs r)" for k using Cons.prems that by blast+
  have skip: ?case if "job_step e i r = None" "i < length (jobs r) \<Longrightarrow> steps_left (job_pc (jobs r ! i)) = 0"
  proof -
    have "\<forall>k < length (jobs r). \<not> sending (job_pc (jobs r ! k)) \<and>
        steps_left (job_pc (jobs r ! k)) \<le> count_list sched k"
    proof (intro allI impI)
      fix k assume k: "k < length (jobs r)"
      show "\<not> sending (job_pc (jobs r ! k)) \<and> steps_left (job_pc (jobs r ! k)) \<le> count_list sched k"
        using prem [OF k] that(2) k by (cases "k = i") simp_all
    qed
    from Cons.IH [OF this] that(1) show ?thesis by simp
  qed
  show ?case
  proof (cases "i < length (jobs r)")
    case False
    then have "job_step e i r = None" by (simp add: job_step_def)
    with False show ?thesis by (intro skip) simp_all
  next
    case True
    then have ns: "\<not> sending (job_pc (jobs r ! i))" by (rule prem)
    note step = job_step_succeeds [OF assms(1) True ns]
    show ?thesis
    proof (cases "job_step e i r")
      case None
      with step have "steps_left (job_pc (jobs r ! i)) = 0" by simp
      with None show ?thesis by (intro skip)
    next
      case (Some r')
      with step have r': "jobs r' = (jobs r)[i := (jobs r ! i)\<lparr>job_pc := next_pc (job_pc (jobs r ! i))\<rparr>]" by simp
      have "\<forall>k < length (jobs r'). \<not> sending (job_pc (jobs r' ! k)) \<and>
          steps_left (job_pc (jobs r' ! k)) \<le> count_list sched k"
      proof (intro allI impI)
        fix k assume k: "k < length (jobs r')"
        then have k': "k < length (jobs r)" by (simp add: r')
        show "\<not> sending (job_pc (jobs r' ! k)) \<and> steps_left (job_pc (jobs r' ! k)) \<le> count_list sched k"
          using prem [OF k'] next_pc_steps [OF ns] True by (cases "k = i") (simp_all add: r')
      qed
      from Cons.IH [OF this] Some show ?thesis by simp
    qed
  qed
qed

lemma spawned_drains_finish:
  assumes "calls_succeed e" and "pool_ok r" and "dm_DrainGroup (ctx_DrainManager r) = 0"
    and "\<forall>i < length (jobs (spawn_drains batch inP steps r)). 5 \<le> count_list sched i"
  shows "dm_DrainGroup (ctx_DrainManager (run_jobs e sched (spawn_drains batch inP steps r))) = 0"
proof -
  let ?s = "spawn_drains batch inP steps r"
  have "\<not> sending (job_pc j) \<and> steps_left (job_pc j) \<le> 5" if "j \<in> set (jobs ?s)" for j
    using that pool_idle [OF assms(2)] assms(3)
    by (auto simp: spawn_drains_eq new_jobs_mem drain_job_of_def sending_def)
  then have "\<forall>i < length (jobs ?s). \<not> sending (job_pc (jobs ?s ! i)) \<and> steps_left (job_pc (jobs ?s ! i)) \<le> count_list sched i"
    using assms(4) by (meson le_trans nth_mem)
  from run_jobs_finish [OF assms(1) this] show ?thesis
    using pool_idle [OF run_jobs_pool_ok [OF spawn_drains_pool_ok [OF assms(2)]]] by blast
qed

section \<open>Properties\<close>

text \<open>In every state reachable by any interleaving of goroutine steps, receives and new goroutines, the
  wait group's counter is the number of goroutines that have not finished. It is never negative,
  and it is zero exactly when all of them have finished.\<close>

lemma wait_group_counts_goroutines:
  assumes "ctx_DrainManager r0 = NewDrainManager" and "(pool_step e)\<^sup>*\<^sup>* r0 r"
  shows "dm_DrainGroup (ctx_DrainManager r) = int (length (filter (\<lambda>j. job_pc j \<noteq> Finished) (jobs r))) \<and>
    (dm_DrainGroup (ctx_DrainManager r) = 0 \<longleftrightarrow> (\<forall>j \<in> set (jobs r). job_pc j = Finished))"
proof -
  have "pool_ok r" using drains.inv_reachable [OF assms] by blast
  then show ?thesis using pool_idle [of r] by (simp add: pool_ok_def active_def)
qed

lemma sample_pool:
  "jobs sample_ctx = []" "dm_DrainGroup (ctx_DrainManager sample_ctx) = 0" "pool_ok sample_ctx"
  by (simp_all add: sample_ctx_def NewDrainManager_def pool_ok_def active_def)

lemma sample_spawn: "new_jobs sample_ctx [sample_instance ''i1'' ''a'' ''old''] =
    [drain_job_of sample_ctx (sample_instance ''i1'' ''a'' ''old'') (sample_node ''n1'' ''i1'')]"
  by (simp add: sample_instance_def sample_ctx_def sample_node_def GetNodeInstanceID_def EqualFold_def)

text \<open>A batch whose goroutines all finish, with no error received in between, was handled completely:
  for every target with a node the pre-drain script succeeded (or there is none), the node was
  cordoned and drained with the effective timeout (or drain failures are ignored), and the
  post-drain and post-wait scripts succeeded, whatever order the goroutines ran in.\<close>

lemma finished_batch_is_drained:
  assumes "pool_ok r" and "dm_DrainGroup (ctx_DrainManager r) = 0"
    and "r' = run_jobs e sched (spawn_drains batch inP steps r)"
    and "dm_DrainGroup (ctx_DrainManager r') = 0"
    and "t \<in> set batch" and "SelectNodeByInstanceID (inst_id t) (ctx_nodes r) = Some n"
    and "j = drain_job_of r t n"
  shows "script_ok (new_events r r') (PreDrainScript (ctx_RollingUpgrade r)) (job_target j) \<and>
    drain_tried (job_IgnoreDrainFailures j) (node_Name n) (wrap64 (job_DrainTimeout j * Second)) (new_events r r') \<and>
    script_ok (new_events r r') (PostDrainScript (ctx_RollingUpgrade r)) (job_target j) \<and>
    script_ok (new_events r r') (PostWaitScript (ctx_RollingUpgrade r)) (job_target j)"
  using finished_jobs_ok [OF assms(1,2,3,4)] assms(5,6,7)
  by (force simp: new_jobs_mem job_ok_def drained_def drain_job_of_def)

text \<open>When scripts and drains succeed, goroutines end: any schedule that lets every goroutine of the
  batch move five times brings the wait group back to zero.\<close>

lemma drains_finish:
  assumes "calls_succeed e" and "pool_ok r" and "dm_DrainGroup (ctx_DrainManager r) = 0"
    and "\<forall>i < length (jobs (spawn_drains batch inP steps r)). 5 \<le> count_list sched i"
  shows "dm_DrainGroup (ctx_DrainManager (run_jobs e sched (spawn_drains batch inP steps r))) = 0"
  by (rule spawned_drains_finish [OF assms])

end
