(* ===== verification/Batch_Rotation.thy ===== *)
theory Batch_Rotation
  imports Drain_Pool
begin

text \<open>
  \<open>ReplaceNodeBatch\<close> of \<^verbatim>\<open>controllers/upgrade.go\<close>, in the phases its code has: early cordon; the
  preparation of eager or lazy mode; the waits; starting the drain goroutines; the select on the
  drain error, the completion of all goroutines, or a timeout; and the termination loop. A phase
  answers \<open>Inl\<close> with the function's result when it returns, and \<open>Inr\<close> with the maps it hands on. The
  interleaving of the goroutines while the function waits is the argument \<open>sched\<close>, the ready case
  that the select takes the argument \<open>choice\<close>; a case that is not ready falls to the timeout. \<open>None\<close>
  is a panic.

  The maps \<^verbatim>\<open>inProcessingNodes\<close> and \<^verbatim>\<open>nodeSteps\<close> are shared with the goroutines only if this call
  started them: then the maps after the select are the goroutines' maps, otherwise they are the
  call's own. If the resource's status has a map of nodes in processing, the call works on that very
  map, so the status follows it also where the call returns without \<open>UpdateMetricsStatus\<close>:
  \<open>alias_status\<close>. (An empty map is not stored, so a status without entries has no map.)
\<close>

section \<open>Definitions\<close>

definition DefaultWaitGroupTimeout :: duration where
  "DefaultWaitGroupTimeout = Second * 5"

type_synonym step_maps = "in_processing \<times> node_steps"
type_synonym batch_result = "bool \<times> error option"

datatype select_case = DrainErrorCase nat | DoneCase | TimeoutCase

definition alias_status :: "step_maps \<Rightarrow> ctx \<Rightarrow> ctx" where
  "alias_status maps r =
     (if status_NodeInProcessing (ru_Status (ctx_RollingUpgrade r)) = [] then r
      else upd_ru (upd_status (\<lambda>st. st\<lparr>status_NodeInProcessing := fst maps\<rparr>)) r)"

text \<open>The loops that turn every target with a node onto a step.\<close>

fun step_targets :: "env \<Rightarrow> RollingUpgradeStep \<Rightarrow> Instance list \<Rightarrow> step_maps \<Rightarrow> ctx \<Rightarrow> step_maps \<times> ctx" where
  "step_targets e stepName [] maps r = (maps, r)"
| "step_targets e stepName (target # targets) maps r =
     (case SelectNodeByInstanceID (StringValue (inst_InstanceId target)) (ctx_nodes r) of
        None \<Rightarrow> step_targets e stepName targets maps r
      | Some node \<Rightarrow>
         (let (maps', r') = NodeStep e (fst maps) (snd maps) (spec_AsgName (ru_Spec (ctx_RollingUpgrade r)))
                              (node_Name node) stepName r
          in step_targets e stepName targets maps' r'))"

text \<open>The slice expression \<^verbatim>\<open>ids[:n]\<close>.\<close>

definition slice_prefix :: "'b list \<Rightarrow> int \<Rightarrow> 'b list option" where
  "slice_prefix xs n = (if 0 \<le> n \<and> n \<le> int (length xs) then Some (take (nat n) xs) else None)"

definition standby_batch ::
  "env \<Rightarrow> string list \<Rightarrow> step_maps \<Rightarrow> ctx \<Rightarrow> (batch_result \<times> ctx) option" where
  "standby_batch e inServiceInstanceIDs maps r =
     (let ((clusterIsBallooning, allowedBatchSize), r1) = ClusterBallooning (int (length inServiceInstanceIDs)) r
      in if clusterIsBallooning \<or> allowedBatchSize = 0 then Some ((True, None), alias_status maps r1)
         else do {
           ids \<leftarrow> (if int (length inServiceInstanceIDs) \<noteq> allowedBatchSize
                   then slice_prefix inServiceInstanceIDs allowedBatchSize else Some inServiceInstanceIDs);
           let (err, r2) = TagEC2instances e ids instanceStateTagKey inProgressTagValue r1 in
           if err \<noteq> None then Some ((False, err), UpdateMetricsStatus e (fst maps) (snd maps) r2)
           else do {
             (_, r3) \<leftarrow> SetBatchStandBy e ids r2;
             Some ((True, None), UpdateMetricsStatus e (fst maps) (snd maps) r3) } })"

definition prepare_eager ::
  "env \<Rightarrow> Instance list \<Rightarrow> step_maps \<Rightarrow> ctx \<Rightarrow> ((batch_result + step_maps) \<times> ctx) option" where
  "prepare_eager e batch maps r =
     (let (maps1, r1) = step_targets e NodeRotationKickoff batch maps r;
          inServiceInstanceIDs = GetInServiceInstanceIDs batch
      in if inServiceInstanceIDs \<noteq> [] then
           do { (res, r2) \<leftarrow> standby_batch e inServiceInstanceIDs maps1 r1; Some (Inl res, r2) }
         else
           (let (maps2, r2) = step_targets e NodeRotationDesiredNodeReady batch maps1 r1;
                (ready, r3) = DesiredNodesReady e r2
            in if \<not> ready then Some (Inl (True, None), UpdateMetricsStatus e (fst maps2) (snd maps2) r3)
               else Some (Inr maps2, r3)))"

definition prepare_lazy ::
  "env \<Rightarrow> Instance list \<Rightarrow> step_maps \<Rightarrow> ctx \<Rightarrow> (batch_result + step_maps) \<times> ctx" where
  "prepare_lazy e batch maps r =
     (let (maps1, r1) = step_targets e NodeRotationKickoff batch maps r;
          (err, r2) = TagEC2instances e (GetInServiceInstanceIDs batch) instanceStateTagKey inProgressTagValue r1
      in if err \<noteq> None then (Inl (False, err), UpdateMetricsStatus e (fst maps1) (snd maps1) r2)
         else (Inr maps1, r2))"

definition prepare_batch ::
  "env \<Rightarrow> Instance list \<Rightarrow> step_maps \<Rightarrow> ctx \<Rightarrow> ((batch_result + step_maps) \<times> ctx) option" where
  "prepare_batch e batch maps r =
     (if StrategyMode (ctx_RollingUpgrade r) = UpdateStrategyModeEager then prepare_eager e batch maps r
      else if StrategyMode (ctx_RollingUpgrade r) = UpdateStrategyModeLazy then Some (prepare_lazy e batch maps r)
      else Some (Inr maps, r))"

text \<open>Whether less than \<open>interval\<close> seconds have passed since \<open>since\<close>; the clock is read only if there was one.\<close>

definition still_waiting :: "env \<Rightarrow> time option \<Rightarrow> int \<Rightarrow> ctx \<Rightarrow> bool \<times> ctx" where
  "still_waiting e since interval r =
     (case since of
        None \<Rightarrow> (False, r)
      | Some t \<Rightarrow>
          if t = zero_time then (False, r)
          else (let (now, r') = Now e r
                in (duration_Seconds (time_Sub now t) < float_of_int interval, r')))"

text \<open>
  The body of the termination loop for one target, \<open>Inl\<close> when the function returns:
  \<open>finish_target\<close> is the part after the instance was terminated.
\<close>

definition finish_target ::
  "env \<Rightarrow> ScriptTarget \<Rightarrow> step_maps \<Rightarrow> ctx \<Rightarrow> (batch_result + step_maps) \<times> ctx" where
  "finish_target e scriptTarget maps r =
     (let asg = spec_AsgName (ru_Spec (ctx_RollingUpgrade r));
          nodeName = target_NodeName scriptTarget;
          (_, r1) = UntagEC2instances e [target_InstanceID scriptTarget] instanceStateTagKey inProgressTagValue r;
          r2 = decrement_replacements r1;
          (now, r3) = Now e r2;
          r4 = upd_ru (SetLastNodeTerminationTime (Some now)) r3;
          (maps1, r5) = NodeStep e (fst maps) (snd maps) asg nodeName NodeRotationPostTerminate r4;
          (err, r6) = PostTerminate e scriptTarget r5
      in if err \<noteq> None then (Inl (False, err), alias_status maps1 r6)
         else
           (let (now2, r7) = Now e r6;
                terminatedTime = now2 + wrap64 (NodeIntervalSeconds (ctx_RollingUpgrade r7) * Second);
                (maps2, r8) = NodeStep e (fst maps1) (snd maps1) asg nodeName NodeRotationTerminated r7;
                (maps3, r9) = DoNodeStep e (fst maps2) (snd maps2) asg nodeName NodeRotationCompleted
                                terminatedTime r8
            in (Inr maps3, r9)))"

definition terminate_target ::
  "env \<Rightarrow> Instance \<Rightarrow> Node \<Rightarrow> step_maps \<Rightarrow> ctx \<Rightarrow> (batch_result + step_maps) \<times> ctx" where
  "terminate_target e target node maps r =
     (let scriptTarget = \<lparr>target_InstanceID = StringValue (inst_InstanceId target), target_NodeName = node_Name node,
                          target_UpgradeObject = ctx_RollingUpgrade r\<rparr>;
          (maps1, r1) = NodeStep e (fst maps) (snd maps) (spec_AsgName (ru_Spec (ctx_RollingUpgrade r)))
                          (node_Name node) NodeRotationTerminate r;
          (err, r2) = TerminateInstance e target r1
      in if err \<noteq> None then (Inl (True, None), UpdateMetricsStatus e (fst maps1) (snd maps1) r2)
         else finish_target e scriptTarget maps1 r2)"

fun terminate_targets ::
  "env \<Rightarrow> Instance list \<Rightarrow> step_maps \<Rightarrow> ctx \<Rightarrow> (batch_result + step_maps) \<times> ctx" where
  "terminate_targets e [] maps r = (Inr maps, r)"
| "terminate_targets e (target # targets) maps r =
     (case SelectNodeByInstanceID (StringValue (inst_InstanceId target)) (ctx_nodes r) of
        None \<Rightarrow> terminate_targets e targets maps r
      | Some node \<Rightarrow>
         (let (res, r') = terminate_target e target node maps r
          in (case res of Inl ret \<Rightarrow> (Inl ret, r') | Inr maps' \<Rightarrow> terminate_targets e targets maps' r')))"

definition done_branch :: "env \<Rightarrow> Instance list \<Rightarrow> step_maps \<Rightarrow> ctx \<Rightarrow> batch_result \<times> ctx" where
  "done_branch e batch maps r =
     (let (now, r1) = Now e r;
          r2 = upd_ru (SetLastNodeDrainTime (Some now)) r1;
          (res, r3) = terminate_targets e batch maps r2
      in (case res of
            Inl ret \<Rightarrow> (ret, r3)
          | Inr maps' \<Rightarrow> ((True, None), UpdateMetricsStatus e (fst maps') (snd maps') r3)))"

text \<open>The select: error, completion or timeout.\<close>

definition await_drains ::
  "env \<Rightarrow> nat list \<Rightarrow> select_case \<Rightarrow> bool \<Rightarrow> Instance list \<Rightarrow> step_maps \<Rightarrow> ctx \<Rightarrow> batch_result \<times> ctx" where
  "await_drains e sched choice spawned batch maps r =
     (let r1 = run_jobs e sched r;
          maps1 = (if spawned then (dm_InProcessingNodes (ctx_DrainManager r1), dm_NodeSteps (ctx_DrainManager r1))
                   else maps);
          timeout = ((True, None), UpdateMetricsStatus e (fst maps1) (snd maps1) r1)
      in (case choice of
            DrainErrorCase i \<Rightarrow>
              (case receive i r1 of
                 Some (er, r2) \<Rightarrow> ((False, Some er), UpdateMetricsStatus e (fst maps1) (snd maps1) r2)
               | None \<Rightarrow> timeout)
          | DoneCase \<Rightarrow>
              if dm_DrainGroup (ctx_DrainManager r1) = 0 then done_branch e batch maps1 r1 else timeout
          | TimeoutCase \<Rightarrow> timeout))"

definition drain_batch ::
  "env \<Rightarrow> nat list \<Rightarrow> select_case \<Rightarrow> Instance list \<Rightarrow> step_maps \<Rightarrow> ctx \<Rightarrow> batch_result \<times> ctx" where
  "drain_batch e sched choice batch maps r =
     (let ru = ctx_RollingUpgrade r;
          lastTerminationTime = LastNodeTerminationTime ru;
          nodeInterval = NodeIntervalSeconds ru;
          lastDrainTime = LastNodeDrainTime ru;
          drainInterval = PostDrainDelaySeconds ru;
          (wait1, r1) = still_waiting e lastTerminationTime nodeInterval r
      in if wait1 then ((True, None), alias_status maps r1)
         else
           (let (wait2, r2) = still_waiting e lastDrainTime drainInterval r1
            in if wait2 then ((True, None), alias_status maps r2)
               else
                 (let spawned = (dm_DrainGroup (ctx_DrainManager r2) = 0);
                      r3 = (if spawned then spawn_drains batch (fst maps) (snd maps) r2 else r2)
                  in await_drains e sched choice spawned batch maps r3)))"

definition ReplaceNodeBatch ::
  "env \<Rightarrow> nat list \<Rightarrow> select_case \<Rightarrow> Instance list \<Rightarrow> ctx \<Rightarrow> (batch_result \<times> ctx) option" where
  "ReplaceNodeBatch e sched choice batch r =
     (let maps = (status_NodeInProcessing (ru_Status (ctx_RollingUpgrade r)), [])
      in do {
        (cordoned, r1) \<leftarrow> (if ctx_EarlyCordonNodes r then CordonUncordonAllNodes e True r
                           else Some ((True, None), r));
        if \<not> fst cordoned then Some (cordoned, r1)
        else do {
          (res, r2) \<leftarrow> prepare_batch e batch maps r1;
          (case res of
             Inl ret \<Rightarrow> Some (ret, r2)
           | Inr maps' \<Rightarrow> Some (drain_batch e sched choice batch maps' r2)) } })"

section \<open>Frames\<close>

definition not_termination :: "event \<Rightarrow> bool" where
  "not_termination ev \<longleftrightarrow> (\<forall>i er. ev \<noteq> EvTerminateInstance i er)"

lemma not_termination_simps [simp]:
  "not_termination EvNow" "not_termination EvRange" "not_termination (EvSleep d)"
  "not_termination (EvCreateTags ids k v er)" "not_termination (EvDeleteTags ids k v er)"
  "not_termination (EvEnterStandby ids g er)" "not_termination (EvCordon n c er)"
  "not_termination (EvDrain n t er)" "not_termination (EvExec s vars er)" "not_termination (EvListNodes er)"
  "not_termination (EvGetNode n er)" "not_termination (EvUpdateNode x er)"
  "\<not> not_termination (EvTerminateInstance i er)" "not_termination (EvDescribeInstances fs)"
  "not_termination EvDescribeLaunchTemplates" "not_termination EvDescribeAutoScalingGroups"
  by (simp_all add: not_termination_def)

text \<open>Calls that neither cordon, drain nor terminate.\<close>

definition bookkeeping :: "event \<Rightarrow> bool" where
  "bookkeeping ev \<longleftrightarrow> (case ev of EvTerminateInstance _ _ \<Rightarrow> False | EvCordon _ _ _ \<Rightarrow> False | EvDrain _ _ _ \<Rightarrow> False
     | _ \<Rightarrow> True)"

lemma bookkeeping_simps [simp]:
  "bookkeeping EvNow" "bookkeeping EvRange" "bookkeeping (EvCreateTags ids k v er)"
  "bookkeeping (EvDeleteTags ids k v er)" "bookkeeping (EvExec s vars er)" "\<not> bookkeeping (EvDrain n t er)"
  "\<not> bookkeeping (EvTerminateInstance i er)" "\<not> bookkeeping (EvCordon n c er)"
  by (simp_all add: bookkeeping_def)

lemma bookkeeping_not_termination: "bookkeeping ev \<Longrightarrow> not_termination ev"
  by (auto simp: not_termination_def)

lemma range_keys_frame [simp, frame_simps]:
  "world.more (snd (range_keys e ks w)) = world.more w" "hist (snd (range_keys e ks w)) = hist w @ [EvRange]"
  by (simp_all add: range_keys_def Let_def)

lemmas range_keys_ctx [simp] = ctx_fields_of_more [OF range_keys_frame(1)]

lemma UpdateMetricsStatus_frame [simp, frame_simps]:
  "hist (UpdateMetricsStatus e inP steps s) = hist s @ [EvRange, EvRange]"
  "ctx_Cloud (UpdateMetricsStatus e inP steps s) = ctx_Cloud s"
  "ctx_DrainManager (UpdateMetricsStatus e inP steps s) = ctx_DrainManager s"
  "ru_Spec (ctx_RollingUpgrade (UpdateMetricsStatus e inP steps s)) = ru_Spec (ctx_RollingUpgrade s)"
  "meta_Name (ctx_RollingUpgrade (UpdateMetricsStatus e inP steps s)) = meta_Name (ctx_RollingUpgrade s)"
  by (simp_all add: UpdateMetricsStatus_def UpdateStatistics_def UpdateLastBatchNodes_def case_prod_beta Let_def
      fold_fold_concat fold_AddNodeStepDuration)

lemma NodeStep_emits: "P EvNow \<Longrightarrow> emits P w (snd (NodeStep e inP steps g n st w))"
  using NodeStep_hist [of e inP steps g n st w] by (auto simp: emits_def list_all_iff)

lemma DoNodeStep_emits: "P EvNow \<Longrightarrow> emits P w (snd (DoNodeStep e inP steps g n st t w))"
  by (auto simp: DoNodeStep_def in_processing_node_def Now_def ToStepDuration_def Let_def case_prod_beta emits_def
      split: option.splits)

lemma step_targets_frame [simp, frame_simps]:
  "world.more (snd (step_targets e st ts maps r)) = world.more r"
  by (induction ts arbitrary: maps r) (simp_all add: case_prod_beta Let_def split: option.splits)

lemma step_targets_emits: "P EvNow \<Longrightarrow> emits P r (snd (step_targets e st ts maps r))"
proof (induction ts arbitrary: maps r)
  case (Cons t ts)
  show ?case
  proof (cases "SelectNodeByInstanceID (StringValue (inst_InstanceId t)) (ctx_nodes r)")
    case (Some n)
    show ?thesis
      using emits_trans [OF NodeStep_emits [of P, OF Cons.prems] Cons.IH [OF Cons.prems]] Some
      by (simp add: case_prod_beta Let_def)
  qed (use Cons in simp)
qed simp

lemma alias_status_frame [simp, frame_simps]:
  "hist (alias_status maps r) = hist r" "ctx_Cloud (alias_status maps r) = ctx_Cloud r"
  "ctx_DrainManager (alias_status maps r) = ctx_DrainManager r"
  by (simp_all add: alias_status_def)

lemma ClusterBallooning_frame [simp, frame_simps]:
  "hist (snd (ClusterBallooning b r)) = hist r"
  "ctx_Cloud (snd (ClusterBallooning b r)) = ctx_Cloud r"
  "ctx_DrainManager (snd (ClusterBallooning b r)) = ctx_DrainManager r"
  "ctx_RollingUpgrade (snd (ClusterBallooning b r)) = ctx_RollingUpgrade r"
  by (simp_all add: ClusterBallooning_def ClusterBallooning_load_def ClusterBallooning_decide_def case_prod_beta Let_def)

lemma standby_chunks_emits:
  "(\<And>ids g er. P (EvEnterStandby ids g er)) \<Longrightarrow> emits P r (snd (standby_chunks e bs r))"
proof (induction bs arbitrary: r)
  case (Cons b bs)
  have "emits P r (snd (SetInstancesStandBy e b g r))" for g
    using Cons.prems by (simp add: emits_append [OF aws_calls_hist(4)])
  then show ?case
    using Cons emits_trans by (simp add: case_prod_beta Let_def) blast
qed simp

lemma standby_chunks_more [simp]: "world.more (snd (standby_chunks e bs r)) = world.more r"
  by (induction bs arbitrary: r) (simp_all add: case_prod_beta Let_def)

section \<open>Preparation\<close>

text \<open>Preparing a batch terminates nothing; when it goes on, only calls were made.\<close>

lemma emits_call: "hist w' = hist w @ [ev] \<Longrightarrow> P ev \<Longrightarrow> emits P w w'"
  by (simp add: emits_append)

lemma UpdateMetricsStatus_emits: "emits P w r \<Longrightarrow> P EvRange \<Longrightarrow> emits P w (UpdateMetricsStatus e inP steps r)"
  by (auto simp: emits_def)

lemma standby_batch_emits:
  assumes "standby_batch e ids maps r = Some (res, r')"
  shows "emits (\<lambda>ev. not_termination ev) r r' \<and> ctx_DrainManager r' = ctx_DrainManager r"
proof -
  obtain b g r1 where cb: "ClusterBallooning (int (length ids)) r = ((b, g), r1)" by (metis prod.exhaust)
  have r1: "hist r1 = hist r" "ctx_DrainManager r1 = ctx_DrainManager r"
    using ClusterBallooning_frame(1,3) [of "int (length ids)" r] by (simp_all add: cb)
  show ?thesis
  proof (cases "b \<or> g = 0")
    case True
    then show ?thesis using assms r1 by (auto simp: standby_batch_def cb intro: emits_same)
  next
    case False
    then obtain ids' where ids': "(if int (length ids) \<noteq> g then slice_prefix ids g else Some ids) = Some ids'"
      using assms by (auto simp: standby_batch_def cb Option.bind_eq_Some_conv)
    obtain err r2 where tag: "TagEC2instances e ids' instanceStateTagKey inProgressTagValue r1 = (err, r2)" by fastforce
    have r2: "hist r2 = hist r @ [EvCreateTags ids' instanceStateTagKey inProgressTagValue err]"
      "ctx_DrainManager r2 = ctx_DrainManager r"
      using aws_calls_hist(1) [of e ids' instanceStateTagKey inProgressTagValue r1] r1
        Tag_ctx(3) [of e ids' instanceStateTagKey inProgressTagValue r1] by (simp_all add: tag)
    have e2: "emits not_termination r r2" by (rule emits_call [OF r2(1)]) simp
    show ?thesis
    proof (cases err)
      case (Some er)
      then show ?thesis
        using assms False ids' e2 r2(2)
        by (auto simp: standby_batch_def cb tag intro: UpdateMetricsStatus_emits)
    next
      case None
      obtain chunks where "GetChunks ids' InstanceStandByLimit = Some chunks"
        using GetChunks_chunks_of [of InstanceStandByLimit ids'] by (auto simp: InstanceStandByLimit_def)
      then have r': "r' = UpdateMetricsStatus e (fst maps) (snd maps) (snd (standby_chunks e chunks r2))"
        using assms False ids' None by (auto simp: standby_batch_def cb tag SetBatchStandBy_def case_prod_beta)
      have "emits not_termination r (snd (standby_chunks e chunks r2))"
        using emits_trans [OF e2 standby_chunks_emits] by simp
      moreover have "ctx_DrainManager (snd (standby_chunks e chunks r2)) = ctx_DrainManager r"
        using ctx_fields_of_more(3) [OF standby_chunks_more, of e chunks r2] r2(2) by simp
      ultimately show ?thesis by (simp add: r' UpdateMetricsStatus_emits)
    qed
  qed
qed

text \<open>
  A step of the preparation: it terminates nothing, and changes at most the schedulability of nodes
  of what the drain goroutines will work with.
\<close>

definition calm :: "ctx \<Rightarrow> ctx \<Rightarrow> bool" where
  "calm r r' \<longleftrightarrow> emits not_termination r r' \<and> list_all2 (same_object False) (ctx_nodes r) (ctx_nodes r') \<and>
     cloud_ScalingGroups (ctx_Cloud r') = cloud_ScalingGroups (ctx_Cloud r) \<and>
     ctx_RollingUpgrade r' = ctx_RollingUpgrade r \<and> ctx_DrainManager r' = ctx_DrainManager r \<and>
     ctx_DrainTimeout r' = ctx_DrainTimeout r \<and> ctx_IgnoreDrainFailures r' = ctx_IgnoreDrainFailures r"

lemma calm_call: "world.more r' = world.more r \<Longrightarrow> emits not_termination r r' \<Longrightarrow> calm r r'"
  using ctx_fields_of_more [of r' r] by (simp add: calm_def list_all2_refl)

lemma calm_refl [simp]: "calm r r"
  by (simp add: calm_call)

lemma calm_trans: "calm u v \<Longrightarrow> calm v w \<Longrightarrow> calm u w"
  unfolding calm_def
  using emits_trans [of not_termination u v w]
    list_all2_trans [of "same_object False" "same_object False" "same_object False" "ctx_nodes u" "ctx_nodes v"
      "ctx_nodes w"] same_object_trans [of False] by simp

lemma calm_emits: "calm r r' \<Longrightarrow> emits not_termination r r'"
  by (simp add: calm_def)

subsection \<open>Early cordon\<close>

lemma CordonUncordonNode_calm: "emits not_termination w (snd (CordonUncordonNode e n (Some ()) b w))"
proof (cases n)
  case (Some m)
  have "emits not_termination w (snd (run_cordon e m b w))" by (rule emits_call [OF run_cordon_hist]) simp
  then show ?thesis by (simp add: Some CordonUncordonNode_Some Let_def case_prod_beta)
qed (simp add: CordonUncordonNode_None)

lemma node_calls_calm:
  "emits not_termination w (snd (NodesGet e name w))"
  "emits not_termination w (snd (NodesUpdate e x w))" "emits not_termination w (Sleep d w)"
  by (rule emits_call [OF node_calls_hist(1)] emits_call [OF node_calls_hist(2)] emits_call [OF node_calls_hist(3)],
      simp)+

lemma remove_annotation_calm: "emits not_termination w (snd (remove_annotation e name attempts w))"
proof (induction attempts arbitrary: w)
  case (Cons a as)
  let ?w1 = "snd (NodesGet e name w)"
  show ?case
  proof (cases "fst (NodesGet e name w)")
    case (Inl er)
    then show ?thesis using node_calls_calm(1) by (simp add: Let_def case_prod_beta)
  next
    case (Inr cur)
    define x where "x = cur\<lparr>node_Annotations := (node_Annotations cur)(EarlyCordonAnnotationKey := None)\<rparr>"
    have upd: "emits not_termination w (snd (NodesUpdate e x ?w1))"
      by (rule emits_trans [OF node_calls_calm(1,2)])
    have "snd (remove_annotation e name (a # as) w) = snd (NodesUpdate e x ?w1) \<or>
        snd (remove_annotation e name (a # as) w) =
          snd (remove_annotation e name as (Sleep (a * 100 * Millisecond) (snd (NodesUpdate e x ?w1))))"
      using Inr by (cases "fst (NodesUpdate e x ?w1)") (simp_all add: x_def Let_def case_prod_beta)
    then show ?thesis
      using upd emits_trans [OF upd emits_trans [OF node_calls_calm(3) Cons.IH]] by metis
  qed
qed simp

lemma uncordon_calm: "emits not_termination w (snd (uncordonAndRemoveAnnotation e n w))"
proof (cases "has_annotation n")
  case True
  let ?rem = "remove_annotation e (node_Name n) [1..maxRetries] w"
  have "snd (uncordonAndRemoveAnnotation e n w) = snd ?rem \<or>
      (\<exists>m. snd (uncordonAndRemoveAnnotation e n w) = snd (CordonUncordonNode e m (Some ()) False (snd ?rem)))"
    using True by (cases "fst ?rem")
      (auto simp: uncordonAndRemoveAnnotation_def Let_def case_prod_beta split: option.splits)
  then show ?thesis
    using remove_annotation_calm emits_trans [OF remove_annotation_calm CordonUncordonNode_calm] by metis
next
  case False
  then show ?thesis
    using CordonUncordonNode_calm [of w e "Some n" False]
    by (simp add: uncordonAndRemoveAnnotation_def Let_def case_prod_beta split: option.splits)
qed

lemma annotate_loop_calm: "emits not_termination w (snd (annotate_loop e n attempts w))"
proof (induction attempts arbitrary: w)
  case (Cons a as)
  let ?w1 = "snd (NodesGet e (node_Name n) w)"
  have cont: "emits not_termination w (snd (annotate_loop e n as (Sleep d v)))"
    "emits not_termination w (snd (uncordonAndRemoveAnnotation e m v))" if "emits not_termination w v" for m d and v :: "'a world_scheme"
    using emits_trans [OF that emits_trans [OF node_calls_calm(3) Cons.IH]] emits_trans [OF that uncordon_calm] by blast+
  show ?case
  proof (cases "fst (NodesGet e (node_Name n) w)")
    case (Inl er)
    then show ?thesis using cont [OF node_calls_calm(1)] by (simp add: Let_def case_prod_beta)
  next
    case (Inr cur)
    define x where
      "x = cur\<lparr>node_Annotations := (node_Annotations cur)(EarlyCordonAnnotationKey \<mapsto> EarlyCordonAnnotationValue)\<rparr>"
    have upd: "emits not_termination w (snd (NodesUpdate e x ?w1))"
      by (rule emits_trans [OF node_calls_calm(1,2)])
    show ?thesis
      using Inr upd cont [OF upd] by (cases "fst (NodesUpdate e x ?w1)") (simp_all add: x_def Let_def case_prod_beta)
  qed
qed simp

lemma cordonAndAnnotateNode_calm: "emits not_termination w (snd (cordonAndAnnotateNode e n w))"
proof -
  let ?c = "CordonUncordonNode e (Some n) (Some ()) True w"
  have "snd (cordonAndAnnotateNode e n w) = snd ?c \<or>
      (\<exists>m as. snd (cordonAndAnnotateNode e n w) = snd (annotate_loop e m as (snd ?c)))"
    by (cases "fst (fst ?c)") (auto simp: cordonAndAnnotateNode_def Let_def case_prod_beta)
  then show ?thesis
    using CordonUncordonNode_calm emits_trans [OF CordonUncordonNode_calm annotate_loop_calm] by metis
qed

lemma cordon_write_calm:
  assumes "SelectNodeByInstanceID iid (ctx_nodes r) = Some n"
    and "res = cordonAndAnnotateNode e n r \<or> res = uncordonAndRemoveAnnotation e n r"
  shows "calm r (upd_cloud (\<lambda>cl. cl\<lparr>cloud_ClusterNodes := write_node iid (snd (fst res)) (cloud_ClusterNodes cl)\<rparr>) (snd res))"
proof -
  have more: "world.more (snd res) = world.more r" and em: "emits not_termination r (snd res)"
    and obj: "same_object False n (snd (fst res))"
    using assms(2) cordonAndAnnotateNode_calm [of r e n] uncordon_calm [of r e n] cordonAndAnnotateNode_object [of n e r]
      uncordonAndRemoveAnnotation_object [of n e r] by auto
  have "list_all2 (same_object False) (ctx_nodes r) (write_node iid (snd (fst res)) (ctx_nodes r))"
    using same_object_trans [OF _ obj] list_all2_refl [of "same_object False"]
    by (intro write_node_related [OF _ assms(1)]) simp_all
  then show ?thesis
    using em ctx_fields_of_more [OF more] by (simp add: calm_def emits_def)
qed

lemma cordon_instances_step:
  assumes "cordon_instances e c (i # js) p k r = Some x"
  shows "cordon_instances e c js p k r = Some x \<or>
    (\<exists>iid n res p' k'. SelectNodeByInstanceID iid (ctx_nodes r) = Some n \<and>
       (res = cordonAndAnnotateNode e n r \<or> res = uncordonAndRemoveAnnotation e n r) \<and>
       cordon_instances e c js p' k' (upd_cloud (\<lambda>cl. cl\<lparr>cloud_ClusterNodes :=
         write_node iid (snd (fst res)) (cloud_ClusterNodes cl)\<rparr>) (snd res)) = Some x)"
    (is "?skip \<or> ?act")
proof (rule disjCI)
  assume no: "\<not> ?act"
  have act: "cordon_instances e c js p' k' (upd_cloud (\<lambda>cl. cl\<lparr>cloud_ClusterNodes :=
         write_node iid (snd (fst (f e n r))) (cloud_ClusterNodes cl)\<rparr>) (snd (f e n r))) \<noteq> Some x"
    if "SelectNodeByInstanceID iid (ctx_nodes r) = Some n"
      "f = cordonAndAnnotateNode \<or> f = uncordonAndRemoveAnnotation" for iid n f p' k'
  proof
    assume run: "cordon_instances e c js p' k' (upd_cloud (\<lambda>cl. cl\<lparr>cloud_ClusterNodes :=
         write_node iid (snd (fst (f e n r))) (cloud_ClusterNodes cl)\<rparr>) (snd (f e n r))) = Some x"
    have "f e n r = cordonAndAnnotateNode e n r \<or> f e n r = uncordonAndRemoveAnnotation e n r" using that(2) by auto
    with that(1) run no show False by blast
  qed
  show ?skip
  proof (cases "inst_InstanceId i")
    case None
    then show ?thesis using assms by (auto simp: Option.bind_eq_Some_conv split: if_splits)
  next
    case (Some iid)
    show ?thesis
      using assms Some act [where f = cordonAndAnnotateNode] act [where f = uncordonAndRemoveAnnotation]
      by (cases "SelectNodeByInstanceID iid (ctx_nodes r)"; cases c)
         (auto simp: Let_def case_prod_beta Option.bind_eq_Some_conv split: if_splits)
  qed
qed

lemma cordon_instances_calm: "cordon_instances e c js p k r = Some (res, r') \<Longrightarrow> calm r r'"
proof (induction js arbitrary: p k r)
  case (Cons i js)
  from cordon_instances_step [OF Cons.prems] show ?case
    using Cons.IH calm_trans [OF cordon_write_calm Cons.IH] by blast
qed simp

lemma CordonUncordonAllNodes_calm: "CordonUncordonAllNodes e c r = Some (res, r') \<Longrightarrow> calm r r'"
  by (auto simp: CordonUncordonAllNodes_def Option.bind_eq_Some_conv split: if_splits dest: cordon_instances_calm)

subsection \<open>Modes\<close>

lemma step_targets_calm: "calm r (snd (step_targets e st ts maps r))"
  by (rule calm_call [OF step_targets_frame step_targets_emits]) simp

lemma DesiredNodesReady_calm: "calm r (snd (DesiredNodesReady e r))"
proof (rule calm_call [OF DesiredNodesReady_more])
  have "emits not_termination r (snd (ListClusterNodes e r))"
    by (simp add: ListClusterNodes_def Let_def case_prod_beta split: option.splits)
  then show "emits not_termination r (snd (DesiredNodesReady e r))"
    by (simp add: DesiredNodesReady_def Let_def case_prod_beta)
qed

lemma TagEC2instances_calm: "calm r (snd (TagEC2instances e ids k v r))"
  by (rule calm_call [OF aws_calls_more(1) emits_call [OF aws_calls_hist(1)]]) simp

lemma prepare_batch_emits:
  assumes "prepare_batch e batch maps r = Some (res, r')"
  shows "emits not_termination r r' \<and> (\<forall>maps'. res = Inr maps' \<longrightarrow> calm r r')"
proof -
  obtain maps1 r1 where step: "step_targets e NodeRotationKickoff batch maps r = (maps1, r1)" by fastforce
  have c1: "calm r r1" using step_targets_calm [of r e NodeRotationKickoff batch maps] by (simp add: step)
  consider (eager) "StrategyMode (ctx_RollingUpgrade r) = UpdateStrategyModeEager"
    | (lazy) "StrategyMode (ctx_RollingUpgrade r) \<noteq> UpdateStrategyModeEager"
        "StrategyMode (ctx_RollingUpgrade r) = UpdateStrategyModeLazy"
    | (other) "res = Inr maps" "r' = r"
    using assms unfolding prepare_batch_def by (auto split: if_splits)
  then show ?thesis
  proof cases
    case eager
    then have run: "prepare_eager e batch maps r = Some (res, r')" using assms by (simp add: prepare_batch_def)
    obtain maps2 r2 where step2: "step_targets e NodeRotationDesiredNodeReady batch maps1 r1 = (maps2, r2)" by fastforce
    have c3: "calm r (snd (DesiredNodesReady e r2))"
      using calm_trans [OF c1 calm_trans [OF step_targets_calm DesiredNodesReady_calm]] step2 by (metis snd_conv)
    show ?thesis
    proof (cases "GetInServiceInstanceIDs batch = []")
      case True
      then show ?thesis
        using run c3 calm_emits [OF c3]
        by (auto simp: prepare_eager_def step step2 case_prod_beta Let_def intro: UpdateMetricsStatus_emits split: if_splits)
    next
      case False
      then obtain res' where "standby_batch e (GetInServiceInstanceIDs batch) maps1 r1 = Some (res', r')" "res = Inl res'"
        using run by (auto simp: prepare_eager_def step Let_def Option.bind_eq_Some_conv)
      then show ?thesis
        using emits_trans [OF calm_emits [OF c1]] standby_batch_emits by blast
    qed
  next
    case lazy
    obtain err r2 where
      tag: "TagEC2instances e (GetInServiceInstanceIDs batch) instanceStateTagKey inProgressTagValue r1 = (err, r2)" by fastforce
    have c2: "calm r r2"
      using calm_trans [OF c1 TagEC2instances_calm] tag by (metis snd_conv)
    show ?thesis
      using assms lazy c2 calm_emits [OF c2]
      by (auto simp: prepare_batch_def prepare_lazy_def step tag Let_def intro: UpdateMetricsStatus_emits split: if_splits)
  next
    case other
    then show ?thesis by simp
  qed
qed

lemma standby_batch_pool: "standby_batch e ids maps r = Some (res, r') \<Longrightarrow> ctx_DrainManager r' = ctx_DrainManager r"
  using standby_batch_emits by blast

section \<open>Goroutines terminate nothing\<close>

lemma DrainNode_calm: "emits not_termination w (snd (DrainNode e (Some n) d t (Some ()) w))"
  using DrainNode_events [of e n d t w] by (auto simp: emits_def)

lemma job_NodeStep_calm: "emits not_termination r (job_NodeStep e j st r)"
  using job_NodeStep_hist [of e j st r] by (auto simp: emits_def list_all_iff)

lemma drain_stage_calm: "emits not_termination r (snd (drain_stage e j r))"
proof (cases "SelectNodeByInstanceID (job_InstanceID j) (dm_ClusterNodes (ctx_DrainManager r))")
  case (Some n)
  let ?r1 = "job_NodeStep e j NodeRotationDrain r"
  let ?d = "DrainNode e (Some n) (PostDrainDelaySeconds (job_UpgradeObject j)) (job_DrainTimeout j) (Some ()) ?r1"
  have "emits not_termination r (snd ?d)" by (rule emits_trans [OF job_NodeStep_calm DrainNode_calm])
  then have r3: "emits not_termination r (upd_pool f (snd ?d))" for f by (simp add: emits_def)
  have tag: "emits not_termination u (snd (TagEC2instances e ids k v u))" for u :: ctx and ids k v
    using TagEC2instances_calm by (simp add: calm_def)
  obtain n' where n': "snd (fst ?d) = Some n'"
    using DrainNode_object [of e n "PostDrainDelaySeconds (job_UpgradeObject j)" "job_DrainTimeout j" ?r1] by blast
  define f :: "DrainManager \<Rightarrow> DrainManager" where "f = (\<lambda>d. d\<lparr>dm_ClusterNodes := write_node (job_InstanceID j) n' (dm_ClusterNodes d)\<rparr>)"
  have "snd (drain_stage e j r) = upd_pool f (snd ?d) \<or>
      (\<exists>ids k v. snd (drain_stage e j r) = snd (TagEC2instances e ids k v (upd_pool f (snd ?d))))"
    using n' Some by (cases "fst (fst ?d)") (auto simp: drain_stage_def f_def Let_def case_prod_beta)
  then show ?thesis using r3 [of f] emits_trans [OF r3 [of f] tag] by metis
qed (simp add: drain_stage_def)

lemma stage_emits:
  fixes w :: ctx
  assumes "\<And>s vars er. P (EvExec s vars er)"
  shows "emits P w (snd (PreDrain e t w))" "emits P w (snd (PostDrain e t w))"
  "emits P w (snd (PostWait e t w))" "emits P w (snd (PostTerminate e t w))"
  using assms by (simp_all add: emits_def script_hist)

lemmas stage_calm = stage_emits [of not_termination, OF not_termination_simps(9)]

lemma job_step_calm: "job_step e i r = Some r' \<Longrightarrow> emits not_termination r r'"
proof -
  assume step: "job_step e i r = Some r'"
  have pc: "emits not_termination u (set_pc i pc v)" if "emits not_termination u v" for u v :: ctx and pc
    using that by (simp add: emits_def)
  have stage: "emits not_termination r (snd (PreDrain e t (job_NodeStep e j st r)))"
    "emits not_termination r (snd (PostDrain e t (job_NodeStep e j st r)))"
    "emits not_termination r (snd (PostWait e t (job_NodeStep e j st r)))" for t j st
    using emits_trans [OF job_NodeStep_calm stage_calm(1)] emits_trans [OF job_NodeStep_calm stage_calm(2)]
      emits_trans [OF job_NodeStep_calm stage_calm(3)] by blast+
  show ?thesis
    using step pc [OF stage(1)] pc [OF stage(2)] pc [OF stage(3)] pc [OF drain_stage_calm]
    by (cases "job_pc (jobs r ! i)")
       (auto simp: job_step_def Let_def case_prod_beta emits_same split: if_splits)
qed

lemma run_jobs_calm: "emits not_termination r (run_jobs e sched r)"
proof (induction sched arbitrary: r)
  case (Cons i sched)
  show ?case
    using Cons.IH emits_trans [OF job_step_calm Cons.IH] by (auto split: option.splits)
qed simp

section \<open>Terminations\<close>

text \<open>Only instances of the list whose node is known are terminated.\<close>

definition terminates_of :: "Node list \<Rightarrow> Instance list \<Rightarrow> event \<Rightarrow> bool" where
  "terminates_of nodes ts ev \<longleftrightarrow> bookkeeping ev \<or>
     (\<exists>t \<in> set ts. \<exists>er n. ev = EvTerminateInstance (inst_id t) er \<and> SelectNodeByInstanceID (inst_id t) nodes = Some n)"

lemma terminates_of_quiet [simp]: "\<not> terminates_of nodes ts (EvCordon name c er)" "\<not> terminates_of nodes ts (EvDrain name d er)"
  by (simp_all add: terminates_of_def)

lemma bookkeeping_of: "bookkeeping ev \<Longrightarrow> terminates_of nodes ts ev"
  by (simp add: terminates_of_def)

lemma decrement_replacements_frame [simp, frame_simps]:
  "hist (decrement_replacements r) = hist r" "ctx_Cloud (decrement_replacements r) = ctx_Cloud r"
  "ctx_DrainManager (decrement_replacements r) = ctx_DrainManager r"
  "ctx_RollingUpgrade (decrement_replacements r) = ctx_RollingUpgrade r"
  by (simp_all add: decrement_replacements_def Let_def split: option.splits)

lemma Now_emits: "P EvNow \<Longrightarrow> emits P w (snd (Now e w))"
  by (simp add: Now_def)

text \<open>What the code after the select keeps: the discovered cloud, the goroutines and the spec.\<close>

definition settles :: "(event \<Rightarrow> bool) \<Rightarrow> ctx \<Rightarrow> ctx \<Rightarrow> bool" where
  "settles P r r' \<longleftrightarrow> emits P r r' \<and> ctx_Cloud r' = ctx_Cloud r \<and> ctx_DrainManager r' = ctx_DrainManager r \<and>
     ru_Spec (ctx_RollingUpgrade r') = ru_Spec (ctx_RollingUpgrade r)"

lemma settles_refl [simp]: "settles P r r"
  by (simp add: settles_def)

lemma settles_trans: "settles P u v \<Longrightarrow> settles P v w \<Longrightarrow> settles P u w"
  unfolding settles_def using emits_trans [of P u v w] by simp

lemma settles_mono: "settles P r r' \<Longrightarrow> (\<And>ev. P ev \<Longrightarrow> Q ev) \<Longrightarrow> settles Q r r'"
  unfolding settles_def using emits_mono [of P r r' Q] by simp

lemma settles_call: "world.more r' = world.more r \<Longrightarrow> emits P r r' \<Longrightarrow> settles P r r'"
  using ctx_fields_of_more [of r' r] by (simp add: settles_def)

lemma settles_steps:
  "settles bookkeeping r (snd (NodeStep e inP steps g n st r))"
  "settles bookkeeping r (snd (DoNodeStep e inP steps g n st t r))"
  "settles bookkeeping r (snd (Now e r))"
  "settles bookkeeping r (snd (PostTerminate e tg r))"
  "settles bookkeeping r (snd (UntagEC2instances e ids k v r))"
  "settles bookkeeping r (decrement_replacements r)"
  "settles bookkeeping r (UpdateMetricsStatus e inP steps r)"
  "settles bookkeeping r (alias_status maps r)"
  "settles bookkeeping r (upd_ru (SetLastNodeTerminationTime tm) r)"
  "settles bookkeeping r (upd_ru (SetLastNodeDrainTime tm) r)"
proof -
  show "settles bookkeeping r (snd (NodeStep e inP steps g n st r))"
    "settles bookkeeping r (snd (DoNodeStep e inP steps g n st t r))"
    "settles bookkeeping r (snd (Now e r))"
    "settles bookkeeping r (snd (PostTerminate e tg r))"
    by (rule settles_call; simp add: NodeStep_emits DoNodeStep_emits Now_emits stage_emits)+
  show "settles bookkeeping r (snd (UntagEC2instances e ids k v r))"
    by (rule settles_call [OF aws_calls_more(2) emits_call [OF aws_calls_hist(2)]]) simp
qed (simp_all add: settles_def emits_same UpdateMetricsStatus_emits alias_status_def
      SetLastNodeTerminationTime_def SetLastNodeDrainTime_def)

lemma finish_target_settles: "settles bookkeeping r (snd (finish_target e tg maps r))"
proof -
  let ?asg = "spec_AsgName (ru_Spec (ctx_RollingUpgrade r))" and ?n = "target_NodeName tg"
  define r3 where "r3 = snd (Now e (decrement_replacements
      (snd (UntagEC2instances e [target_InstanceID tg] instanceStateTagKey inProgressTagValue r))))"
  obtain now r4 where now: "r4 = upd_ru (SetLastNodeTerminationTime now) r3" and
    r4: "now = Some (fst (Now e (decrement_replacements
      (snd (UntagEC2instances e [target_InstanceID tg] instanceStateTagKey inProgressTagValue r)))))" by blast
  obtain maps1 r5 where step1: "NodeStep e (fst maps) (snd maps) ?asg ?n NodeRotationPostTerminate r4 = (maps1, r5)"
    by (metis prod.exhaust)
  obtain err r6 where post: "PostTerminate e tg r5 = (err, r6)" by fastforce
  have c4: "settles bookkeeping r r4"
    unfolding now r3_def using settles_steps(3,5,6,9) settles_trans by meson
  have c6: "settles bookkeeping r r6"
    using settles_trans [OF c4 settles_trans [OF settles_steps(1,4)]] step1 post by (metis snd_conv)
  have run: "finish_target e tg maps r =
     (if err \<noteq> None then (Inl (False, err), alias_status maps1 r6)
      else (let (now2, r7) = Now e r6;
                terminatedTime = now2 + wrap64 (NodeIntervalSeconds (ctx_RollingUpgrade r7) * Second);
                (maps2, r8) = NodeStep e (fst maps1) (snd maps1) ?asg ?n NodeRotationTerminated r7;
                (maps3, r9) = DoNodeStep e (fst maps2) (snd maps2) ?asg ?n NodeRotationCompleted terminatedTime r8
            in (Inr maps3, r9)))"
    unfolding finish_target_def Let_def case_prod_beta using step1 post by (simp add: now r4 r3_def)
  have c9: "settles bookkeeping r (snd (DoNodeStep e i1 s1 g1 n1 st1 t1 (snd (NodeStep e i2 s2 g2 n2 st2 (snd (Now e r6))))))"
    for i1 s1 g1 n1 st1 t1 i2 s2 g2 n2 st2
    using settles_trans [OF c6 settles_trans [OF settles_steps(3) settles_trans [OF settles_steps(1,2)]]] by blast
  show ?thesis
    using settles_trans [OF c6 settles_steps(8)] c9 by (simp add: run Let_def case_prod_beta)
qed

lemma TerminateInstance_event:
  "hist (snd (TerminateInstance e t r)) = hist r @ [EvTerminateInstance (inst_id t) (fst (TerminateInstance e t r))]"
  using aws_calls_hist(3) [of e t r] by simp

lemma terminate_target_settles:
  assumes "SelectNodeByInstanceID (inst_id t) (ctx_nodes r) = Some n" and "t \<in> set ts"
  shows "settles (terminates_of (ctx_nodes r) ts) r (snd (terminate_target e t n maps r))"
proof -
  let ?P = "terminates_of (ctx_nodes r) ts"
  obtain maps1 r1 where step: "NodeStep e (fst maps) (snd maps) (spec_AsgName (ru_Spec (ctx_RollingUpgrade r)))
      (node_Name n) NodeRotationTerminate r = (maps1, r1)" by (metis prod.exhaust)
  obtain err r2 where call: "TerminateInstance e t r1 = (err, r2)" by fastforce
  have weak: "settles ?P u v" if "settles bookkeeping u v" for u v
    by (rule settles_mono [OF that bookkeeping_of])
  have c1: "settles ?P r r1"
    using weak [OF settles_steps(1)] step by (metis snd_conv)
  have "settles ?P r1 (snd (TerminateInstance e t r1))"
    by (rule settles_call [OF aws_calls_more(3) emits_call [OF TerminateInstance_event]])
       (use assms in \<open>auto simp: terminates_of_def\<close>)
  then have c2: "settles ?P r r2" using settles_trans [OF c1] by (simp add: call)
  show ?thesis
    using settles_trans [OF c2 weak [OF settles_steps(7)]] settles_trans [OF c2 weak [OF finish_target_settles]]
    by (simp add: terminate_target_def step call)
qed

lemma terminate_targets_settles:
  "set ts \<subseteq> set us \<Longrightarrow> settles (terminates_of (ctx_nodes r) us) r (snd (terminate_targets e ts maps r))"
proof (induction ts arbitrary: maps r)
  case (Cons t ts)
  show ?case
  proof (cases "SelectNodeByInstanceID (inst_id t) (ctx_nodes r)")
    case None
    then show ?thesis using Cons by simp
  next
    case (Some n)
    obtain res r' where one: "terminate_target e t n maps r = (res, r')" by fastforce
    have c: "settles (terminates_of (ctx_nodes r) us) r r'"
      using terminate_target_settles [OF Some, of us e maps] Cons.prems by (simp add: one)
    then have "ctx_nodes r' = ctx_nodes r" by (simp add: settles_def)
    then have "settles (terminates_of (ctx_nodes r) us) r (snd (terminate_targets e ts maps' r'))" for maps'
      using settles_trans [OF c] Cons.IH [of r' maps'] Cons.prems by simp
    then show ?thesis using c Some one by (cases res) simp_all
  qed
qed simp

lemma done_branch_settles: "settles (terminates_of (ctx_nodes r) batch) r (snd (done_branch e batch maps r))"
proof -
  let ?P = "terminates_of (ctx_nodes r) batch"
  have weak: "settles ?P u v" if "settles bookkeeping u v" for u v
    by (rule settles_mono [OF that bookkeeping_of])
  define r2 where "r2 = upd_ru (SetLastNodeDrainTime (Some (fst (Now e r)))) (snd (Now e r))"
  obtain res r3 where run: "terminate_targets e batch maps r2 = (res, r3)" by fastforce
  have c2: "settles ?P r r2"
    unfolding r2_def by (rule weak [OF settles_trans [OF settles_steps(3,10)]])
  then have "ctx_nodes r2 = ctx_nodes r" by (simp add: settles_def)
  then have c3: "settles ?P r r3"
    using settles_trans [OF c2, of r3] terminate_targets_settles [of batch batch r2 e maps] by (simp add: run)
  then show ?thesis
    using settles_trans [OF c3 weak [OF settles_steps(7)]] run
    by (cases res) (simp_all add: done_branch_def r2_def Let_def case_prod_beta)
qed

section \<open>The select\<close>

lemma receive_hist: "receive i r = Some (er, r') \<Longrightarrow> hist r' = hist r"
  by (auto simp: receive_def split: if_splits drain_pc.splits)

lemma await_drains_cases:
  assumes "await_drains e sched choice spawned batch maps r = (res, r')"
  shows "emits not_termination r r' \<or>
    (choice = DoneCase \<and> dm_DrainGroup (ctx_DrainManager (run_jobs e sched r)) = 0 \<and>
     settles (terminates_of (ctx_nodes r) batch) (run_jobs e sched r) r')"
proof -
  let ?r1 = "run_jobs e sched r"
  have metrics: "emits not_termination r (UpdateMetricsStatus e inP steps u)" if "hist u = hist ?r1" for inP steps u
    using run_jobs_calm [of r e sched] that by (auto simp: emits_def)
  show ?thesis
  proof (cases choice)
    case (DrainErrorCase i)
    then show ?thesis
      using assms metrics receive_hist by (auto simp: await_drains_def Let_def split: option.splits)
  next
    case DoneCase
    then show ?thesis
      using assms metrics done_branch_settles [of ?r1 batch e "if spawned then (dm_InProcessingNodes
        (ctx_DrainManager ?r1), dm_NodeSteps (ctx_DrainManager ?r1)) else maps"]
      by (cases "dm_DrainGroup (ctx_DrainManager ?r1) = 0") (auto simp: await_drains_def Let_def)
  next
    case TimeoutCase
    then show ?thesis using assms metrics by (auto simp: await_drains_def Let_def)
  qed
qed

lemma still_waiting_calm: "calm r (snd (still_waiting e since interval r))"
  by (rule calm_call)
     (auto simp: still_waiting_def Let_def case_prod_beta Now_emits split: option.splits)

text \<open>
  A call terminates nothing, or it prepared the batch calmly, started goroutines if the pool was
  idle, and then saw the wait group at zero.
\<close>

definition goes_on :: "env \<Rightarrow> nat list \<Rightarrow> Instance list \<Rightarrow> ctx \<Rightarrow> ctx \<Rightarrow> ctx \<Rightarrow> ctx \<Rightarrow> bool" where
  "goes_on e sched batch r r2 r3 r' \<longleftrightarrow>
     (\<exists>maps. r3 = run_jobs e sched (if dm_DrainGroup (ctx_DrainManager r2) = 0
        then spawn_drains batch (fst maps) (snd maps) r2 else r2)) \<and>
     calm r r2 \<and> dm_DrainGroup (ctx_DrainManager r3) = 0 \<and> settles (terminates_of (ctx_nodes r2) batch) r3 r'"

lemma spawn_drains_frame [simp]:
  "hist (spawn_drains batch inP steps r) = hist r" "ctx_Cloud (spawn_drains batch inP steps r) = ctx_Cloud r"
  "ctx_RollingUpgrade (spawn_drains batch inP steps r) = ctx_RollingUpgrade r"
  by (simp_all add: spawn_drains_eq)

lemma drain_batch_cases:
  assumes "drain_batch e sched choice batch maps r = (res, r')"
  shows "emits not_termination r r' \<or> (choice = DoneCase \<and> (\<exists>r2 r3. goes_on e sched batch r r2 r3 r'))"
proof -
  let ?ru = "ctx_RollingUpgrade r"
  obtain b1 r1 where w1: "still_waiting e (LastNodeTerminationTime ?ru) (NodeIntervalSeconds ?ru) r = (b1, r1)" by fastforce
  obtain b2 r2 where w2: "still_waiting e (LastNodeDrainTime ?ru) (PostDrainDelaySeconds ?ru) r1 = (b2, r2)" by fastforce
  have c1: "calm r r1" using still_waiting_calm [of r] w1 by (metis snd_conv)
  have c2: "calm r r2" using calm_trans [OF c1] still_waiting_calm [of r1] w2 by (metis snd_conv)
  show ?thesis
  proof (cases "b1 \<or> b2")
    case True
    then have "hist r' = hist r1 \<or> hist r' = hist r2"
      using assms w1 w2 by (cases b1; cases b2) (auto simp: drain_batch_def Let_def)
    then show ?thesis
      using calm_emits [OF c1] calm_emits [OF c2] by (auto simp: emits_def)
  next
    case False
    define r3 where "r3 = (if dm_DrainGroup (ctx_DrainManager r2) = 0
      then spawn_drains batch (fst maps) (snd maps) r2 else r2)"
    have "await_drains e sched choice (dm_DrainGroup (ctx_DrainManager r2) = 0) batch maps r3 = (res, r')"
      using assms w1 w2 False by (simp add: drain_batch_def r3_def Let_def)
    moreover have "ctx_nodes r3 = ctx_nodes r2" "hist r3 = hist r2" by (simp_all add: r3_def)
    ultimately show ?thesis
      using await_drains_cases c2 emits_trans [OF calm_emits [OF c2]] emits_cong_left [of r2 r3]
      unfolding goes_on_def r3_def by metis
  qed
qed

abbreviation start_maps :: "ctx \<Rightarrow> step_maps" where
  "start_maps r \<equiv> (status_NodeInProcessing (ru_Status (ctx_RollingUpgrade r)), [])"

lemma ReplaceNodeBatch_phases:
  assumes "ReplaceNodeBatch e sched choice batch r = Some (res, r')"
  shows "emits not_termination r r' \<or>
    (\<exists>r1 maps r2. calm r r1 \<and> prepare_batch e batch (start_maps r) r1 = Some (Inr maps, r2) \<and> calm r r2 \<and>
       drain_batch e sched choice batch maps r2 = (res, r'))"
proof -
  obtain ok err r1 where c: "(if ctx_EarlyCordonNodes r then CordonUncordonAllNodes e True r
      else Some ((True, None), r)) = Some ((ok, err), r1)"
    using assms by (auto simp: ReplaceNodeBatch_def Let_def Option.bind_eq_Some_conv)
  have c1: "calm r r1"
    using c CordonUncordonAllNodes_calm by (auto split: if_splits)
  show ?thesis
  proof (cases ok)
    case False
    then show ?thesis using assms c calm_emits [OF c1] by (auto simp: ReplaceNodeBatch_def Let_def)
  next
    case True
    then obtain res2 r2 where prep: "prepare_batch e batch (start_maps r) r1 = Some (res2, r2)"
      using assms c by (auto simp: ReplaceNodeBatch_def Let_def Option.bind_eq_Some_conv)
    have em: "emits not_termination r r2"
      using emits_trans [OF calm_emits [OF c1]] prepare_batch_emits [OF prep] by blast
    show ?thesis
    proof (cases res2)
      case (Inl ret)
      then show ?thesis using assms c True prep em by (auto simp: ReplaceNodeBatch_def Let_def)
    next
      case (Inr maps')
      then have "calm r r2" using calm_trans [OF c1] prepare_batch_emits [OF prep] by blast
      moreover have "drain_batch e sched choice batch maps' r2 = (res, r')"
        using assms c True prep Inr by (simp add: ReplaceNodeBatch_def Let_def)
      ultimately show ?thesis using c1 prep Inr by blast
    qed
  qed
qed

lemma ReplaceNodeBatch_cases:
  assumes "ReplaceNodeBatch e sched choice batch r = Some (res, r')"
  shows "emits not_termination r r' \<or> (choice = DoneCase \<and> (\<exists>r2 r3. goes_on e sched batch r r2 r3 r'))"
  using ReplaceNodeBatch_phases [OF assms]
proof (elim disjE exE conjE)
  fix r1 maps r2 assume c: "calm r r2" and "drain_batch e sched choice batch maps r2 = (res, r')"
  from drain_batch_cases [OF this(2)] show ?thesis
    using emits_trans [OF calm_emits [OF c]] calm_trans [OF c] unfolding goes_on_def by blast
qed simp

text \<open>Eager mode goes on only with no target in service and all desired nodes ready.\<close>

lemma prepare_eager_ready:
  assumes "prepare_eager e batch maps r = Some (Inr maps', r')"
  shows "GetInServiceInstanceIDs batch = [] \<and> (\<exists>u. calm r u \<and> fst (DesiredNodesReady e u))"
proof -
  obtain m1 s1 where s1: "step_targets e NodeRotationKickoff batch maps r = (m1, s1)" by fastforce
  obtain m2 s2 where s2: "step_targets e NodeRotationDesiredNodeReady batch m1 s1 = (m2, s2)" by fastforce
  have "calm r s2"
    using calm_trans [OF step_targets_calm step_targets_calm] s1 s2 by (metis snd_conv)
  moreover have "fst (DesiredNodesReady e s2) \<and> GetInServiceInstanceIDs batch = []"
    using assms by (auto simp: prepare_eager_def s1 s2 Let_def case_prod_beta Option.bind_eq_Some_conv split: if_splits)
  ultimately show ?thesis by blast
qed

section \<open>Progress\<close>

definition termination_succeeds :: "env \<Rightarrow> bool" where
  "termination_succeeds e \<longleftrightarrow> (\<forall>h i. env_TerminateInstanceInAutoScalingGroup e h i = None) \<and>
     (\<forall>h script vars. env_Exec e h script vars = None)"

lemma finish_target_succeeds:
  assumes "termination_succeeds e"
  shows "\<exists>maps' r'. finish_target e tg maps r = (Inr maps', r')"
proof -
  have "fst (PostTerminate e tg w) = None" for w :: ctx
    using assms by (simp add: PostTerminate_def runScript_def termination_succeeds_def Let_def)
  then show ?thesis by (simp add: finish_target_def Let_def case_prod_beta)
qed

lemma terminate_target_succeeds:
  assumes "termination_succeeds e" and "SelectNodeByInstanceID (inst_id t) (ctx_nodes r) = Some n"
  shows "\<exists>maps' r'. terminate_target e t n maps r = (Inr maps', r') \<and> extends r r' \<and>
    ctx_nodes r' = ctx_nodes r \<and> EvTerminateInstance (inst_id t) None \<in> set (new_events r r')"
proof -
  obtain maps1 r1 where step: "NodeStep e (fst maps) (snd maps) (spec_AsgName (ru_Spec (ctx_RollingUpgrade r)))
      (node_Name n) NodeRotationTerminate r = (maps1, r1)" by (metis prod.exhaust)
  have none: "fst (TerminateInstance e t r1) = None"
    using assms(1) by (simp add: TerminateInstance_def termination_succeeds_def Let_def)
  define r2 where "r2 = snd (TerminateInstance e t r1)"
  have r1: "extends r r1"
    using settles_steps(1) [of r] step emits_extends unfolding settles_def by (metis snd_conv)
  have r2: "hist r2 = hist r1 @ [EvTerminateInstance (inst_id t) None]"
    unfolding r2_def using TerminateInstance_event [of e t r1] none by simp
  let ?tg = "\<lparr>target_InstanceID = inst_id t, target_NodeName = node_Name n, target_UpgradeObject = ctx_RollingUpgrade r\<rparr>"
  obtain maps' r' where fin: "finish_target e ?tg maps1 r2 = (Inr maps', r')"
    using finish_target_succeeds [OF assms(1)] by blast
  have run: "terminate_target e t n maps r = (Inr maps', r')"
    using none fin by (simp add: terminate_target_def step r2_def Let_def case_prod_beta)
  have "extends r2 r'"
    using finish_target_settles [of r2 e ?tg maps1] emits_extends unfolding fin settles_def by (metis snd_conv)
  then obtain evs evs' where "hist r' = hist r @ evs @ EvTerminateInstance (inst_id t) None # evs'"
    using r1 r2 unfolding extends_def by (metis append.assoc append_Cons append_Nil)
  moreover have "settles (terminates_of (ctx_nodes r) [t]) r r'"
    using terminate_target_settles [OF assms(2), of "[t]" e maps] by (simp add: run)
  ultimately show ?thesis
    using run by (auto simp: settles_def extends_def new_events_def)
qed

lemma new_events_mono:
  "extends u v \<Longrightarrow> extends v w \<Longrightarrow> set (new_events u v) \<subseteq> set (new_events u w) \<and> set (new_events v w) \<subseteq> set (new_events u w)"
  by (auto simp: extends_def new_events_def)

lemma terminate_targets_all:
  assumes "termination_succeeds e"
  shows "\<exists>maps' r'. terminate_targets e ts maps r = (Inr maps', r') \<and> extends r r' \<and>
    (\<forall>t \<in> set ts. SelectNodeByInstanceID (inst_id t) (ctx_nodes r) \<noteq> None \<longrightarrow>
       EvTerminateInstance (inst_id t) None \<in> set (new_events r r'))"
proof (induction ts arbitrary: maps r)
  case (Cons t ts)
  show ?case
  proof (cases "SelectNodeByInstanceID (inst_id t) (ctx_nodes r)")
    case None
    then show ?thesis using Cons [of maps r] by simp
  next
    case (Some n)
    obtain maps1 r1 where one: "terminate_target e t n maps r = (Inr maps1, r1)" "extends r r1"
      "ctx_nodes r1 = ctx_nodes r" "EvTerminateInstance (inst_id t) None \<in> set (new_events r r1)"
      using terminate_target_succeeds [OF assms Some] by blast
    obtain maps2 r2 where rest: "terminate_targets e ts maps1 r1 = (Inr maps2, r2)" "extends r1 r2"
      "\<forall>t \<in> set ts. SelectNodeByInstanceID (inst_id t) (ctx_nodes r1) \<noteq> None \<longrightarrow>
         EvTerminateInstance (inst_id t) None \<in> set (new_events r1 r2)"
      using Cons by blast
    show ?thesis
      using one rest new_events_mono [OF one(2) rest(2)] extends_trans [OF one(2) rest(2)] Some by auto
  qed
qed simp

text \<open>Neither the termination interval nor the drain delay is still running.\<close>

definition wait_over :: "env \<Rightarrow> RollingUpgrade \<Rightarrow> bool" where
  "wait_over e ru \<longleftrightarrow>
     (\<forall>w. \<not> fst (still_waiting e (LastNodeTerminationTime ru) (NodeIntervalSeconds ru) w) \<and>
          \<not> fst (still_waiting e (LastNodeDrainTime ru) (PostDrainDelaySeconds ru) w))"

lemma still_waiting_more [simp]: "world.more (snd (still_waiting e since interval r)) = world.more r"
  by (auto simp: still_waiting_def Let_def case_prod_beta split: option.splits)

lemma still_waiting_emits: "emits bookkeeping r (snd (still_waiting e since interval r))"
  by (auto simp: still_waiting_def Let_def case_prod_beta Now_emits split: option.splits)

text \<open>The context after both waits, and the one after the goroutines ran.\<close>

definition after_waits :: "env \<Rightarrow> ctx \<Rightarrow> ctx" where
  "after_waits e r =
     (let ru = ctx_RollingUpgrade r
      in snd (still_waiting e (LastNodeDrainTime ru) (PostDrainDelaySeconds ru)
           (snd (still_waiting e (LastNodeTerminationTime ru) (NodeIntervalSeconds ru) r))))"

definition after_drains :: "env \<Rightarrow> nat list \<Rightarrow> Instance list \<Rightarrow> step_maps \<Rightarrow> ctx \<Rightarrow> ctx" where
  "after_drains e sched batch maps r =
     run_jobs e sched (if dm_DrainGroup (ctx_DrainManager r) = 0
       then spawn_drains batch (fst maps) (snd maps) r else r)"

lemma after_waits_frame: "world.more (after_waits e r) = world.more r" "emits bookkeeping r (after_waits e r)"
  unfolding after_waits_def Let_def using still_waiting_emits emits_trans by (simp, blast)

lemma drain_batch_done:
  assumes "termination_succeeds e" and "wait_over e (ctx_RollingUpgrade r)"
    and "dm_DrainGroup (ctx_DrainManager (after_drains e sched batch maps (after_waits e r))) = 0"
  shows "\<exists>r'. drain_batch e sched DoneCase batch maps r = ((True, None), r') \<and>
    settles (terminates_of (ctx_nodes r) batch) (after_drains e sched batch maps (after_waits e r)) r' \<and>
    (\<forall>t \<in> set batch. SelectNodeByInstanceID (inst_id t) (ctx_nodes r) \<noteq> None \<longrightarrow>
       EvTerminateInstance (inst_id t) None \<in> set (new_events (after_drains e sched batch maps (after_waits e r)) r'))"
proof -
  let ?r3 = "after_drains e sched batch maps (after_waits e r)"
  define maps1 where "maps1 = (if dm_DrainGroup (ctx_DrainManager (after_waits e r)) = 0
    then (dm_InProcessingNodes (ctx_DrainManager ?r3), dm_NodeSteps (ctx_DrainManager ?r3)) else maps)"
  have nodes: "ctx_nodes ?r3 = ctx_nodes r"
    using ctx_fields_of_more(1) [OF after_waits_frame(1)] by (simp add: after_drains_def)
  let ?r4 = "upd_ru (SetLastNodeDrainTime (Some (fst (Now e ?r3)))) (snd (Now e ?r3))"
  obtain maps2 r5 where fin: "terminate_targets e batch maps1 ?r4 = (Inr maps2, r5)" "extends ?r4 r5"
    "\<forall>t \<in> set batch. SelectNodeByInstanceID (inst_id t) (ctx_nodes ?r4) \<noteq> None \<longrightarrow>
       EvTerminateInstance (inst_id t) None \<in> set (new_events ?r4 r5)"
    using terminate_targets_all [OF assms(1)] by blast
  let ?r' = "UpdateMetricsStatus e (fst maps2) (snd maps2) r5"
  have branch: "done_branch e batch maps1 ?r3 = ((True, None), ?r')"
    using fin(1) by (simp add: done_branch_def Let_def case_prod_beta)
  have "drain_batch e sched DoneCase batch maps r = done_branch e batch maps1 ?r3"
    using assms(2,3)
    by (simp add: drain_batch_def await_drains_def wait_over_def after_waits_def after_drains_def maps1_def Let_def
        case_prod_beta)
  moreover have "settles (terminates_of (ctx_nodes r) batch) ?r3 ?r'"
    using done_branch_settles [of ?r3 batch e maps1] by (simp add: branch nodes)
  moreover have "EvTerminateInstance (inst_id t) None \<in> set (new_events ?r3 ?r')"
    if "t \<in> set batch" "SelectNodeByInstanceID (inst_id t) (ctx_nodes r) \<noteq> None" for t
  proof -
    have "EvTerminateInstance (inst_id t) None \<in> set (new_events ?r4 r5)" using fin(3) that nodes ctx_fields_of_more(1) [OF Now_frame(1)] by simp
    moreover have "extends ?r3 ?r4" "extends r5 ?r'" by (simp_all add: extends_def Now_def)
    ultimately show ?thesis
      using new_events_mono [OF _ fin(2)] new_events_mono [OF extends_trans [OF _ fin(2)]] by blast
  qed
  ultimately show ?thesis using branch by simp
qed

text \<open>
  A batch that is ready to be replaced: in lazy mode tagging succeeds; in eager mode its instances are
  out of service and the desired nodes are ready.
\<close>

definition batch_ready :: "env \<Rightarrow> Instance list \<Rightarrow> ctx \<Rightarrow> bool" where
  "batch_ready e batch r \<longleftrightarrow> \<not> ctx_EarlyCordonNodes r \<and> wait_over e (ctx_RollingUpgrade r) \<and> termination_succeeds e \<and>
     (StrategyMode (ctx_RollingUpgrade r) = UpdateStrategyModeLazy \<and> (\<forall>h ids k v. env_CreateTags e h ids k v = None) \<or>
      StrategyMode (ctx_RollingUpgrade r) = UpdateStrategyModeEager \<and> GetInServiceInstanceIDs batch = [] \<and>
        (\<forall>w :: ctx. world.more w = world.more r \<longrightarrow> fst (DesiredNodesReady e w)))"

lemma prepare_batch_ready:
  assumes "batch_ready e batch r"
  shows "\<exists>maps' r2. prepare_batch e batch maps r = Some (Inr maps', r2) \<and>
    world.more r2 = world.more r \<and> emits bookkeeping r r2"
proof -
  obtain maps1 r1 where step: "step_targets e NodeRotationKickoff batch maps r = (maps1, r1)" by fastforce
  have r1: "world.more r1 = world.more r" "emits bookkeeping r r1"
    using step_targets_frame [of e NodeRotationKickoff batch maps r]
      step_targets_emits [of bookkeeping r e NodeRotationKickoff batch maps] by (simp_all add: step)
  show ?thesis
  proof (cases "StrategyMode (ctx_RollingUpgrade r) = UpdateStrategyModeLazy")
    case True
    define r2 where "r2 = snd (TagEC2instances e (GetInServiceInstanceIDs batch) instanceStateTagKey inProgressTagValue r1)"
    have "emits bookkeeping r1 r2" unfolding r2_def by (rule emits_call [OF aws_calls_hist(1)]) simp
    then have "emits bookkeeping r r2" "world.more r2 = world.more r"
      using emits_trans [OF r1(2)] r1(1) by (simp_all add: r2_def)
    moreover have "fst (TagEC2instances e ids k v w) = None" for ids k v and w :: ctx
      using assms True by (simp add: TagEC2instances_def batch_ready_def Let_def)
    then have "prepare_batch e batch maps r = Some (Inr maps1, r2)"
      using True by (simp add: prepare_batch_def prepare_lazy_def step r2_def Let_def case_prod_beta)
    ultimately show ?thesis by blast
  next
    case False
    obtain maps2 r2 where step2: "step_targets e NodeRotationDesiredNodeReady batch maps1 r1 = (maps2, r2)" by fastforce
    have r2: "world.more r2 = world.more r" "emits bookkeeping r r2"
      using step_targets_frame [of e NodeRotationDesiredNodeReady batch maps1 r1] r1
        emits_trans [OF r1(2) step_targets_emits [of bookkeeping r1 e NodeRotationDesiredNodeReady batch maps1]]
      by (simp_all add: step2)
    have "emits bookkeeping r2 (snd (DesiredNodesReady e r2))"
      by (simp add: DesiredNodesReady_def ListClusterNodes_def Let_def case_prod_beta bookkeeping_def split: option.splits)
    then have "emits bookkeeping r (snd (DesiredNodesReady e r2))" using emits_trans [OF r2(2)] by blast
    moreover have "prepare_batch e batch maps r = Some (Inr maps2, snd (DesiredNodesReady e r2))"
      using assms False r2(1)
      by (simp add: prepare_batch_def prepare_eager_def batch_ready_def step step2 Let_def case_prod_beta)
    ultimately show ?thesis using r2(1) by simp
  qed
qed

lemma ReplaceNodeBatch_ready:
  assumes "batch_ready e batch r"
  shows "\<exists>maps r2. ReplaceNodeBatch e sched choice batch r = Some (drain_batch e sched choice batch maps r2) \<and>
    world.more r2 = world.more r \<and> emits bookkeeping r r2"
proof -
  obtain maps r2 where r2: "prepare_batch e batch (start_maps r) r = Some (Inr maps, r2)"
    "world.more r2 = world.more r" "emits bookkeeping r r2" using prepare_batch_ready [OF assms] by blast
  moreover have "\<not> ctx_EarlyCordonNodes r" using assms by (simp add: batch_ready_def)
  ultimately have "ReplaceNodeBatch e sched choice batch r = Some (drain_batch e sched choice batch maps r2)"
    by (simp add: ReplaceNodeBatch_def Let_def)
  with r2 show ?thesis by blast
qed

lemma ready_batch_done:
  assumes "batch_ready e batch r"
    and zero: "\<forall>maps r2. world.more r2 = world.more r \<longrightarrow>
      dm_DrainGroup (ctx_DrainManager (after_drains e sched batch maps r2)) = 0"
  shows "\<exists>maps r2 r'. ReplaceNodeBatch e sched DoneCase batch r = Some ((True, None), r') \<and>
    world.more r2 = world.more r \<and> emits bookkeeping r r2 \<and>
    settles (terminates_of (ctx_nodes r) batch) (after_drains e sched batch maps r2) r' \<and>
    (\<forall>t \<in> set batch. SelectNodeByInstanceID (inst_id t) (ctx_nodes r) \<noteq> None \<longrightarrow>
       EvTerminateInstance (inst_id t) None \<in> set (new_events r r'))"
proof -
  obtain maps r1 where run: "ReplaceNodeBatch e sched DoneCase batch r = Some (drain_batch e sched DoneCase batch maps r1)"
    and more: "world.more r1 = world.more r" and em: "emits bookkeeping r r1"
    using ReplaceNodeBatch_ready [OF assms(1)] by blast
  define r2 where "r2 = after_waits e r1"
  have more2: "world.more r2 = world.more r" and em2: "emits bookkeeping r r2"
    using more emits_trans [OF em after_waits_frame(2)] by (simp_all add: r2_def after_waits_frame(1))
  note fields = ctx_fields_of_more [OF more]
  have "termination_succeeds e" "wait_over e (ctx_RollingUpgrade r1)"
    using assms(1) fields by (simp_all add: batch_ready_def)
  from drain_batch_done [OF this zero [rule_format, OF more2, unfolded r2_def]] obtain r' where
    r': "drain_batch e sched DoneCase batch maps r1 = ((True, None), r')"
    "settles (terminates_of (ctx_nodes r) batch) (after_drains e sched batch maps r2) r'"
    "\<forall>t \<in> set batch. SelectNodeByInstanceID (inst_id t) (ctx_nodes r) \<noteq> None \<longrightarrow>
       EvTerminateInstance (inst_id t) None \<in> set (new_events (after_drains e sched batch maps r2) r')"
    unfolding r2_def fields(1) by blast
  have "emits not_termination r2 (after_drains e sched batch maps r2)"
    unfolding after_drains_def by (rule emits_cong_left [OF _ run_jobs_calm]) simp
  then have "extends r (after_drains e sched batch maps r2)"
    using em2 extends_trans emits_extends by blast
  then have "\<forall>t \<in> set batch. SelectNodeByInstanceID (inst_id t) (ctx_nodes r) \<noteq> None \<longrightarrow>
       EvTerminateInstance (inst_id t) None \<in> set (new_events r r')"
    using r'(2,3) new_events_mono [of r _ r'] emits_extends unfolding settles_def by (metis subsetD)
  moreover have "ReplaceNodeBatch e sched DoneCase batch r = Some ((True, None), r')" using run r'(1) by simp
  ultimately show ?thesis using more2 em2 r'(2) by (intro exI conjI)
qed

lemma ready_batch_zero:
  assumes "calls_succeed e" and "pool_ok r" and "dm_DrainGroup (ctx_DrainManager r) = 0"
    and "\<forall>i < length (jobs r) + length batch. 5 \<le> count_list sched i"
  shows "\<forall>maps r2. world.more r2 = world.more r \<longrightarrow> dm_DrainGroup (ctx_DrainManager (after_drains e sched batch maps r2)) = 0"
proof (intro allI impI)
  fix maps r2 assume more: "world.more r2 = world.more r"
  note fields = ctx_fields_of_more [OF more]
  have pool: "pool_ok r2" "dm_DrainGroup (ctx_DrainManager r2) = 0"
    using assms(2,3) fields by (simp_all add: pool_ok_def active_def)
  have "length (new_jobs r2 batch) \<le> length batch"
    by (induction batch) (auto split: option.splits)
  then have "\<forall>i < length (jobs (spawn_drains batch (fst maps) (snd maps) r2)). 5 \<le> count_list sched i"
    using assms(4) fields by (simp add: spawn_drains_eq)
  from spawned_drains_finish [OF assms(1) pool this]
  show "dm_DrainGroup (ctx_DrainManager (after_drains e sched batch maps r2)) = 0" by (simp add: after_drains_def pool)
qed

text \<open>Goroutines whose only remaining instruction is the deferred \<^verbatim>\<open>Done\<close> make no more calls.\<close>

definition returning :: "ctx \<Rightarrow> bool" where
  "returning r \<longleftrightarrow> (\<forall>j \<in> set (jobs r). job_pc j = AtReturn \<or> job_pc j = Finished)"

lemma run_jobs_returning: "returning r \<Longrightarrow> hist (run_jobs e sched r) = hist r"
proof (induction sched arbitrary: r)
  case (Cons i sched)
  show ?case
  proof (cases "job_step e i r")
    case (Some r')
    then have i: "i < length (jobs r)" "job_pc (jobs r ! i) \<noteq> Finished" using job_step_jobs by blast+
    then have pc: "job_pc (jobs r ! i) = AtReturn" using Cons.prems nth_mem unfolding returning_def by blast
    then have r': "r' = set_pc i Finished (upd_pool (\<lambda>d. d\<lparr>dm_DrainGroup := dm_DrainGroup d - 1\<rparr>) r)"
      using Some i by (simp add: job_step_def)
    then have "set (jobs r') \<subseteq> insert ((jobs r ! i)\<lparr>job_pc := Finished\<rparr>) (set (jobs r))"
      using set_update_subset_insert by force
    then have "returning r'" using Cons.prems by (auto simp: returning_def)
    from Cons.IH [OF this] Some r' show ?thesis by simp
  qed (use Cons in simp)
qed simp

section \<open>Properties\<close>

text \<open>
  A goroutine's work as it stands in the history \<open>h\<close>: the scripts that are set succeeded, and the node
  was cordoned and drained within the effective timeout, or failures are ignored and this was tried.
\<close>

definition handled :: "event list \<Rightarrow> drain_job \<Rightarrow> bool" where
  "handled h j \<longleftrightarrow> script_ok h (PreDrainScript (job_UpgradeObject j)) (job_target j) \<and>
     drain_tried (job_IgnoreDrainFailures j) (job_NodeName j) (wrap64 (job_DrainTimeout j * Second)) h \<and>
     script_ok h (PostDrainScript (job_UpgradeObject j)) (job_target j) \<and>
     script_ok h (PostWaitScript (job_UpgradeObject j)) (job_target j)"

lemma goes_on_handled:
  assumes "goes_on e sched batch r r2 r3 r'" and "pool_ok r" and "dm_DrainGroup (ctx_DrainManager r) = 0"
    and "t \<in> set batch" and "SelectNodeByInstanceID (inst_id t) (ctx_nodes r2) = Some n2"
  shows "\<exists>n. SelectNodeByInstanceID (inst_id t) (ctx_nodes r) = Some n \<and> handled (new_events r r3) (drain_job_of r t n)"
proof -
  have calm: "calm r r2" using assms(1) by (simp add: goes_on_def)
  obtain n where n: "SelectNodeByInstanceID (inst_id t) (ctx_nodes r) = Some n" "same_object False n n2"
    using calm assms(5) select_same_object_Some unfolding calm_def by blast
  have job: "drain_job_of r2 t n2 = drain_job_of r t n"
    using calm same_object_fields [OF n(2)] by (simp add: calm_def drain_job_of_def split: option.splits)
  have r2: "pool_ok r2" "dm_DrainGroup (ctx_DrainManager r2) = 0"
    using calm assms(2,3) by (simp_all add: calm_def pool_ok_def active_def)
  then obtain maps where r3: "r3 = run_jobs e sched (spawn_drains batch (fst maps) (snd maps) r2)"
    "dm_DrainGroup (ctx_DrainManager r3) = 0" using assms(1) by (auto simp: goes_on_def)
  have "drain_job_of r2 t n2 \<in> set (new_jobs r2 batch)" using assms(4,5) by (auto simp: new_jobs_mem)
  then have "job_ok (ctx_nodes r2) (new_events r2 r3) ((drain_job_of r2 t n2)\<lparr>job_pc := Finished\<rparr>)"
    using finished_jobs_ok [OF r2 r3] by blast
  moreover have "set (new_events r2 r3) \<subseteq> set (new_events r r3)"
    using extends_length [OF emits_extends [OF calm_emits [OF calm]]] by (simp add: new_events_def set_drop_subset_set_drop)
  ultimately have "job_ok (ctx_nodes r2) (new_events r r3) ((drain_job_of r2 t n2)\<lparr>job_pc := Finished\<rparr>)"
    by (rule job_ok_mono)
  moreover have "SelectNodeByInstanceID (job_InstanceID (drain_job_of r t n)) (ctx_nodes r2) \<noteq> None"
    using assms(5) by (simp add: drain_job_of_def)
  ultimately have "handled (new_events r r3) (drain_job_of r t n)"
    by (auto simp: job job_ok_def drained_def handled_def)
  with n(1) show ?thesis by blast
qed

lemma goes_on_extends: "goes_on e sched batch r r2 r3 r' \<Longrightarrow> emits not_termination r r3 \<and> extends r3 r'"
proof -
  assume g: "goes_on e sched batch r r2 r3 r'"
  then obtain maps where r3: "r3 = run_jobs e sched (if dm_DrainGroup (ctx_DrainManager r2) = 0
        then spawn_drains batch (fst maps) (snd maps) r2 else r2)" and c: "calm r r2"
    and s: "settles (terminates_of (ctx_nodes r2) batch) r3 r'" by (auto simp: goes_on_def)
  have "emits not_termination r2 r3"
    unfolding r3 by (rule emits_cong_left [OF _ run_jobs_calm]) simp
  with c s show ?thesis
    using emits_trans [OF calm_emits [OF c]] emits_extends by (auto simp: settles_def)
qed

lemma batch_terminations:
  assumes "ReplaceNodeBatch e sched choice batch r = Some (res, r')"
    and "pool_ok r" and "dm_DrainGroup (ctx_DrainManager r) = 0"
  shows "\<exists>pre post. hist r' = hist r @ pre @ post \<and> list_all not_termination pre \<and>
    (\<forall>i er. EvTerminateInstance i er \<in> set post \<longrightarrow>
       (\<exists>t \<in> set batch. \<exists>n. inst_id t = i \<and> SelectNodeByInstanceID i (ctx_nodes r) = Some n \<and>
          handled pre (drain_job_of r t n)))"
  using ReplaceNodeBatch_cases [OF assms(1)]
proof (elim disjE conjE exE)
  assume "emits not_termination r r'"
  then obtain pre where "hist r' = hist r @ pre @ []" "list_all not_termination pre" by (auto simp: emits_def)
  then show ?thesis by (intro exI [of _ pre] exI [of _ "[]"]) simp
next
  fix r2 r3 assume g: "goes_on e sched batch r r2 r3 r'"
  then have pre: "emits not_termination r r3" and post: "extends r3 r'" using goes_on_extends by blast+
  have "hist r' = hist r @ new_events r r3 @ new_events r3 r'"
    using extends_hist [OF emits_extends [OF pre]] extends_hist [OF post] by simp
  moreover have "list_all not_termination (new_events r r3)"
    using emits_forall [OF pre] by (simp add: list_all_iff)
  moreover have "\<exists>t \<in> set batch. \<exists>n. inst_id t = i \<and> SelectNodeByInstanceID i (ctx_nodes r) = Some n \<and>
      handled (new_events r r3) (drain_job_of r t n)" if "EvTerminateInstance i er \<in> set (new_events r3 r')" for i er
  proof -
    have "emits (terminates_of (ctx_nodes r2) batch) r3 r'" using g by (simp add: goes_on_def settles_def)
    from emits_forall [OF this that] obtain t n2 where
      "t \<in> set batch" "inst_id t = i" "SelectNodeByInstanceID (inst_id t) (ctx_nodes r2) = Some n2"
      by (auto simp: terminates_of_def)
    then show ?thesis using goes_on_handled [OF g assms(2,3)] by metis
  qed
  ultimately show ?thesis by (intro exI [of _ "new_events r r3"] exI [of _ "new_events r3 r'"]) simp
qed

text \<open>C4: an instance is terminated only after its node was handled. When a batch is replaced and no drain
  goroutine was running before, every call up to some point terminates nothing, and every instance
  terminated after that point is a target of the batch with a node that, before that point, had its
  pre-drain script run successfully, was cordoned and drained successfully with the effective timeout,
  and had its post-drain and post-wait scripts run successfully; whatever the cloud answers and however
  the goroutines are scheduled. The exception: where drain failures are ignored, the cordon or the
  drain after it was tried and may have failed.\<close>

theorem only_handled_instances_are_terminated:
  assumes "ReplaceNodeBatch e sched choice batch r = Some (res, r')"
    and "pool_ok r" and "dm_DrainGroup (ctx_DrainManager r) = 0"
  shows "\<exists>pre post. hist r' = hist r @ pre @ post \<and> list_all not_termination pre \<and>
    (\<forall>i er. EvTerminateInstance i er \<in> set post \<longrightarrow>
       (\<exists>t \<in> set batch. \<exists>n. inst_id t = i \<and> SelectNodeByInstanceID i (ctx_nodes r) = Some n \<and>
          handled pre (drain_job_of r t n)))"
  by (rule batch_terminations [OF assms])

text \<open>A context in which everything is ready: lazy mode, every call succeeds, nothing to wait for.\<close>

lemma sample_lazy:
  "StrategyMode (ctx_RollingUpgrade sample_ctx) = UpdateStrategyModeLazy" "\<not> ctx_EarlyCordonNodes sample_ctx"
  "wait_over sample_env (ctx_RollingUpgrade sample_ctx)" "termination_succeeds sample_env"
  "env_CreateTags sample_env h ids k v = None"
  by (simp_all add: wait_over_def still_waiting_def termination_succeeds_def sample_defs api_defs
      LastNodeTerminationTime_def LastNodeDrainTime_def)

lemma sample_ready: "calls_succeed sample_env" "batch_ready sample_env batch sample_ctx"
  using sample_lazy by (simp_all add: calls_succeed_def batch_ready_def sample_env_def)

lemma sample_batch_terminates:
  "\<exists>r'. ReplaceNodeBatch sample_env [0, 0, 0, 0, 0] DoneCase [sample_instance ''i1'' ''a'' ''old''] sample_ctx =
     Some ((True, None), r') \<and> EvTerminateInstance ''i1'' None \<in> set (new_events sample_ctx r')"
proof -
  let ?t = "sample_instance ''i1'' ''a'' ''old''"
  have n: "\<forall>i < length (jobs sample_ctx) + length [?t]. 5 \<le> count_list [0, 0, 0, 0, 0::nat] i"
    by (simp add: sample_pool)
  have "SelectNodeByInstanceID ''i1'' (ctx_nodes sample_ctx) \<noteq> None" "inst_id ?t = ''i1''"
    by (simp_all add: sample_instance_def sample_ctx_def sample_node_def GetNodeInstanceID_def EqualFold_def)
  then show ?thesis
    using ready_batch_done [OF sample_ready(2) ready_batch_zero [OF sample_ready(1) sample_pool(3,2) n]] by auto
qed

text \<open>The old instance of the sample group is terminated after its node was cordoned and drained.\<close>

theorem only_handled_instances_are_terminated_witness:
  "\<exists>r' pre post. ReplaceNodeBatch sample_env [0, 0, 0, 0, 0] DoneCase [sample_instance ''i1'' ''a'' ''old''] sample_ctx =
       Some ((True, None), r') \<and> hist r' = pre @ post \<and> list_all not_termination pre \<and>
     EvTerminateInstance ''i1'' None \<in> set post \<and> EvCordon ''n1'' True None \<in> set pre \<and>
     EvDrain ''n1'' (900 * Second) None \<in> set pre"
proof -
  let ?t = "sample_instance ''i1'' ''a'' ''old''"
  obtain r' where run: "ReplaceNodeBatch sample_env [0, 0, 0, 0, 0] DoneCase [?t] sample_ctx = Some ((True, None), r')"
    "EvTerminateInstance ''i1'' None \<in> set (new_events sample_ctx r')" using sample_batch_terminates by blast
  have h: "hist sample_ctx = []" by (simp add: sample_ctx_def)
  from only_handled_instances_are_terminated [OF run(1) sample_pool(3,2)]
  obtain pre post where p: "hist r' = pre @ post" "list_all not_termination pre"
    "\<And>i er. EvTerminateInstance i er \<in> set post \<Longrightarrow> \<exists>t \<in> set [?t]. \<exists>n. inst_id t = i \<and>
       SelectNodeByInstanceID i (ctx_nodes sample_ctx) = Some n \<and> handled pre (drain_job_of sample_ctx t n)"
    unfolding h append_Nil by blast
  have post: "EvTerminateInstance ''i1'' None \<in> set post"
    using run(2) p(1,2) by (fastforce simp: new_events_def h list_all_iff not_termination_def)
  from p(3) [OF this] obtain n where "SelectNodeByInstanceID ''i1'' (ctx_nodes sample_ctx) = Some n"
    "handled pre (drain_job_of sample_ctx ?t n)" by auto
  moreover from this(1) have "node_Name n = ''n1''"
    by (auto simp: sample_ctx_def sample_node_def GetNodeInstanceID_def EqualFold_def)
  moreover have "IsIgnoreDrainFailures (ctx_RollingUpgrade sample_ctx) = None" "DrainTimeout (ctx_RollingUpgrade sample_ctx) = None"
    by (simp_all add: sample_defs IsIgnoreDrainFailures_def DrainTimeout_def)
  ultimately have "EvCordon ''n1'' True None \<in> set pre" "EvDrain ''n1'' (900 * Second) None \<in> set pre"
    by (simp_all add: handled_def drain_tried_def drain_job_of_def sample_ctx_def wrap64_def)
  with run(1) p(1,2) post show ?thesis by blast
qed

text \<open>C5: whatever the state of the drain goroutines, a call terminates instances only in the completion
  case of its select, when every goroutine that was ever started has finished; it terminates only
  targets of its batch that have a cluster node. On a drain error or a timeout it terminates
  nothing.\<close>

theorem no_termination_while_draining:
  assumes "ReplaceNodeBatch e sched choice batch r = Some (res, r')" and "pool_ok r"
    and "EvTerminateInstance i er \<in> set (new_events r r')"
  shows "choice = DoneCase \<and> (\<forall>j \<in> set (jobs r'). job_pc j = Finished) \<and>
    (\<exists>t \<in> set batch. inst_id t = i \<and> SelectNodeByInstanceID i (ctx_nodes r) \<noteq> None)"
proof -
  have "\<not> emits not_termination r r'" using emits_forall assms(3) by fastforce
  then obtain r2 r3 where choice: "choice = DoneCase" and g: "goes_on e sched batch r r2 r3 r'"
    using ReplaceNodeBatch_cases [OF assms(1)] by blast
  then obtain maps where r3: "r3 = run_jobs e sched (if dm_DrainGroup (ctx_DrainManager r2) = 0
        then spawn_drains batch (fst maps) (snd maps) r2 else r2)" and calm: "calm r r2"
    and zero: "dm_DrainGroup (ctx_DrainManager r3) = 0" and s: "settles (terminates_of (ctx_nodes r2) batch) r3 r'"
    by (auto simp: goes_on_def)
  have "pool_ok r2" using calm assms(2) by (simp add: calm_def pool_ok_def active_def)
  then have "pool_ok r3" using r3 run_jobs_pool_ok spawn_drains_pool_ok by (simp split: if_splits)
  then have fin: "\<forall>j \<in> set (jobs r'). job_pc j = Finished" using pool_idle zero s by (simp add: settles_def)
  have pre: "emits not_termination r r3" and post: "extends r3 r'" using goes_on_extends [OF g] by blast+
  have "new_events r r' = new_events r r3 @ new_events r3 r'"
    using extends_hist [OF emits_extends [OF pre]] extends_hist [OF post] by (metis append.assoc new_events_append)
  moreover have "EvTerminateInstance i er \<notin> set (new_events r r3)" using emits_forall [OF pre] by fastforce
  ultimately have "EvTerminateInstance i er \<in> set (new_events r3 r')" using assms(3) by simp
  then have "terminates_of (ctx_nodes r2) batch (EvTerminateInstance i er)"
    using emits_forall s unfolding settles_def by blast
  then obtain t n2 where t: "t \<in> set batch" "inst_id t = i" "SelectNodeByInstanceID i (ctx_nodes r2) = Some n2"
    by (auto simp: terminates_of_def)
  then have "SelectNodeByInstanceID i (ctx_nodes r) \<noteq> None"
    using calm select_same_object_Some unfolding calm_def by (metis option.distinct(1))
  with choice fin t show ?thesis by blast
qed

theorem no_termination_while_draining_witness:
  "\<exists>res r'. ReplaceNodeBatch sample_env [0, 0, 0, 0, 0] DoneCase [sample_instance ''i1'' ''a'' ''old''] sample_ctx =
       Some (res, r') \<and> EvTerminateInstance ''i1'' None \<in> set (new_events sample_ctx r') \<and>
     (\<forall>j \<in> set (jobs r'). job_pc j = Finished)"
proof -
  obtain r' where "ReplaceNodeBatch sample_env [0, 0, 0, 0, 0] DoneCase [sample_instance ''i1'' ''a'' ''old''] sample_ctx = Some ((True, None), r')"
    "EvTerminateInstance ''i1'' None \<in> set (new_events sample_ctx r')" using sample_batch_terminates by blast
  then show ?thesis
    using no_termination_while_draining [OF _ sample_pool(3)] by blast
qed

text \<open>C7: replacing a batch makes progress, in both modes. With no goroutine running, no wait pending and a
  batch that is ready (lazy: it can be tagged; eager: it is out of service and the replacements are
  ready), if scripts, drains and terminations succeed and every goroutine gets to move five times
  before the select sees completion, then the call succeeds and terminates every target that has a
  node.\<close>

theorem ready_batch_is_replaced:
  assumes "batch_ready e batch r" and "calls_succeed e" and "pool_ok r" and "dm_DrainGroup (ctx_DrainManager r) = 0"
    and "\<forall>i < length (jobs r) + length batch. 5 \<le> count_list sched i"
  shows "\<exists>r'. ReplaceNodeBatch e sched DoneCase batch r = Some ((True, None), r') \<and>
    (\<forall>t \<in> set batch. SelectNodeByInstanceID (inst_id t) (ctx_nodes r) \<noteq> None \<longrightarrow>
       EvTerminateInstance (inst_id t) None \<in> set (new_events r r'))"
  using ready_batch_done [OF assms(1) ready_batch_zero [OF assms(2-5)]] by blast

theorem ready_batch_is_replaced_witness:
  "\<exists>r'. ReplaceNodeBatch sample_env [0, 0, 0, 0, 0] DoneCase [sample_instance ''i1'' ''a'' ''old''] sample_ctx =
       Some ((True, None), r') \<and> EvTerminateInstance ''i1'' None \<in> set (hist r')"
proof -
  have n: "\<forall>i < length (jobs sample_ctx) + length [sample_instance ''i1'' ''a'' ''old'']. 5 \<le> count_list [0, 0, 0, 0, 0::nat] i"
    by (simp add: sample_pool)
  have "SelectNodeByInstanceID ''i1'' (ctx_nodes sample_ctx) \<noteq> None" "inst_id (sample_instance ''i1'' ''a'' ''old'') = ''i1''"
    by (simp_all add: sample_instance_def sample_ctx_def sample_node_def GetNodeInstanceID_def EqualFold_def)
  then show ?thesis
    using ready_batch_is_replaced [OF sample_ready(2,1) sample_pool(3,2) n] by (auto simp: new_events_def sample_ctx_def)
qed

text \<open>C32: goroutines are started only when the wait group is at zero, but terminations are for the batch of
  the present call. So if goroutines of an earlier call are still about to return (after its select
  timed out), a target that none of them worked on - its node was not in the cluster nodes then, or
  the batch is a different one - is terminated in this call although no node is cordoned or drained
  and no goroutine is started for it.\<close>

theorem undrained_target_is_terminated:
  assumes "batch_ready e batch r" and "calls_succeed e" and "pool_ok r" and "dm_DrainGroup (ctx_DrainManager r) \<noteq> 0"
    and "returning r" and "\<forall>i < length (jobs r). i \<in> set sched"
    and "t \<in> set batch" and "SelectNodeByInstanceID (inst_id t) (ctx_nodes r) = Some n"
    and "inst_id t \<notin> job_InstanceID ` set (jobs r)"
  shows "\<exists>r'. ReplaceNodeBatch e sched DoneCase batch r = Some ((True, None), r') \<and>
    EvTerminateInstance (inst_id t) None \<in> set (new_events r r') \<and>
    (\<forall>name c d er. EvCordon name c er \<notin> set (new_events r r') \<and> EvDrain name d er \<notin> set (new_events r r')) \<and>
    inst_id t \<notin> job_InstanceID ` set (jobs r')"
proof -
  have ad: "after_drains e sched batch maps r2 = run_jobs e sched r2" if "world.more r2 = world.more r" for maps r2
    using assms(4) ctx_fields_of_more(3) [OF that] by (simp add: after_drains_def)
  have zero: "\<forall>maps r2. world.more r2 = world.more r \<longrightarrow>
    dm_DrainGroup (ctx_DrainManager (after_drains e sched batch maps r2)) = 0"
  proof (intro allI impI)
    fix maps r2 assume more: "world.more r2 = world.more r"
    note f = ctx_fields_of_more(3) [OF more]
    have "\<forall>i < length (jobs r2). \<not> sending (job_pc (jobs r2 ! i)) \<and> steps_left (job_pc (jobs r2 ! i)) \<le> count_list sched i"
      unfolding f
    proof (intro allI impI)
      fix i assume that: "i < length (jobs r)"
      have "job_pc (jobs r ! i) = AtReturn \<or> job_pc (jobs r ! i) = Finished"
        using assms(5) nth_mem [OF that] by (simp add: returning_def)
      moreover have "1 \<le> count_list sched i" using assms(6) that count_list_0_iff [of sched i] by (simp add: Suc_leI)
      ultimately show "\<not> sending (job_pc (jobs r ! i)) \<and> steps_left (job_pc (jobs r ! i)) \<le> count_list sched i"
        by (auto simp: sending_def)
    qed
    then have "\<forall>j \<in> set (jobs (run_jobs e sched r2)). job_pc j = Finished"
      by (rule run_jobs_finish [OF assms(2)])
    moreover have "pool_ok r2" using assms(3) f by (simp add: pool_ok_def active_def)
    ultimately have "dm_DrainGroup (ctx_DrainManager (run_jobs e sched r2)) = 0"
      using pool_idle [OF run_jobs_pool_ok, of r2 e sched] by blast
    then show "dm_DrainGroup (ctx_DrainManager (after_drains e sched batch maps r2)) = 0" by (simp only: ad [OF more])
  qed
  obtain maps r2 r' where run: "ReplaceNodeBatch e sched DoneCase batch r = Some ((True, None), r')"
    and more: "world.more r2 = world.more r" and em: "emits bookkeeping r r2"
    and s: "settles (terminates_of (ctx_nodes r) batch) (after_drains e sched batch maps r2) r'"
    and all: "\<forall>t \<in> set batch. SelectNodeByInstanceID (inst_id t) (ctx_nodes r) \<noteq> None \<longrightarrow>
       EvTerminateInstance (inst_id t) None \<in> set (new_events r r')"
    using ready_batch_done [OF assms(1) zero] by (elim exE conjE) (rule that)
  have ev: "EvTerminateInstance (inst_id t) None \<in> set (new_events r r')" using all assms(7,8) by simp
  have "returning r2" using assms(5) ctx_fields_of_more(3) [OF more] by (simp add: returning_def)
  then have same: "hist r2 = hist (after_drains e sched batch maps r2)"
    by (simp only: ad [OF more] run_jobs_returning)
  have "emits (terminates_of (ctx_nodes r) batch) (after_drains e sched batch maps r2) r'" using s by (simp add: settles_def)
  then have tail: "emits (terminates_of (ctx_nodes r) batch) r2 r'" by (rule emits_cong_left [OF same])
  have "emits (terminates_of (ctx_nodes r) batch) r r2" by (rule emits_mono [OF em bookkeeping_of])
  from emits_trans [OF this tail] have "emits (terminates_of (ctx_nodes r) batch) r r'" .
  then have "terminates_of (ctx_nodes r) batch v" if "v \<in> set (new_events r r')" for v
    using that by (rule emits_forall)
  then have quiet: "\<forall>name c d er. EvCordon name c er \<notin> set (new_events r r') \<and> EvDrain name d er \<notin> set (new_events r r')"
    using terminates_of_quiet by blast
  have "job_InstanceID ` set (jobs r') = job_InstanceID ` set (jobs r)"
  proof -
    have "map job_InstanceID (jobs (run_jobs e sched r2)) = map job_InstanceID (jobs r2)"
      using arg_cong [OF run_jobs_closure [of e sched r2], of "map job_InstanceID"] by (simp add: job_closure_def comp_def)
    moreover have "jobs r' = jobs (run_jobs e sched r2)" "jobs r2 = jobs r"
      using s ad [OF more] ctx_fields_of_more(3) [OF more] by (simp_all add: settles_def)
    ultimately show ?thesis by (metis list.set_map)
  qed
  then have "inst_id t \<notin> job_InstanceID ` set (jobs r')" using assms(9) by (simp only: not_False_eq_True)
  with run ev quiet show ?thesis by (intro exI conjI)
qed


text \<open>The sample context while a goroutine of an earlier call, for another instance, is about to return.\<close>

definition busy_ctx :: ctx where
  "busy_ctx = sample_ctx\<lparr>ctx_DrainManager := NewDrainManager\<lparr>dm_DrainGroup := 1, dm_jobs :=
     [(drain_job_of sample_ctx (sample_instance ''i1'' ''a'' ''old'') (sample_node ''n1'' ''i1''))\<lparr>job_pc := AtReturn\<rparr>]\<rparr>\<rparr>"

theorem undrained_target_is_terminated_witness:
  "\<exists>r'. ReplaceNodeBatch sample_env [0] DoneCase [sample_instance ''i2'' ''b'' ''old''] busy_ctx =
       Some ((True, None), r') \<and> EvTerminateInstance ''i2'' None \<in> set (new_events busy_ctx r') \<and>
     (\<forall>d er. EvDrain ''n2'' d er \<notin> set (new_events busy_ctx r'))"
proof -
  let ?t = "sample_instance ''i2'' ''b'' ''old''"
  have jobs: "jobs busy_ctx = [(drain_job_of sample_ctx (sample_instance ''i1'' ''a'' ''old'')
      (sample_node ''n1'' ''i1''))\<lparr>job_pc := AtReturn\<rparr>]" "dm_DrainGroup (ctx_DrainManager busy_ctx) = 1"
    by (simp_all add: busy_ctx_def)
  have "batch_ready sample_env [?t] busy_ctx" using sample_lazy by (simp add: batch_ready_def busy_ctx_def)
  moreover have "pool_ok busy_ctx" "returning busy_ctx" "dm_DrainGroup (ctx_DrainManager busy_ctx) \<noteq> 0"
    by (simp_all add: pool_ok_def active_def returning_def jobs)
  moreover have "\<forall>i < length (jobs busy_ctx). i \<in> set [0]" by (simp add: jobs)
  moreover have "inst_id ?t \<notin> job_InstanceID ` set (jobs busy_ctx)" "inst_id ?t = ''i2''"
    by (simp_all add: jobs drain_job_of_def sample_instance_def)
  moreover have "SelectNodeByInstanceID (inst_id ?t) (ctx_nodes busy_ctx) = Some (sample_node ''n2'' ''i2'')"
    by (simp add: sample_instance_def busy_ctx_def sample_ctx_def sample_node_def GetNodeInstanceID_def EqualFold_def
        fold_char_def)
  ultimately show ?thesis
    using undrained_target_is_terminated [OF _ sample_ready(1), of "[?t]" busy_ctx "[0]" ?t] by auto
qed


text \<open>C6: eager mode keeps the capacity: it terminates an instance only when no target of the batch is in
  service any more and the group has as many instances in service as it desires, so the
  replacements have arrived.\<close>

theorem eager_keeps_capacity:
  assumes "ReplaceNodeBatch e sched choice batch r = Some (res, r')"
    and "StrategyMode (ctx_RollingUpgrade r) = UpdateStrategyModeEager"
    and "EvTerminateInstance i er \<in> set (new_events r r')"
  shows "GetInServiceInstanceIDs batch = [] \<and>
    int (length (GetInServiceInstanceIDs (group_Instances (ctx_group r)))) = Int64Value (group_DesiredCapacity (ctx_group r))"
proof -
  have "\<not> emits not_termination r r'" using emits_forall assms(3) by fastforce
  then obtain r1 maps r2 where c: "calm r r1" "prepare_batch e batch (start_maps r) r1 = Some (Inr maps, r2)"
    using ReplaceNodeBatch_phases [OF assms(1)] by blast
  then have "prepare_eager e batch (start_maps r) r1 = Some (Inr maps, r2)"
    using assms(2) by (simp add: prepare_batch_def calm_def)
  from prepare_eager_ready [OF this] obtain u where u: "calm r1 u" "fst (DesiredNodesReady e u)"
    and none: "GetInServiceInstanceIDs batch = []" by blast
  have "ctx_group u = ctx_group r" using calm_trans [OF c(1) u(1)] by (simp add: calm_def)
  then show ?thesis using u(2) none DesiredNodesReady_iff [of e u] by simp
qed


text \<open>An eager upgrade whose target is in standby while the one desired instance is in service and ready.\<close>

definition eager_env :: env where
  "eager_env = sample_env\<lparr>env_NodesList := \<lambda>h. (None, Some (Errorf ''timeout''))\<rparr>"

definition standby_instance :: Instance where
  "standby_instance = (sample_instance ''i1'' ''a'' ''old'')\<lparr>inst_LifecycleState := Some ''Standby''\<rparr>"

definition eager_ctx :: ctx where
  "eager_ctx = upd_ru (upd_strategy (\<lambda>s. s\<lparr>strategy_Mode := UpdateStrategyModeEager\<rparr>))
     (upd_cloud (\<lambda>c. c\<lparr>cloud_ScalingGroups := [sample_group\<lparr>group_DesiredCapacity := Some 1,
        group_Instances := [standby_instance, sample_instance ''i2'' ''b'' ''new'']\<rparr>]\<rparr>) sample_ctx)"

lemma eager_ctx_ready: "batch_ready eager_env [standby_instance] eager_ctx" "calls_succeed eager_env"
  "pool_ok eager_ctx" "dm_DrainGroup (ctx_DrainManager eager_ctx) = 0" "jobs eager_ctx = []"
proof -
  have "fst (DesiredNodesReady eager_env eager_ctx)"
    by (simp add: DesiredNodesReady_iff ready_node_def IsNodeReady_def IsNodePassesReadinessGates_def eager_ctx_def
        eager_env_def standby_instance_def sample_defs ScalingGroupName_def EqualFold_def fold_char_def
        GetInServiceInstanceIDs_def current_nodes_def ListClusterNodes_def Let_def GetNodeInstanceID_def)
  moreover have "fst (DesiredNodesReady eager_env w) = fst (DesiredNodesReady eager_env eager_ctx)"
    if "world.more w = world.more eager_ctx" for w :: ctx
    using ctx_fields_of_more [OF that]
    by (simp add: DesiredNodesReady_iff current_nodes_def ListClusterNodes_def eager_env_def ready_node_def [abs_def] Let_def)
  ultimately have ready: "\<forall>w :: ctx. world.more w = world.more eager_ctx \<longrightarrow> fst (DesiredNodesReady eager_env w)" by blast
  have "wait_over eager_env (ctx_RollingUpgrade eager_ctx)" "termination_succeeds eager_env"
    "StrategyMode (ctx_RollingUpgrade eager_ctx) = UpdateStrategyModeEager" "\<not> ctx_EarlyCordonNodes eager_ctx"
    "GetInServiceInstanceIDs [standby_instance] = []"
    by (simp_all add: wait_over_def still_waiting_def termination_succeeds_def api_defs eager_ctx_def eager_env_def
        standby_instance_def GetInServiceInstanceIDs_def sample_defs LastNodeTerminationTime_def LastNodeDrainTime_def)
  with ready show "batch_ready eager_env [standby_instance] eager_ctx" unfolding batch_ready_def by blast
  show "pool_ok eager_ctx" "dm_DrainGroup (ctx_DrainManager eager_ctx) = 0" "jobs eager_ctx = []" "calls_succeed eager_env"
    using sample_pool sample_ready(1) by (simp_all add: eager_ctx_def pool_ok_def active_def calls_succeed_def eager_env_def)
qed

theorem eager_keeps_capacity_witness:
  "\<exists>res r'. ReplaceNodeBatch eager_env [0, 0, 0, 0, 0] DoneCase [standby_instance] eager_ctx = Some (res, r') \<and>
     EvTerminateInstance ''i1'' None \<in> set (new_events eager_ctx r') \<and>
     int (length (GetInServiceInstanceIDs (group_Instances (ctx_group eager_ctx)))) = 1"
proof -
  have n: "\<forall>i < length (jobs eager_ctx) + length [standby_instance]. 5 \<le> count_list [0, 0, 0, 0, 0::nat] i"
    by (simp add: eager_ctx_ready)
  have "inst_id standby_instance = ''i1''" "SelectNodeByInstanceID ''i1'' (ctx_nodes eager_ctx) \<noteq> None"
    by (simp_all add: standby_instance_def eager_ctx_def sample_defs GetNodeInstanceID_def EqualFold_def)
  then obtain r' where run: "ReplaceNodeBatch eager_env [0, 0, 0, 0, 0] DoneCase [standby_instance] eager_ctx = Some ((True, None), r')"
    and ev: "EvTerminateInstance ''i1'' None \<in> set (new_events eager_ctx r')"
    using ready_batch_done [OF eager_ctx_ready(1) ready_batch_zero [OF eager_ctx_ready(2-4) n]] by auto
  have "StrategyMode (ctx_RollingUpgrade eager_ctx) = UpdateStrategyModeEager"
    "Int64Value (group_DesiredCapacity (ctx_group eager_ctx)) = 1"
    by (simp_all add: eager_ctx_def sample_defs api_defs)
  then show ?thesis using eager_keeps_capacity [OF run _ ev] run ev by auto
qed

end
