(* ===== verification/Node_Rotation.thy ===== *)
theory Node_Rotation
  imports Batch_Rotation
begin

text \<open>
  \<open>RotateNodes\<close> of \<^verbatim>\<open>controllers/upgrade.go\<close>, one pass of an upgrade: the status is set to running, the
  cloud is discovered, and then the upgrade is completed if nothing drifts, or a batch is selected
  and replaced. The function is split where its code returns: \<open>begin_rotation\<close>, \<open>discovery_failed\<close>,
  \<open>complete_rotation\<close> and \<open>rotate_batch\<close>. \<open>None\<close> is a panic.
\<close>

section \<open>Definitions\<close>

definition set_status :: "string \<Rightarrow> ctx \<Rightarrow> ctx" where
  "set_status status r =
     upd_ru (\<lambda>ru. SetLabel LabelKeyRollingUpgradeCurrentStatus status (SetCurrentStatus status ru)) r"

definition begin_rotation :: "env \<Rightarrow> ctx \<Rightarrow> ctx" where
  "begin_rotation e r =
     (let r1 = set_status StatusRunning r;
          r2 = SetMetricRollupInitOrRunning (meta_Name (ctx_RollingUpgrade r1)) r1
      in if StartTime (ctx_RollingUpgrade r2) = '''' then
           (let (now, r3) = Now e r2 in upd_ru (SetStartTime (env_FormatRFC3339 e now)) r3)
         else r2)"

definition cleanup_if_early :: "env \<Rightarrow> ctx \<Rightarrow> ctx option" where
  "cleanup_if_early e r = (if ctx_EarlyCordonNodes r then cleanupEarlyCordonedNodes e r else Some r)"

definition discovery_failed :: "env \<Rightarrow> ctx \<Rightarrow> ctx option" where
  "discovery_failed e r =
     (let r1 = set_status StatusError r;
          r2 = SetMetricRollupFailed (meta_Name (ctx_RollingUpgrade r1)) r1
      in cleanup_if_early e r2)"

definition complete_rotation :: "env \<Rightarrow> ctx \<Rightarrow> ctx option" where
  "complete_rotation e r =
     (let r1 = set_status StatusComplete r;
          r2 = SetMetricRollupCompleted (meta_Name (ctx_RollingUpgrade r1)) r1
      in cleanup_if_early e (endTimeUpdate e r2))"

text \<open>Selecting the batch, from the failed instances if there is no other target, and replacing it.\<close>

definition rotation_targets :: "env \<Rightarrow> Group \<Rightarrow> string list \<Rightarrow> ctx \<Rightarrow> (Instance list \<times> ctx) option" where
  "rotation_targets e scalingGroup failedDrainInstances r =
     do { (targets, r1) \<leftarrow> SelectTargets e scalingGroup failedDrainInstances r;
          if targets = [] \<and> failedDrainInstances \<noteq> [] then SelectTargets e scalingGroup [] r1
          else Some (targets, r1) }"

definition rotate_batch ::
  "env \<Rightarrow> nat list \<Rightarrow> select_case \<Rightarrow> Group \<Rightarrow> string list \<Rightarrow> ctx \<Rightarrow> (error option \<times> ctx) option" where
  "rotate_batch e sched choice scalingGroup failedDrainInstances r =
     do { (targets, r1) \<leftarrow> rotation_targets e scalingGroup failedDrainInstances r;
          ((ok, err), r2) \<leftarrow> ReplaceNodeBatch e sched choice targets r1;
          Some (if \<not> ok then err else None, r2) }"

definition RotateNodes :: "env \<Rightarrow> nat list \<Rightarrow> select_case \<Rightarrow> ctx \<Rightarrow> (error option \<times> ctx) option" where
  "RotateNodes e sched choice r =
     (let ((failedDrainInstances, _), r1) = DescribeTaggedInstanceIDs e instanceStateTagKey failedDrainTagValue r;
          r2 = begin_rotation e r1;
          ((err, cloud), r3) = Discover e (ctx_Cloud r2) r2;
          r4 = r3\<lparr>ctx_Cloud := cloud\<rparr>
      in if err \<noteq> None then do { r5 \<leftarrow> discovery_failed e r4; Some (err, r5) }
         else
           (let scalingGroup = ctx_group r4
            in if scalingGroup = empty_Group then
                 Some (Some (Errorf (''scaling group not found, scalingGroupName: '' @
                   ScalingGroupName (ctx_RollingUpgrade r4))), r4)
               else
                 (let r5 = upd_ru (SetTotalNodes (int (length (group_Instances scalingGroup)))) r4
                  in do { (drift, r6) \<leftarrow> IsScalingGroupDrifted r5;
                          if \<not> drift then do { r7 \<leftarrow> complete_rotation e r6; Some (None, r7) }
                          else rotate_batch e sched choice scalingGroup failedDrainInstances r6 })))"

section \<open>What replacing a batch keeps\<close>

text \<open>
  Of the resource, a batch changes only five status fields; \<open>outline\<close> is everything else. The
  invariant of the goroutine pool is kept as well.
\<close>

definition outline :: "RollingUpgrade \<Rightarrow> RollingUpgrade" where
  "outline ru = upd_status (\<lambda>s. s\<lparr>status_LastNodeTerminationTime := None, status_LastNodeDrainTime := None,
     status_Statistics := [], status_LastBatchNodes := [], status_NodeInProcessing := []\<rparr>) ru"

abbreviation ctx_outline :: "ctx \<Rightarrow> RollingUpgrade" where
  "ctx_outline r \<equiv> outline (ctx_RollingUpgrade r)"

lemma outline_fields:
  assumes "outline a = outline b"
  shows "ru_Spec a = ru_Spec b" "meta_Name a = meta_Name b" "meta_Namespace a = meta_Namespace b"
    "meta_Labels a = meta_Labels b" "CurrentStatus a = CurrentStatus b" "StartTime a = StartTime b"
    "EndTime a = EndTime b" "meta_DeletionTimestamp a = meta_DeletionTimestamp b"
proof -
  show "ru_Spec a = ru_Spec b" "meta_Name a = meta_Name b" "meta_Namespace a = meta_Namespace b"
    "meta_Labels a = meta_Labels b" "meta_DeletionTimestamp a = meta_DeletionTimestamp b"
    using arg_cong [OF assms, of ru_Spec] arg_cong [OF assms, of meta_Name] arg_cong [OF assms, of meta_Namespace]
      arg_cong [OF assms, of meta_Labels] arg_cong [OF assms, of meta_DeletionTimestamp] by (simp_all add: outline_def)
  show "CurrentStatus a = CurrentStatus b" "StartTime a = StartTime b" "EndTime a = EndTime b"
    using arg_cong [OF assms, of "\<lambda>x. status_CurrentStatus (ru_Status x)"]
      arg_cong [OF assms, of "\<lambda>x. status_StartTime (ru_Status x)"] arg_cong [OF assms, of "\<lambda>x. status_EndTime (ru_Status x)"]
    by (simp_all add: outline_def CurrentStatus_def StartTime_def EndTime_def)
qed

lemma outline_setters [simp]:
  "outline (SetLastNodeTerminationTime t ru) = outline ru" "outline (SetLastNodeDrainTime t ru) = outline ru"
  "ctx_outline (UpdateMetricsStatus e inP steps s) = ctx_outline s" "ctx_outline (alias_status maps s) = ctx_outline s"
  by (simp_all add: outline_def SetLastNodeTerminationTime_def SetLastNodeDrainTime_def UpdateMetricsStatus_def
      UpdateStatistics_def UpdateLastBatchNodes_def alias_status_def fold_fold_concat fold_AddNodeStepDuration
      case_prod_beta Let_def)

lemmas frame_ctx [simp] =
  ctx_fields_of_more [OF Now_frame(1)] ctx_fields_of_more [OF DoNodeStep_more]
  ctx_fields_of_more [OF aws_calls_more(2)] ctx_fields_of_more [OF aws_calls_more(3)]
  ctx_fields_of_more [OF step_targets_frame] ctx_fields_of_more [OF DesiredNodesReady_more]
  ctx_fields_of_more [OF still_waiting_more] ctx_fields_of_more [OF standby_chunks_more]

lemma finish_target_outline [simp]: "ctx_outline (snd (finish_target e tg maps r)) = ctx_outline r"
  by (simp add: finish_target_def Let_def case_prod_beta)

lemma terminate_target_outline [simp]: "ctx_outline (snd (terminate_target e t n maps r)) = ctx_outline r"
  by (simp add: terminate_target_def Let_def case_prod_beta)

lemma terminate_targets_outline [simp]: "ctx_outline (snd (terminate_targets e ts maps r)) = ctx_outline r"
proof (induction ts arbitrary: maps r)
  case (Cons t ts)
  show ?case
  proof (cases "SelectNodeByInstanceID (inst_id t) (ctx_nodes r)")
    case (Some n)
    then show ?thesis
      using Cons.IH terminate_target_outline [of e t n maps r]
      by (cases "fst (terminate_target e t n maps r)") (simp_all add: case_prod_beta Let_def)
  qed (use Cons in simp)
qed simp

lemma done_branch_outline [simp]: "ctx_outline (snd (done_branch e batch maps r)) = ctx_outline r"
proof -
  let ?r2 = "upd_ru (SetLastNodeDrainTime (Some (fst (Now e r)))) (snd (Now e r))"
  show ?thesis
    using terminate_targets_outline [of e batch maps ?r2]
    by (cases "fst (terminate_targets e batch maps ?r2)") (simp_all add: done_branch_def Let_def case_prod_beta)
qed

lemma receive_frame: "receive i r = Some (er, r') \<Longrightarrow> ctx_RollingUpgrade r' = ctx_RollingUpgrade r"
  by (auto simp: receive_def split: if_splits drain_pc.splits)

lemma await_drains_outline: "ctx_outline (snd (await_drains e sched choice spawned batch maps r)) = ctx_outline r"
  by (cases choice) (auto simp: await_drains_def Let_def receive_frame split: option.splits)

lemma drain_batch_outline: "ctx_outline (snd (drain_batch e sched choice batch maps r)) = ctx_outline r"
  by (simp add: drain_batch_def Let_def case_prod_beta await_drains_outline)

lemma SetBatchStandBy_frame: "SetBatchStandBy e ids r = Some (err, r') \<Longrightarrow> ctx_RollingUpgrade r' = ctx_RollingUpgrade r"
proof -
  assume "SetBatchStandBy e ids r = Some (err, r')"
  then obtain bs where "standby_chunks e bs r = (err, r')" by (auto simp: SetBatchStandBy_def Option.bind_eq_Some_conv)
  then have "snd (standby_chunks e bs r) = r'" by simp
  then show ?thesis using ctx_fields_of_more(2) [OF standby_chunks_more] by metis
qed

lemma standby_batch_outline: "standby_batch e ids maps r = Some (res, r') \<Longrightarrow> ctx_outline r' = ctx_outline r"
  by (auto simp: standby_batch_def Let_def case_prod_beta Option.bind_eq_Some_conv
      split: if_splits dest!: SetBatchStandBy_frame)

lemma prepare_batch_keeps:
  assumes "prepare_batch e batch maps r = Some (res, r')"
  shows "ctx_outline r' = ctx_outline r \<and> ctx_DrainManager r' = ctx_DrainManager r"
proof (cases "StrategyMode (ctx_RollingUpgrade r) = UpdateStrategyModeEager")
  case True
  then have run: "prepare_eager e batch maps r = Some (res, r')" using assms by (simp add: prepare_batch_def)
  show ?thesis
  proof (cases "GetInServiceInstanceIDs batch = []")
    case True
    then show ?thesis using run by (auto simp: prepare_eager_def Let_def case_prod_beta split: if_splits)
  next
    case False
    let ?s = "step_targets e NodeRotationKickoff batch maps r"
    obtain res' where "standby_batch e (GetInServiceInstanceIDs batch) (fst ?s) (snd ?s) = Some (res', r')"
      using run False by (auto simp: prepare_eager_def Let_def case_prod_beta Option.bind_eq_Some_conv)
    from standby_batch_outline [OF this] standby_batch_pool [OF this] show ?thesis by simp
  qed
next
  case False
  then show ?thesis
    using assms by (auto simp: prepare_batch_def prepare_lazy_def Let_def case_prod_beta split: if_splits)
qed

text \<open>The invariant of the goroutine pool.\<close>

abbreviation pool_inv :: "ctx \<Rightarrow> bool" where
  "pool_inv r \<equiv> pool_ok r \<and> sends_ok r"

lemma pool_inv_cong: "ctx_DrainManager r' = ctx_DrainManager r \<Longrightarrow> pool_inv r \<Longrightarrow> pool_inv r'"
  by (simp add: pool_ok_def active_def sends_ok_def)

lemma pool_steps_inv: "pool_inv r \<Longrightarrow> pool_step e r r' \<Longrightarrow> pool_inv r'"
  using drains.inv_step .

lemma run_jobs_steps: "(pool_step e)\<^sup>*\<^sup>* r (run_jobs e sched r)"
proof (induction sched arbitrary: r)
  case (Cons i sched)
  show ?case
  proof (cases "job_step e i r")
    case (Some r')
    then show ?thesis using Cons [of r'] pool_step.Run [OF Some] by (simp add: converse_rtranclp_into_rtranclp)
  qed (use Cons in simp)
qed simp

lemma run_jobs_inv: "pool_inv r \<Longrightarrow> pool_inv (run_jobs e sched r)"
  using drains.inv_steps [OF run_jobs_steps] .

lemma spawn_drains_inv: "pool_inv r \<Longrightarrow> pool_inv (spawn_drains batch inP steps r)"
proof -
  have "pool_inv u \<Longrightarrow> pool_inv (fold spawn_drain batch u)" for u
    by (induction batch arbitrary: u) (auto simp: spawn_drain_pool)
  moreover have "pool_inv r \<Longrightarrow> pool_inv (upd_pool (\<lambda>d. d\<lparr>dm_ClusterNodes := ctx_nodes r,
      dm_InProcessingNodes := inP, dm_NodeSteps := steps\<rparr>) r)"
    by (simp add: pool_ok_def active_def sends_ok_def)
  ultimately show "pool_inv r \<Longrightarrow> pool_inv (spawn_drains batch inP steps r)"
    unfolding spawn_drains_def by blast
qed

lemma done_branch_pool [simp]: "ctx_DrainManager (snd (done_branch e batch maps r)) = ctx_DrainManager r"
  using done_branch_settles [of r batch e maps] by (simp add: settles_def)

lemma await_drains_inv:
  assumes "pool_inv r"
  shows "pool_inv (snd (await_drains e sched choice spawned batch maps r))"
proof -
  have run: "pool_inv (run_jobs e sched r)" by (rule run_jobs_inv [OF assms])
  have recv: "pool_inv r2" if "receive i (run_jobs e sched r) = Some (er, r2)" for i er r2
    using pool_steps_inv [OF run pool_step.Receive [OF that]] .
  have metrics: "pool_inv (UpdateMetricsStatus e inP steps u)" if "pool_inv u" for inP steps u
    by (rule pool_inv_cong [OF _ that]) simp
  have branch: "pool_inv (snd (done_branch e batch m (run_jobs e sched r)))" for m
    by (rule pool_inv_cong [OF _ run]) simp
  show ?thesis
    using metrics [OF run] metrics [OF recv] branch
    by (cases choice) (simp_all add: await_drains_def Let_def split: option.splits)
qed

lemma drain_batch_inv: "pool_inv r \<Longrightarrow> pool_inv (snd (drain_batch e sched choice batch maps r))"
proof -
  assume inv: "pool_inv r"
  obtain b1 r1 where w1: "still_waiting e (LastNodeTerminationTime (ctx_RollingUpgrade r))
      (NodeIntervalSeconds (ctx_RollingUpgrade r)) r = (b1, r1)" by fastforce
  obtain b2 r2 where w2: "still_waiting e (LastNodeDrainTime (ctx_RollingUpgrade r))
      (PostDrainDelaySeconds (ctx_RollingUpgrade r)) r1 = (b2, r2)" by fastforce
  have "ctx_DrainManager r1 = ctx_DrainManager r" "ctx_DrainManager r2 = ctx_DrainManager r1"
    using ctx_fields_of_more(3) [OF still_waiting_more] w1 w2 by (metis snd_conv)+
  then have p: "pool_inv r1" "pool_inv r2" using inv pool_inv_cong by metis+
  have "pool_inv (alias_status maps r1)" "pool_inv (alias_status maps r2)"
    by (rule pool_inv_cong [OF alias_status_frame(3) p(1)] pool_inv_cong [OF alias_status_frame(3) p(2)])+
  then show ?thesis
    using await_drains_inv p spawn_drains_inv by (simp add: drain_batch_def w1 w2 Let_def)
qed

lemma ReplaceNodeBatch_keeps:
  assumes "ReplaceNodeBatch e sched choice batch r = Some (res, r')"
  shows "ctx_outline r' = ctx_outline r \<and> (pool_inv r \<longrightarrow> pool_inv r')"
proof -
  obtain ok err r1 where c: "(if ctx_EarlyCordonNodes r then CordonUncordonAllNodes e True r
      else Some ((True, None), r)) = Some ((ok, err), r1)"
    using assms by (auto simp: ReplaceNodeBatch_def Let_def Option.bind_eq_Some_conv)
  have c1: "ctx_RollingUpgrade r1 = ctx_RollingUpgrade r" "ctx_DrainManager r1 = ctx_DrainManager r"
    using c CordonUncordonAllNodes_calm by (auto simp: calm_def split: if_splits)
  show ?thesis
  proof (cases ok)
    case False
    then have "r' = r1" using assms c by (auto simp: ReplaceNodeBatch_def Let_def)
    then show ?thesis using c1(1) pool_inv_cong [OF c1(2)] by simp
  next
    case True
    then obtain res2 r2 where prep: "prepare_batch e batch (start_maps r) r1 = Some (res2, r2)"
      using assms c by (auto simp: ReplaceNodeBatch_def Let_def Option.bind_eq_Some_conv)
    have c2: "ctx_outline r2 = ctx_outline r" "ctx_DrainManager r2 = ctx_DrainManager r"
      using prepare_batch_keeps [OF prep] c1 by simp_all
    show ?thesis
    proof (cases res2)
      case (Inl ret)
      then have "r' = r2" using assms c True prep by (simp add: ReplaceNodeBatch_def Let_def)
      then show ?thesis using c2(1) pool_inv_cong [OF c2(2)] by blast
    next
      case (Inr maps')
      then have "r' = snd (drain_batch e sched choice batch maps' r2)"
        using assms c True prep by (simp add: ReplaceNodeBatch_def Let_def)
      then show ?thesis
        using c2 drain_batch_outline [of e sched choice batch maps' r2] drain_batch_inv [of r2] pool_inv_cong [OF c2(2)] by simp
    qed
  qed
qed

section \<open>One pass\<close>

text \<open>The context in which the pass decides: after the status was set and the cloud discovered.\<close>

definition discovered :: "env \<Rightarrow> ctx \<Rightarrow> error option \<times> ctx" where
  "discovered e r =
     (let r2 = begin_rotation e (snd (DescribeTaggedInstanceIDs e instanceStateTagKey failedDrainTagValue r));
          ((err, cloud), r3) = Discover e (ctx_Cloud r2) r2
      in (err, r3\<lparr>ctx_Cloud := cloud\<rparr>))"

lemma RotateNodes_eq:
  "RotateNodes e sched choice r =
     (let failed = fst (fst (DescribeTaggedInstanceIDs e instanceStateTagKey failedDrainTagValue r));
          (err, r4) = discovered e r;
          g = ctx_group r4
      in if err \<noteq> None then do { r5 \<leftarrow> discovery_failed e r4; Some (err, r5) }
         else if g = empty_Group then
           Some (Some (Errorf (''scaling group not found, scalingGroupName: '' @ ScalingGroupName (ctx_RollingUpgrade r4))), r4)
         else do { (drift, r6) \<leftarrow> IsScalingGroupDrifted (upd_ru (SetTotalNodes (int (length (group_Instances g)))) r4);
                   if \<not> drift then do { r7 \<leftarrow> complete_rotation e r6; Some (None, r7) }
                   else rotate_batch e sched choice g failed r6 })"
proof -
  obtain failed x r1 where tag: "DescribeTaggedInstanceIDs e instanceStateTagKey failedDrainTagValue r = ((failed, x), r1)"
    by (metis prod.exhaust)
  obtain err cloud r3 where d: "Discover e (ctx_Cloud (begin_rotation e r1)) (begin_rotation e r1) = ((err, cloud), r3)"
    by (metis prod.exhaust)
  show ?thesis by (simp only: RotateNodes_def discovered_def tag d Let_def prod.case fst_conv snd_conv)
qed

lemmas discovery_ctx [simp] = ctx_fields_of_more [OF Discover_more]

lemma set_status_frame [simp, frame_simps]:
  "hist (set_status st r) = hist r" "ctx_Cloud (set_status st r) = ctx_Cloud r"
  "ctx_DrainManager (set_status st r) = ctx_DrainManager r" "ctx_DrainTimeout (set_status st r) = ctx_DrainTimeout r"
  "ctx_IgnoreDrainFailures (set_status st r) = ctx_IgnoreDrainFailures r"
  "ctx_EarlyCordonNodes (set_status st r) = ctx_EarlyCordonNodes r"
  "ru_Spec (ctx_RollingUpgrade (set_status st r)) = ru_Spec (ctx_RollingUpgrade r)"
  "CurrentStatus (ctx_RollingUpgrade (set_status st r)) = st"
  by (simp_all add: set_status_def SetLabel_def SetCurrentStatus_def CurrentStatus_def)

text \<open>What every part of a pass but the batch keeps of the context.\<close>

definition same_job_inputs :: "ctx \<Rightarrow> ctx \<Rightarrow> bool" where
  "same_job_inputs r r' \<longleftrightarrow> list_all2 (same_object False) (ctx_nodes r) (ctx_nodes r') \<and>
     ctx_DrainManager r' = ctx_DrainManager r \<and> ctx_DrainTimeout r' = ctx_DrainTimeout r \<and>
     ctx_IgnoreDrainFailures r' = ctx_IgnoreDrainFailures r \<and>
     ru_Spec (ctx_RollingUpgrade r') = ru_Spec (ctx_RollingUpgrade r)"

lemma same_job_inputs_refl [simp]: "same_job_inputs r r"
  by (simp add: same_job_inputs_def list_all2_refl)

lemma calm_same_job_inputs: "calm r r' \<Longrightarrow> same_job_inputs r r'"
  by (simp add: calm_def same_job_inputs_def)

lemma same_job_inputs_trans: "same_job_inputs u v \<Longrightarrow> same_job_inputs v w \<Longrightarrow> same_job_inputs u w"
  unfolding same_job_inputs_def
  using list_all2_trans [of "same_object False" "same_object False" "same_object False" "ctx_nodes u" "ctx_nodes v"
      "ctx_nodes w"] same_object_trans [of False] by simp

lemmas metric_ctx [simp] =
  ctx_fields_of_more [OF metric_more(5)] ctx_fields_of_more [OF metric_more(6)] ctx_fields_of_more [OF metric_more(7)]

lemma begin_rotation_frame:
  "same_job_inputs r (begin_rotation e r)" "emits not_termination r (begin_rotation e r)"
  "CurrentStatus (ctx_RollingUpgrade (begin_rotation e r)) = StatusRunning" "ctx_Cloud (begin_rotation e r) = ctx_Cloud r"
proof -
  show "same_job_inputs r (begin_rotation e r)" "CurrentStatus (ctx_RollingUpgrade (begin_rotation e r)) = StatusRunning"
    "ctx_Cloud (begin_rotation e r) = ctx_Cloud r"
    by (simp_all add: begin_rotation_def same_job_inputs_def Let_def case_prod_beta list_all2_refl SetStartTime_def
        CurrentStatus_def set_status_def SetLabel_def SetCurrentStatus_def)
  show "emits not_termination r (begin_rotation e r)"
    by (simp add: begin_rotation_def Let_def case_prod_beta Now_def emits_def)
qed

text \<open>A part of the pass that terminates nothing and keeps what the goroutines will work with.\<close>

definition quiet :: "ctx \<Rightarrow> ctx \<Rightarrow> bool" where
  "quiet r r' \<longleftrightarrow> emits not_termination r r' \<and> same_job_inputs r r'"

lemma quiet_refl [simp]: "quiet r r"
  by (simp add: quiet_def)

lemma quiet_trans: "quiet u v \<Longrightarrow> quiet v w \<Longrightarrow> quiet u w"
  unfolding quiet_def using emits_trans [of not_termination u v w] same_job_inputs_trans by blast

lemma calm_quiet: "calm r r' \<Longrightarrow> quiet r r'"
  by (simp add: quiet_def calm_emits calm_same_job_inputs)

lemma quiet_call: "world.more r' = world.more r \<Longrightarrow> emits not_termination r r' \<Longrightarrow> quiet r r'"
  by (rule calm_quiet [OF calm_call])

lemma quiet_upd:
  assumes "hist r' = hist r" "ctx_Cloud r' = ctx_Cloud r" "ctx_DrainManager r' = ctx_DrainManager r"
    "ctx_DrainTimeout r' = ctx_DrainTimeout r" "ctx_IgnoreDrainFailures r' = ctx_IgnoreDrainFailures r"
    "ru_Spec (ctx_RollingUpgrade r') = ru_Spec (ctx_RollingUpgrade r)"
  shows "quiet r r'"
  using assms by (simp add: quiet_def same_job_inputs_def emits_same list_all2_refl)

lemma DescribeTagged_quiet: "quiet r (snd (DescribeTaggedInstanceIDs e k v r))"
  by (rule quiet_call) (simp_all add: DescribeTaggedInstanceIDs_def Let_def case_prod_beta)

lemma Discover_emits: "emits not_termination w (snd (Discover e d w))"
  by (simp add: Discover_def DescribeLaunchTemplates_def DescribeScalingGroups_def DescribeTaggedInstanceIDs_def
      Let_def case_prod_beta emits_def split: option.splits)

lemma Discover_quiet: "quiet r ((snd (Discover e (ctx_Cloud r) r))\<lparr>ctx_Cloud := snd (fst (Discover e (ctx_Cloud r) r))\<rparr>)"
  using Discover_emits [of r e "ctx_Cloud r"]
  by (simp add: quiet_def same_job_inputs_def Discover_nodes list_all2_refl emits_def)

lemma discovered_eq:
  "discovered e r = (let r2 = begin_rotation e (snd (DescribeTaggedInstanceIDs e instanceStateTagKey failedDrainTagValue r))
     in (fst (fst (Discover e (ctx_Cloud r2) r2)),
         (snd (Discover e (ctx_Cloud r2) r2))\<lparr>ctx_Cloud := snd (fst (Discover e (ctx_Cloud r2) r2))\<rparr>))"
  by (simp add: discovered_def Let_def case_prod_beta)

lemma discovered_quiet:
  "quiet r (snd (discovered e r))" "CurrentStatus (ctx_RollingUpgrade (snd (discovered e r))) = StatusRunning"
proof -
  let ?r2 = "begin_rotation e (snd (DescribeTaggedInstanceIDs e instanceStateTagKey failedDrainTagValue r))"
  have "quiet u (begin_rotation e u)" for u
    unfolding quiet_def using begin_rotation_frame(1,2) by blast
  then have "quiet r ?r2" by (rule quiet_trans [OF DescribeTagged_quiet])
  from quiet_trans [OF this Discover_quiet] show "quiet r (snd (discovered e r))"
    by (simp add: discovered_eq Let_def)
  show "CurrentStatus (ctx_RollingUpgrade (snd (discovered e r))) = StatusRunning"
    using begin_rotation_frame(3) by (simp add: discovered_eq Let_def)
qed

lemma cleanup_calm: "cleanup_if_early e r = Some r' \<Longrightarrow> calm r r'"
  by (auto simp: cleanup_if_early_def cleanupEarlyCordonedNodes_def Option.bind_eq_Some_conv
      split: if_splits dest: CordonUncordonAllNodes_calm)

lemma discovery_failed_quiet:
  assumes "discovery_failed e r = Some r'"
  shows "quiet r r' \<and> CurrentStatus (ctx_RollingUpgrade r') = StatusError"
proof -
  let ?r2 = "SetMetricRollupFailed (meta_Name (ctx_RollingUpgrade (set_status StatusError r))) (set_status StatusError r)"
  have c: "calm ?r2 r'" using assms cleanup_calm by (simp add: discovery_failed_def Let_def)
  have "quiet r ?r2" by (rule quiet_upd) simp_all
  then show ?thesis using quiet_trans [OF _ calm_quiet [OF c]] c by (simp add: calm_def)
qed

lemma endTimeUpdate_quiet: "quiet r (endTimeUpdate e r)" "CurrentStatus (ctx_RollingUpgrade (endTimeUpdate e r)) = CurrentStatus (ctx_RollingUpgrade r)"
  by (simp_all add: endTimeUpdate_def quiet_def same_job_inputs_def emits_def Let_def case_prod_beta Now_def list_all2_refl
      SetEndTime_def SetTotalProcessingTime_def CurrentStatus_def log_event_def TotalProcessingTime_def split: option.splits)

lemma complete_rotation_quiet:
  assumes "complete_rotation e r = Some r'"
  shows "quiet r r' \<and> CurrentStatus (ctx_RollingUpgrade r') = StatusComplete"
proof -
  let ?r2 = "SetMetricRollupCompleted (meta_Name (ctx_RollingUpgrade (set_status StatusComplete r))) (set_status StatusComplete r)"
  have c: "calm (endTimeUpdate e ?r2) r'" using assms cleanup_calm by (simp add: complete_rotation_def Let_def)
  have "quiet r ?r2" by (rule quiet_upd) simp_all
  from quiet_trans [OF quiet_trans [OF this endTimeUpdate_quiet(1)] calm_quiet [OF c]] show ?thesis
    using c endTimeUpdate_quiet(2) [of e ?r2] by (simp add: calm_def)
qed

lemma drift_count_zero: "drift_count r is = Some n \<Longrightarrow> 0 \<le> n \<and> (n = 0 \<longleftrightarrow> (\<forall>i \<in> set is. IsInstanceDrifted r i = Some False))"
  by (induction "is" arbitrary: n) (fastforce simp: Option.bind_eq_Some_conv split: if_splits)+

text \<open>Drift does not depend on the status of the resource.\<close>

lemma drift_status:
  assumes "ctx_Cloud r' = ctx_Cloud r" and "ru_Spec (ctx_RollingUpgrade r') = ru_Spec (ctx_RollingUpgrade r)"
    and "meta_CreationTimestamp (ctx_RollingUpgrade r') = meta_CreationTimestamp (ctx_RollingUpgrade r)"
  shows "IsInstanceDrifted r' i = IsInstanceDrifted r i"
proof -
  have "force_refresh r' j = force_refresh r j" for j
    using assms by (simp add: force_refresh_def IsForceRefresh_def split: option.splits)
  then show ?thesis unfolding IsInstanceDrifted_def ScalingGroupName_def assms(1,2) by (simp only:)
qed

lemma SetProgress_quiet:
  "quiet r (SetProgress a b r)" "ctx_Cloud (SetProgress a b r) = ctx_Cloud r"
  "CurrentStatus (ctx_RollingUpgrade (SetProgress a b r)) = CurrentStatus (ctx_RollingUpgrade r)"
  "meta_CreationTimestamp (ctx_RollingUpgrade (SetProgress a b r)) = meta_CreationTimestamp (ctx_RollingUpgrade r)"
  "ctx_EarlyCordonNodes (SetProgress a b r) = ctx_EarlyCordonNodes r"
  by (simp_all add: SetProgress_def quiet_def same_job_inputs_def emits_def Let_def list_all2_refl api_defs CurrentStatus_def
      SetTotalNodesMetric_def SetNodesProcessedMetric_def)

text \<open>The drift check: what it answers and what it keeps.\<close>

lemma IsScalingGroupDrifted_pass:
  assumes "IsScalingGroupDrifted (upd_ru (SetTotalNodes n) r) = Some (drift, r')"
  shows "quiet r r'" "ctx_Cloud r' = ctx_Cloud r" "CurrentStatus (ctx_RollingUpgrade r') = CurrentStatus (ctx_RollingUpgrade r)"
    "IsInstanceDrifted r' i = IsInstanceDrifted r i"
    "drift \<longleftrightarrow> \<not> (\<forall>i \<in> set (group_Instances (ctx_group r)). IsInstanceDrifted r i = Some False)"
proof -
  let ?r = "upd_ru (SetTotalNodes n) r"
  obtain k where k: "drift_count ?r (group_Instances (ctx_group ?r)) = Some k"
    and res: "drift = (k \<noteq> 0)" "\<exists>a b. r' = SetProgress a b ?r"
    using assms by (auto simp: IsScalingGroupDrifted_def Let_def Option.bind_eq_Some_conv split: if_splits)
  have g: "ctx_group ?r = ctx_group r" by (simp add: SetTotalNodes_def ScalingGroupName_def)
  have d: "IsInstanceDrifted ?r j = IsInstanceDrifted r j" for j
    by (rule drift_status) (simp_all add: SetTotalNodes_def)
  have q: "quiet r ?r" by (rule quiet_upd) (simp_all add: SetTotalNodes_def)
  from res(2) obtain a b where r': "r' = SetProgress a b ?r" by blast
  show "quiet r r'" unfolding r' by (rule quiet_trans [OF q SetProgress_quiet(1)])
  show "ctx_Cloud r' = ctx_Cloud r" "CurrentStatus (ctx_RollingUpgrade r') = CurrentStatus (ctx_RollingUpgrade r)"
    by (simp_all add: r' SetProgress_quiet) (simp add: SetTotalNodes_def CurrentStatus_def)
  have "ru_Spec (ctx_RollingUpgrade r') = ru_Spec (ctx_RollingUpgrade r)"
    using \<open>quiet r r'\<close> by (simp add: quiet_def same_job_inputs_def)
  then show "IsInstanceDrifted r' i = IsInstanceDrifted r i"
    by (intro drift_status) (simp_all add: r' SetProgress_quiet SetTotalNodes_def)
  show "drift \<longleftrightarrow> \<not> (\<forall>i \<in> set (group_Instances (ctx_group r)). IsInstanceDrifted r i = Some False)"
    using drift_count_zero [OF k] res(1) unfolding g d by blast
qed

lemma untag_orphans_emits: "emits not_termination r (untag_orphans e g r)"
proof -
  have "emits not_termination r (snd (UntagEC2instances e ids k v r))" for ids k v
    by (rule emits_call [OF aws_calls_hist(2)]) simp
  then show ?thesis by (simp add: untag_orphans_def)
qed

lemma SelectTargets_quiet: "SelectTargets e g ex r = Some (ts, r') \<Longrightarrow> emits not_termination r r'"
  using emits_trans [OF untag_orphans_emits SelectTargets_emits] by simp

definition rotates :: "ctx \<Rightarrow> Group \<Rightarrow> Instance \<Rightarrow> bool" where
  "rotates r g t \<longleftrightarrow> t \<in> set (group_Instances g) \<and> \<not> terminating t \<and>
     (t \<in> set (in_progress_targets r g) \<or> IsInstanceDrifted r t = Some True)"

lemma SelectTargets_rotates:
  assumes "SelectTargets e g ex r = Some (ts, r')" and "t \<in> set ts"
  shows "rotates r g t"
proof -
  obtain rest where rest: "ts = [] \<or> ts = take (length ts) (in_progress_targets r g @ rest)"
    "\<forall>t \<in> set rest. candidate r g ex t"
    using SelectTargets_result [OF assms(1)] by blast
  then have "t \<in> set (in_progress_targets r g @ rest)" using assms(2) by (metis empty_iff list.set(1) in_set_takeD)
  then show ?thesis using in_progress_target rest(2) by (auto simp: rotates_def candidate_def)
qed

lemma rotates_more: "world.more r' = world.more r \<Longrightarrow> rotates r' g t = rotates r g t"
  using drift_frame(1) [of r' r] ctx_fields_of_more [of r' r]
  by (simp add: rotates_def in_progress_targets_def resumable_def)

lemma rotation_targets_ok:
  assumes "rotation_targets e g failed r = Some (ts, r')"
  shows "world.more r' = world.more r \<and> emits not_termination r r' \<and> (\<forall>t \<in> set ts. rotates r g t)"
proof -
  obtain ts1 r1 where first: "SelectTargets e g failed r = Some (ts1, r1)"
    using assms by (auto simp: rotation_targets_def Option.bind_eq_Some_conv)
  have r1: "world.more r1 = world.more r" "emits not_termination r r1"
    using SelectTargets_result [OF first] SelectTargets_quiet [OF first] by blast+
  show ?thesis
  proof (cases "ts1 = [] \<and> failed \<noteq> []")
    case True
    then have second: "SelectTargets e g [] r1 = Some (ts, r')" using assms first by (simp add: rotation_targets_def)
    then show ?thesis
      using SelectTargets_result [OF second] emits_trans [OF r1(2) SelectTargets_quiet [OF second]]
        SelectTargets_rotates [OF second] rotates_more [OF r1(1)] r1(1) by simp
  next
    case False
    then have "ts = ts1" "r' = r1" using assms first by (auto simp: rotation_targets_def)
    then show ?thesis using r1 SelectTargets_rotates [OF first] by simp
  qed
qed

text \<open>How a pass ends.\<close>

lemma RotateNodes_cases:
  assumes "RotateNodes e sched choice r = Some (err, r')" and "discovered e r = (derr, r4)"
  obtains
    (failed) "derr \<noteq> None" "discovery_failed e r4 = Some r'" "err = derr"
  | (missing) "derr = None" "ctx_group r4 = empty_Group" "r' = r4" "err \<noteq> None"
  | (complete) r6 where "derr = None" "ctx_group r4 \<noteq> empty_Group"
      "IsScalingGroupDrifted (upd_ru (SetTotalNodes (int (length (group_Instances (ctx_group r4))))) r4) = Some (False, r6)"
      "complete_rotation e r6 = Some r'" "err = None"
  | (batch) r6 failed ts r7 ok err0 where "derr = None" "ctx_group r4 \<noteq> empty_Group"
      "IsScalingGroupDrifted (upd_ru (SetTotalNodes (int (length (group_Instances (ctx_group r4))))) r4) = Some (True, r6)"
      "rotation_targets e (ctx_group r4) failed r6 = Some (ts, r7)"
      "ReplaceNodeBatch e sched choice ts r7 = Some ((ok, err0), r')" "err = (if \<not> ok then err0 else None)"
proof (cases "derr \<noteq> None")
  case True
  then have "discovery_failed e r4 = Some r'" "err = derr"
    using assms by (auto simp: RotateNodes_eq Let_def Option.bind_eq_Some_conv)
  with True show ?thesis by (rule failed)
next
  case ok: False
  show ?thesis
  proof (cases "ctx_group r4 = empty_Group")
    case True
    then have "r' = r4" "err \<noteq> None" using assms ok by (auto simp: RotateNodes_eq Let_def)
    with ok True show ?thesis by (intro missing) simp_all
  next
    case False
    then obtain drift r6 where d: "IsScalingGroupDrifted (upd_ru (SetTotalNodes (int (length (group_Instances (ctx_group r4))))) r4)
        = Some (drift, r6)"
      using assms ok by (auto simp: RotateNodes_eq Let_def Option.bind_eq_Some_conv)
    show ?thesis
    proof (cases drift)
      case True
      then have "rotate_batch e sched choice (ctx_group r4)
          (fst (fst (DescribeTaggedInstanceIDs e instanceStateTagKey failedDrainTagValue r))) r6 = Some (err, r')"
        using assms ok False d by (simp add: RotateNodes_eq Let_def)
      then obtain ts r7 ok' err0 where "rotation_targets e (ctx_group r4)
          (fst (fst (DescribeTaggedInstanceIDs e instanceStateTagKey failedDrainTagValue r))) r6 = Some (ts, r7)"
        "ReplaceNodeBatch e sched choice ts r7 = Some ((ok', err0), r')" "err = (if \<not> ok' then err0 else None)"
        by (auto simp: rotate_batch_def Option.bind_eq_Some_conv)
      moreover have "derr = None" using ok by simp
      ultimately show ?thesis using batch False d True by metis
    next
      case no: False
      then have "complete_rotation e r6 = Some r'" "err = None"
        using assms ok False d by (auto simp: RotateNodes_eq Let_def Option.bind_eq_Some_conv)
      with ok False d no show ?thesis by (intro complete) simp_all
    qed
  qed
qed

lemma pool_inv_quiet: "quiet r r' \<Longrightarrow> pool_inv r \<Longrightarrow> pool_inv r'"
  by (rule pool_inv_cong) (simp add: quiet_def same_job_inputs_def)

lemma RotateNodes_pool:
  assumes "RotateNodes e sched choice r = Some (err, r')" and "pool_inv r"
  shows "pool_inv r'"
proof -
  obtain derr r4 where d: "discovered e r = (derr, r4)" by fastforce
  have r4: "pool_inv r4" using pool_inv_quiet [OF discovered_quiet(1) assms(2), of e] d by simp
  from assms(1) d show ?thesis
  proof (cases rule: RotateNodes_cases)
    case failed
    then show ?thesis using discovery_failed_quiet pool_inv_quiet r4 by blast
  next
    case missing
    then show ?thesis using r4 by simp
  next
    case (complete r6)
    then show ?thesis
      using complete_rotation_quiet pool_inv_quiet IsScalingGroupDrifted_pass(1) r4 by blast
  next
    case (batch r6 failed ts r7 ok err0)
    have "quiet r6 r7" using rotation_targets_ok [OF batch(4)] quiet_call by blast
    then show ?thesis
      using ReplaceNodeBatch_keeps [OF batch(5)] pool_inv_quiet IsScalingGroupDrifted_pass(1) [OF batch(3)] r4 by blast
  qed
qed

text \<open>The instances a pass terminates.\<close>

lemma rotation_terminations:
  assumes "RotateNodes e sched choice r = Some (err, r')" and "discovered e r = (derr, r4)"
    and "pool_ok r" and "dm_DrainGroup (ctx_DrainManager r) = 0"
  shows "\<exists>pre post. hist r' = hist r @ pre @ post \<and> list_all not_termination pre \<and>
    (\<forall>i er. EvTerminateInstance i er \<in> set post \<longrightarrow>
       (\<exists>t n. inst_id t = i \<and> rotates r4 (ctx_group r4) t \<and> SelectNodeByInstanceID i (ctx_nodes r) = Some n \<and>
          drain_tried (job_IgnoreDrainFailures (drain_job_of r t n)) (node_Name n)
            (wrap64 (job_DrainTimeout (drain_job_of r t n) * Second)) pre))"
proof -
  have q4: "quiet r r4" using discovered_quiet(1) [of r e] assms(2) by simp
  have none: ?thesis if "quiet r r'"
  proof -
    from that obtain pre where "hist r' = hist r @ pre @ []" "list_all not_termination pre" by (auto simp: quiet_def emits_def)
    then show ?thesis by (intro exI [of _ pre] exI [of _ "[]"]) simp
  qed
  from assms(1,2) show ?thesis
  proof (cases rule: RotateNodes_cases)
    case failed
    then show ?thesis using none quiet_trans [OF q4] discovery_failed_quiet by blast
  next
    case missing
    then show ?thesis using none q4 by simp
  next
    case (complete r6)
    then show ?thesis
      using none quiet_trans [OF q4 quiet_trans] complete_rotation_quiet IsScalingGroupDrifted_pass(1) by blast
  next
    case (batch r6 failed ts r7 ok err0)
    note drift = IsScalingGroupDrifted_pass [OF batch(3)] and sel = rotation_targets_ok [OF batch(4)]
    have q7: "quiet r r7"
      using quiet_trans [OF q4 quiet_trans [OF drift(1) quiet_call]] sel by blast
    then have inp: "same_job_inputs r r7" "emits not_termination r r7" by (simp_all add: quiet_def)
    have pool: "pool_ok r7" "dm_DrainGroup (ctx_DrainManager r7) = 0"
      using inp(1) assms(3,4) by (simp_all add: same_job_inputs_def pool_ok_def active_def)
    obtain mid post where run: "hist r' = hist r7 @ mid @ post" "list_all not_termination mid"
      "\<forall>i er. EvTerminateInstance i er \<in> set post \<longrightarrow>
         (\<exists>t \<in> set ts. \<exists>n. inst_id t = i \<and> SelectNodeByInstanceID i (ctx_nodes r7) = Some n \<and> handled mid (drain_job_of r7 t n))"
      using batch_terminations [OF batch(5) pool] by blast
    obtain pre0 where pre0: "hist r7 = hist r @ pre0" "list_all not_termination pre0" using inp(2) by (auto simp: emits_def)
    have rot: "rotates r4 (ctx_group r4) t" if "t \<in> set ts" for t
      using sel that drift(2,4) by (auto simp: rotates_def in_progress_targets_def resumable_def)
    have "\<exists>t n. inst_id t = i \<and> rotates r4 (ctx_group r4) t \<and> SelectNodeByInstanceID i (ctx_nodes r) = Some n \<and>
          drain_tried (job_IgnoreDrainFailures (drain_job_of r t n)) (node_Name n)
            (wrap64 (job_DrainTimeout (drain_job_of r t n) * Second)) (pre0 @ mid)"
      if "EvTerminateInstance i er \<in> set post" for i er
    proof -
      obtain t n7 where t: "t \<in> set ts" "inst_id t = i" "SelectNodeByInstanceID i (ctx_nodes r7) = Some n7"
        "handled mid (drain_job_of r7 t n7)" using run(3) \<open>EvTerminateInstance i er \<in> set post\<close> by blast
      obtain n where n: "SelectNodeByInstanceID i (ctx_nodes r) = Some n" "same_object False n n7"
        using inp(1) t(3) select_same_object_Some unfolding same_job_inputs_def by blast
      have "job_IgnoreDrainFailures (drain_job_of r7 t n7) = job_IgnoreDrainFailures (drain_job_of r t n)"
        "job_DrainTimeout (drain_job_of r7 t n7) = job_DrainTimeout (drain_job_of r t n)"
        "job_NodeName (drain_job_of r7 t n7) = node_Name n"
        using inp(1) same_object_fields [OF n(2)]
        by (simp_all add: drain_job_of_def same_job_inputs_def DrainTimeout_def IsIgnoreDrainFailures_def split: option.splits)
      then show ?thesis using t rot [OF t(1)] n(1) by (intro exI [of _ t] exI [of _ n]) (auto simp: handled_def elim: drain_tried_mono)
    qed
    then show ?thesis
      using run(1,2) pre0 by (intro exI [of _ "pre0 @ mid"] exI [of _ post]) simp
  qed
qed

section \<open>A pass returns\<close>

text \<open>EC2 returns tags with a key and a value.\<close>

definition tags_complete :: "env \<Rightarrow> bool" where
  "tags_complete e \<longleftrightarrow> (\<forall>h fs. \<forall>page \<in> set (fst (env_DescribeInstancesPages e h fs)). \<forall>res \<in> set (fst page).
     \<forall>i \<in> set res. \<forall>t \<in> set (ec2_Tags i). tag_Key t \<noteq> None \<and> tag_Value t \<noteq> None)"

lemma collect_pages_subset: "x \<in> set (fst (collect_pages ps err)) \<Longrightarrow> \<exists>page \<in> set ps. x \<in> set (fst page)"
  by (induction ps err rule: collect_pages.induct) (auto simp: case_prod_beta split: if_splits)

lemma Describe_untagged_returns:
  assumes "tags_complete e"
  shows "\<exists>ids err w'. DescribeInstancesWithoutTagValue e k v w = Some ((ids, err), w')"
proof -
  obtain pages err where p: "env_DescribeInstancesPages e (hist w) [] = (pages, err)" by fastforce
  have tc: "\<forall>page \<in> set pages. \<forall>res \<in> set (fst page). \<forall>i \<in> set res. \<forall>t \<in> set (ec2_Tags i). tag_Key t \<noteq> None \<and> tag_Value t \<noteq> None"
    using assms [unfolded tags_complete_def, THEN spec, THEN spec, of "hist w" "[]"] by (simp only: p fst_conv)
  have "\<forall>i \<in> set (concat (fst (collect_pages pages err))). \<forall>t \<in> set (ec2_Tags i). tag_Key t \<noteq> None \<and> tag_Value t \<noteq> None"
  proof
    fix i assume "i \<in> set (concat (fst (collect_pages pages err)))"
    then obtain res where res: "res \<in> set (fst (collect_pages pages err))" "i \<in> set res" by auto
    obtain page where "page \<in> set pages" "res \<in> set (fst page)" using collect_pages_subset [OF res(1)] by blast
    with res(2) tc show "\<forall>t \<in> set (ec2_Tags i). tag_Key t \<noteq> None \<and> tag_Value t \<noteq> None" by blast
  qed
  from untagged_ids_filter [OF this] show ?thesis
    by (simp add: DescribeInstancesWithoutTagValue_def p Let_def case_prod_beta)
qed

text \<open>A group whose instances have identifiers and whose configuration is complete.\<close>

definition group_wf :: "Group \<Rightarrow> bool" where
  "group_wf g \<longleftrightarrow> group_complete g \<and> (\<forall>i \<in> set (group_Instances g). inst_InstanceId i \<noteq> None) \<and>
     0 \<le> Int64Value (group_DesiredCapacity g)"

lemma CordonUncordonAllNodes_returns:
  assumes "api_names e" and "group_wf (ctx_group r)"
  shows "\<exists>x. CordonUncordonAllNodes e c r = Some x"
proof -
  obtain p' k' r' where "cordon_instances e c (group_Instances (ctx_group r)) 0 0 r = Some ((p', k'), r')"
    using cordon_instances_total [OF _ cordon_frame_refl assms(1)] assms(2) unfolding group_wf_def by blast
  then show ?thesis by (simp add: CordonUncordonAllNodes_def)
qed

lemma cleanup_returns:
  assumes "api_names e" and "group_wf (ctx_group r)"
  shows "\<exists>r'. cleanup_if_early e r = Some r'"
  using CordonUncordonAllNodes_returns [OF assms, of False] by (auto simp: cleanup_if_early_def cleanupEarlyCordonedNodes_def)

lemma SetBatchStandBy_returns: "\<exists>err r'. SetBatchStandBy e ids r = Some (err, r')"
proof -
  have "GetChunks ids InstanceStandByLimit = Some (chunks_of 19 ids)"
    using GetChunks_chunks_of [of InstanceStandByLimit ids] by (simp add: InstanceStandByLimit_def)
  then show ?thesis by (simp add: SetBatchStandBy_def)
qed

lemma standby_batch_returns:
  assumes "capacity_ok (int (length ids)) r"
  shows "\<exists>x. standby_batch e ids maps r = Some x"
proof -
  obtain b g r1 where cb: "ClusterBallooning (int (length ids)) r = ((b, g), r1)" by (metis prod.exhaust)
  have "0 \<le> g \<and> g \<le> int (length ids)"
    using ClusterBallooning_cases(1) [OF assms] assms by (auto simp: cb capacity_ok_def split: if_splits)
  then have "\<exists>ids'. (if int (length ids) \<noteq> g then slice_prefix ids g else Some ids) = Some ids'"
    by (simp add: slice_prefix_def)
  then obtain ids' where ids': "(if int (length ids) \<noteq> g then slice_prefix ids g else Some ids) = Some ids'" by blast
  obtain err r2 where tag: "TagEC2instances e ids' instanceStateTagKey inProgressTagValue r1 = (err, r2)" by fastforce
  obtain serr r3 where "SetBatchStandBy e ids' r2 = Some (serr, r3)" using SetBatchStandBy_returns by blast
  then have "standby_batch e ids maps r \<noteq> None" by (simp add: standby_batch_def cb ids' tag del: not_None_eq)
  then show ?thesis by (simp only: not_None_eq)
qed

text \<open>The counter of replacement nodes and its bound.\<close>

abbreviation budget :: "ctx \<Rightarrow> (string \<times> int) list \<times> int" where
  "budget r \<equiv> (ctx_ReplacementNodesMap r, ctx_MaxReplacementNodes r)"

lemma capacity_ok_budget: "budget r' = budget r \<Longrightarrow> m \<le> n \<Longrightarrow> 0 \<le> m \<Longrightarrow> capacity_ok n r \<Longrightarrow> capacity_ok m r'"
  by (simp add: capacity_ok_def replacement_count_def)

lemma cordon_instances_budget: "cordon_instances e c js p k r = Some (res, r') \<Longrightarrow> budget r' = budget r"
proof (induction js arbitrary: p k r)
  case (Cons i js)
  have one: "budget (upd_cloud f (snd res)) = budget r"
    if "res = cordonAndAnnotateNode e n r \<or> res = uncordonAndRemoveAnnotation e n r" for f res n
    using that ctx_fields_of_more(6,7) [OF cordonAndAnnotateNode_more [of e n r]]
      ctx_fields_of_more(6,7) [OF uncordonAndRemoveAnnotation_more [of e n r]] by auto
  from cordon_instances_step [OF Cons.prems] show ?case
    using Cons.IH one trans [OF Cons.IH one] by blast
qed simp

lemma CordonUncordonAllNodes_budget: "CordonUncordonAllNodes e c r = Some (res, r') \<Longrightarrow> budget r' = budget r"
  by (auto simp: CordonUncordonAllNodes_def Option.bind_eq_Some_conv split: if_splits dest: cordon_instances_budget)

lemma prepare_batch_returns:
  assumes "capacity_ok (int (length batch)) r"
  shows "\<exists>x. prepare_batch e batch maps r = Some x"
proof -
  obtain maps1 r1 where st: "step_targets e NodeRotationKickoff batch maps r = (maps1, r1)" by fastforce
  have "budget r1 = budget r"
    using ctx_fields_of_more(6,7) [OF step_targets_frame [of e NodeRotationKickoff batch maps r]] by (simp add: st)
  then have "capacity_ok (int (length (GetInServiceInstanceIDs batch))) r1"
    by (rule capacity_ok_budget [OF _ _ _ assms]) (simp_all add: GetInServiceInstanceIDs_def)
  from standby_batch_returns [OF this] obtain x where
    "standby_batch e (GetInServiceInstanceIDs batch) maps1 r1 = Some x" by blast
  then show ?thesis by (simp add: prepare_batch_def prepare_eager_def st Let_def case_prod_beta)
qed

lemma ReplaceNodeBatch_returns:
  assumes "api_names e" and "group_wf (ctx_group r)" and "capacity_ok (int (length batch)) r"
  shows "\<exists>x. ReplaceNodeBatch e sched choice batch r = Some x"
proof -
  obtain ok err r1 where c: "(if ctx_EarlyCordonNodes r then CordonUncordonAllNodes e True r
      else Some ((True, None), r)) = Some ((ok, err), r1)"
    using CordonUncordonAllNodes_returns [OF assms(1,2), of True] by (cases "ctx_EarlyCordonNodes r") force+
  then have "budget r1 = budget r" using CordonUncordonAllNodes_budget by (auto split: if_splits)
  then have "capacity_ok (int (length batch)) r1" by (rule capacity_ok_budget [OF _ _ _ assms(3)]) simp_all
  from prepare_batch_returns [OF this, of e] obtain res r2 where
    "prepare_batch e batch (status_NodeInProcessing (ru_Status (ctx_RollingUpgrade r)), []) r1 = Some (res, r2)"
    by (metis prod.exhaust)
  then have "ReplaceNodeBatch e sched choice batch r \<noteq> None"
    unfolding ReplaceNodeBatch_def Let_def c by (cases res) (simp_all del: not_None_eq)
  then show ?thesis by (simp only: not_None_eq)
qed

lemma begin_rotation_budget: "budget (begin_rotation e r) = budget r"
  by (simp add: begin_rotation_def set_status_def Let_def case_prod_beta)

lemma discovered_keeps:
  "budget (snd (discovered e r)) = budget r"
  "MaxUnavailable (ctx_RollingUpgrade (snd (discovered e r))) = MaxUnavailable (ctx_RollingUpgrade r)"
proof -
  let ?r1 = "snd (DescribeTaggedInstanceIDs e instanceStateTagKey failedDrainTagValue r)"
  have "budget ?r1 = budget r" using ctx_fields_of_more(6,7) [OF aws_calls_more(5)] by metis
  then show "budget (snd (discovered e r)) = budget r"
    using begin_rotation_budget [of e ?r1] by (simp add: discovered_eq Let_def)
  show "MaxUnavailable (ctx_RollingUpgrade (snd (discovered e r))) = MaxUnavailable (ctx_RollingUpgrade r)"
    using discovered_quiet(1) [of r e] by (simp add: quiet_def same_job_inputs_def MaxUnavailable_def)
qed

lemma SetProgress_budget: "budget (SetProgress a b r) = budget r"
  by (simp add: SetProgress_def Let_def SetTotalNodesMetric_def SetNodesProcessedMetric_def)

text \<open>The group as the pass sees it is the one discovered.\<close>

lemma group_of_quiet:
  assumes "ctx_Cloud r' = ctx_Cloud r" and "quiet r r'"
  shows "ctx_group r' = ctx_group r"
  using assms by (simp add: quiet_def same_job_inputs_def ScalingGroupName_def)

lemma calculated_size:
  assumes "percent_nonneg e" and "size_ok (MaxUnavailable ru)" and "group_wf g"
  shows "0 \<le> CalculateMaxUnavailable e (MaxUnavailable ru) (Int64Value (group_DesiredCapacity g)) \<and>
    CalculateMaxUnavailable e (MaxUnavailable ru) (Int64Value (group_DesiredCapacity g)) \<le> max 1 (Int64Value (group_DesiredCapacity g))"
  using CalculateMaxUnavailable_bounds [OF assms(1,2)] assms(3) by (fastforce simp: group_wf_def)

lemma rotation_targets_returns:
  assumes "tags_complete e" and "percent_nonneg e" and "size_ok (MaxUnavailable (ctx_RollingUpgrade r))"
    and "group_wf g" and "group_complete (ctx_group r)"
  shows "\<exists>ts r'. rotation_targets e g failed r = Some (ts, r') \<and> int (length ts) \<le> max 1 (Int64Value (group_DesiredCapacity g))"
proof -
  have one: "\<exists>ts u'. SelectTargets e g ex u = Some (ts, u') \<and> int (length ts) \<le> max 1 (Int64Value (group_DesiredCapacity g)) \<and>
      world.more u' = world.more u" if "world.more u = world.more r" for ex u
  proof -
    have u: "size_ok (MaxUnavailable (ctx_RollingUpgrade u))" "group_complete (ctx_group u)"
      using assms(3,5) ctx_fields_of_more [OF that] by simp_all
    note size = calculated_size [OF assms(2) u(1) assms(4)]
    obtain ids err u2 where d: "DescribeInstancesWithoutTagValue e instanceStateTagKey inProgressTagValue (untag_orphans e g u) =
        Some ((ids, err), u2)" using Describe_untagged_returns [OF assms(1)] by blast
    obtain ts u' where run: "SelectTargets e g ex u = Some (ts, u')"
      using SelectTargets_returns [OF u(2) d] size by blast
    then show ?thesis using SelectTargets_result [OF run] size by fastforce
  qed
  obtain ts r1 where first: "SelectTargets e g failed r = Some (ts, r1)"
    "int (length ts) \<le> max 1 (Int64Value (group_DesiredCapacity g))" "world.more r1 = world.more r" using one [of r failed] by blast
  obtain ts2 r2 where "SelectTargets e g [] r1 = Some (ts2, r2)" "int (length ts2) \<le> max 1 (Int64Value (group_DesiredCapacity g))"
    using one [OF first(3)] by blast
  then show ?thesis using first by (simp add: rotation_targets_def)
qed

lemma IsScalingGroupDrifted_returns:
  assumes "group_complete (ctx_group r)"
  shows "\<exists>drift r'. IsScalingGroupDrifted r = Some (drift, r') \<and> budget r' = budget r"
  using SetProgress_budget unfolding IsScalingGroupDrifted_def Let_def drift_count_eq [OF assms]
  by (cases "filter (drifted r) (group_Instances (ctx_group r)) = []") auto

lemma discovery_failed_returns:
  assumes "api_names e" and "group_wf (ctx_group r)"
  shows "\<exists>r'. discovery_failed e r = Some r'"
proof -
  let ?r2 = "SetMetricRollupFailed (meta_Name (ctx_RollingUpgrade (set_status StatusError r))) (set_status StatusError r)"
  have "ctx_group ?r2 = ctx_group r" by (simp add: ScalingGroupName_def)
  with cleanup_returns [OF assms(1), of ?r2] assms(2) show ?thesis by (simp add: discovery_failed_def Let_def)
qed

lemma complete_rotation_returns:
  assumes "api_names e" and "group_wf (ctx_group r)"
  shows "\<exists>r'. complete_rotation e r = Some r'"
proof -
  let ?r2 = "SetMetricRollupCompleted (meta_Name (ctx_RollingUpgrade (set_status StatusComplete r))) (set_status StatusComplete r)"
  let ?r3 = "endTimeUpdate e ?r2"
  have q: "quiet r ?r2" by (rule quiet_upd) simp_all
  have "ctx_Cloud ?r3 = ctx_Cloud r"
    by (simp add: endTimeUpdate_def Let_def case_prod_beta TotalProcessingTime_def split: option.splits)
  then have "ctx_group ?r3 = ctx_group r"
    by (rule group_of_quiet) (rule quiet_trans [OF q endTimeUpdate_quiet(1)])
  with cleanup_returns [OF assms(1), of ?r3] assms(2) show ?thesis by (simp add: complete_rotation_def Let_def)
qed

lemma rotate_batch_returns:
  assumes "api_names e" and "tags_complete e" and "percent_nonneg e" and "size_ok (MaxUnavailable (ctx_RollingUpgrade r))"
    and "group_wf (ctx_group r)" and "capacity_ok (max 1 (Int64Value (group_DesiredCapacity (ctx_group r)))) r"
  shows "\<exists>err r'. rotate_batch e sched choice (ctx_group r) failed r = Some (err, r')"
proof -
  obtain ts r1 where sel: "rotation_targets e (ctx_group r) failed r = Some (ts, r1)"
    and len: "int (length ts) \<le> max 1 (Int64Value (group_DesiredCapacity (ctx_group r)))"
    using rotation_targets_returns [OF assms(2,3,4,5)] assms(5) unfolding group_wf_def by blast
  have more: "world.more r1 = world.more r" using rotation_targets_ok [OF sel] by blast
  have "capacity_ok (int (length ts)) r1"
    by (rule capacity_ok_budget [OF _ len _ assms(6)]) (simp_all add: ctx_fields_of_more [OF more])
  then obtain x where "ReplaceNodeBatch e sched choice ts r1 = Some x"
    using ReplaceNodeBatch_returns [OF assms(1)] assms(5) ctx_fields_of_more(1,2) [OF more] by metis
  then show ?thesis by (cases x) (auto simp: rotate_batch_def sel)
qed

text \<open>The conditions under which no pass panics, on the group the pass discovers.\<close>

definition rotation_ok :: "env \<Rightarrow> ctx \<Rightarrow> bool" where
  "rotation_ok e r \<longleftrightarrow> api_names e \<and> tags_complete e \<and> percent_nonneg e \<and>
     size_ok (MaxUnavailable (ctx_RollingUpgrade r)) \<and> group_wf (ctx_group (snd (discovered e r))) \<and>
     capacity_ok (max 1 (Int64Value (group_DesiredCapacity (ctx_group (snd (discovered e r)))))) r"

lemma RotateNodes_total:
  assumes "rotation_ok e r"
  shows "\<exists>err r'. RotateNodes e sched choice r = Some (err, r')"
proof -
  obtain derr r4 where d: "discovered e r = (derr, r4)" by fastforce
  define g where "g = ctx_group r4"
  have ok: "api_names e" "tags_complete e" "percent_nonneg e" "size_ok (MaxUnavailable (ctx_RollingUpgrade r4))"
    "group_wf g" "capacity_ok (max 1 (Int64Value (group_DesiredCapacity g))) r4"
    using assms discovered_keeps(2) [of e r] capacity_ok_budget [OF discovered_keeps(1) order_refl, of _ r e]
    by (simp_all add: rotation_ok_def d g_def)
  obtain r5 where bad: "discovery_failed e r4 = Some r5" using discovery_failed_returns ok(1,5) g_def by blast
  let ?r5 = "upd_ru (SetTotalNodes (int (length (group_Instances g)))) r4"
  have g5: "ctx_group ?r5 = g" "budget ?r5 = budget r4" by (simp_all add: g_def SetTotalNodes_def ScalingGroupName_def)
  obtain drift r6 where drift: "IsScalingGroupDrifted ?r5 = Some (drift, r6)" "budget r6 = budget r4"
    using IsScalingGroupDrifted_returns [of ?r5] ok(5) g5 by (auto simp: group_wf_def)
  note pass = IsScalingGroupDrifted_pass [OF drift(1)]
  have g6: "ctx_group r6 = g" using group_of_quiet [OF pass(2,1)] by (simp add: g_def)
  have mu: "MaxUnavailable (ctx_RollingUpgrade r6) = MaxUnavailable (ctx_RollingUpgrade r4)"
    using pass(1) by (simp add: quiet_def same_job_inputs_def MaxUnavailable_def)
  have cap: "capacity_ok (max 1 (Int64Value (group_DesiredCapacity g))) r6"
    by (rule capacity_ok_budget [OF drift(2) order_refl _ ok(6)]) simp
  obtain r7 where fin: "complete_rotation e r6 = Some r7" using complete_rotation_returns ok(1,5) g6 by metis
  define failed where "failed = fst (fst (DescribeTaggedInstanceIDs e instanceStateTagKey failedDrainTagValue r))"
  obtain berr r8 where bat: "rotate_batch e sched choice g failed r6 = Some (berr, r8)"
    using rotate_batch_returns [OF ok(1,2,3), of r6] ok(4,5) mu g6 cap by metis
  show ?thesis
    unfolding RotateNodes_eq Let_def d prod.case failed_def [symmetric] g_def [symmetric]
    by (simp add: bad drift(1) fin bat)
qed

lemma RotateNodes_status_cases:
  assumes "RotateNodes e sched choice r = Some (err, r')" and "discovered e r = (derr, r4)"
  defines "fresh \<equiv> \<forall>i \<in> set (group_Instances (ctx_group r4)). IsInstanceDrifted r4 i = Some False"
  shows "CurrentStatus (ctx_RollingUpgrade r') =
      (if derr \<noteq> None then StatusError
       else if ctx_group r4 \<noteq> empty_Group \<and> fresh then StatusComplete else StatusRunning)"
    and "derr \<noteq> None \<Longrightarrow> err = derr"
    and "derr = None \<Longrightarrow> ctx_group r4 = empty_Group \<Longrightarrow> err \<noteq> None"
    and "derr = None \<Longrightarrow> ctx_group r4 \<noteq> empty_Group \<Longrightarrow> fresh \<Longrightarrow> err = None \<and> quiet r r'"
proof -
  have q4: "quiet r r4" and run4: "CurrentStatus (ctx_RollingUpgrade r4) = StatusRunning"
    using discovered_quiet [where r = r and e = e] assms(2) by simp_all
  have "CurrentStatus (ctx_RollingUpgrade r') =
      (if derr \<noteq> None then StatusError
       else if ctx_group r4 \<noteq> empty_Group \<and> fresh then StatusComplete else StatusRunning) \<and>
    (derr \<noteq> None \<longrightarrow> err = derr) \<and> (derr = None \<longrightarrow> ctx_group r4 = empty_Group \<longrightarrow> err \<noteq> None) \<and>
    (derr = None \<longrightarrow> ctx_group r4 \<noteq> empty_Group \<longrightarrow> fresh \<longrightarrow> err = None \<and> quiet r r')"
    using assms(1,2)
  proof (cases rule: RotateNodes_cases)
    case failed
    then show ?thesis using discovery_failed_quiet [OF failed(2)] by auto
  next
    case missing
    then show ?thesis using run4 by simp
  next
    case (complete r6)
    note pass = IsScalingGroupDrifted_pass [OF complete(3)]
    have fresh using pass(5) by (simp add: fresh_def)
    moreover have "quiet r r'"
      using complete_rotation_quiet [OF complete(4)] quiet_trans [OF q4 quiet_trans [OF pass(1)]] by blast
    ultimately show ?thesis
      using complete_rotation_quiet [OF complete(4)] complete(1,2,5) by simp
  next
    case (batch r6 failed ts r7 ok err0)
    note pass = IsScalingGroupDrifted_pass [OF batch(3)]
    have "ctx_RollingUpgrade r7 = ctx_RollingUpgrade r6"
      using rotation_targets_ok [OF batch(4)] ctx_fields_of_more(2) by blast
    then have "CurrentStatus (ctx_RollingUpgrade r') = CurrentStatus (ctx_RollingUpgrade r6)"
      using outline_fields(5) ReplaceNodeBatch_keeps [OF batch(5)] by metis
    moreover have "\<not> fresh" using pass(5) by (simp add: fresh_def)
    ultimately show ?thesis using pass(3) run4 batch(1,2) by simp
  qed
  then show "CurrentStatus (ctx_RollingUpgrade r') =
      (if derr \<noteq> None then StatusError
       else if ctx_group r4 \<noteq> empty_Group \<and> fresh then StatusComplete else StatusRunning)"
    and "derr \<noteq> None \<Longrightarrow> err = derr"
    and "derr = None \<Longrightarrow> ctx_group r4 = empty_Group \<Longrightarrow> err \<noteq> None"
    and "derr = None \<Longrightarrow> ctx_group r4 \<noteq> empty_Group \<Longrightarrow> fresh \<Longrightarrow> err = None \<and> quiet r r'"
    by blast+
qed

section \<open>Properties\<close>

text \<open>A cloud with one group, of which one instance is of an old launch configuration.\<close>

definition rotation_env :: env where
  "rotation_env = sample_api_env\<lparr>env_DescribeAutoScalingGroupsPages := \<lambda>h. ([([sample_group], False)], None),
     env_DescribeInstancesPages := \<lambda>h fs. if fs = [] then
       ([([[\<lparr>ec2_InstanceId = Some ''i1'', ec2_Tags = []\<rparr>, \<lparr>ec2_InstanceId = Some ''i2'', ec2_Tags = []\<rparr>]], False)], None)
     else ([], None),
     env_NodesList := \<lambda>h. (Some [sample_node ''n1'' ''i1'', sample_node ''n2'' ''i2''], None)\<rparr>"

lemma rotation_env_Discover:
  "fst (Discover rotation_env d w) =
     (None, d\<lparr>cloud_LaunchTemplates := [], cloud_ScalingGroups := [sample_group], cloud_InProgressInstances := []\<rparr>)"
  by (simp add: Discover_def DescribeLaunchTemplates_def DescribeScalingGroups_def DescribeTaggedInstanceIDs_def
      rotation_env_def sample_api_env_def sample_cloud_env_def sample_env_def Let_def)

lemma rotation_env_discovers:
  assumes "ScalingGroupName (ctx_RollingUpgrade r) = ''asg''"
  shows "fst (discovered rotation_env r) = None" "ctx_group (snd (discovered rotation_env r)) = sample_group"
proof -
  show "fst (discovered rotation_env r) = None" by (simp add: discovered_eq Let_def rotation_env_Discover)
  have "ScalingGroupName (ctx_RollingUpgrade (snd (discovered rotation_env r))) = ''asg''"
    using assms discovered_quiet(1) [of r rotation_env] by (simp add: quiet_def same_job_inputs_def ScalingGroupName_def)
  moreover have "cloud_ScalingGroups (ctx_Cloud (snd (discovered rotation_env r))) = [sample_group]"
    by (simp add: discovered_eq Let_def rotation_env_Discover)
  ultimately show "ctx_group (snd (discovered rotation_env r)) = sample_group"
    by (simp add: sample_group_def)
qed

lemma rotation_env_passes:
  assumes "ScalingGroupName (ctx_RollingUpgrade r) = ''asg''" and "size_ok (MaxUnavailable (ctx_RollingUpgrade r))"
    and "capacity_ok 2 r"
  shows "rotation_ok rotation_env r"
proof -
  have "api_names rotation_env" using sample_api_names by (simp add: api_names_def rotation_env_def)
  moreover have "tags_complete rotation_env" by (simp add: tags_complete_def rotation_env_def)
  moreover have "percent_nonneg rotation_env"
    using sample_percent by (simp add: percent_nonneg_def rotation_env_def sample_api_env_def sample_cloud_env_def)
  moreover have "group_wf sample_group" by (simp add: group_wf_def group_complete_def sample_group_def sample_instance_def)
  moreover have "Int64Value (group_DesiredCapacity sample_group) = 2" by (simp add: sample_group_def)
  ultimately show ?thesis
    using assms(2,3) rotation_env_discovers(2) [OF assms(1)] by (simp add: rotation_ok_def)
qed

lemma rotation_env_ok: "rotation_ok rotation_env sample_ctx"
  by (rule rotation_env_passes)
     (simp_all add: sample_defs ScalingGroupName_def MaxUnavailable_def size_ok_def size_acceptable_def
       capacity_ok_def replacement_count_def sm_Load_def)

text \<open>C10: a pass returns, and its outcome is determined by what it discovers: status error and that error if
  the discovery failed; an error and status running if there is no such group; completed, without an
  error and without terminating anything, if no instance of the group drifts; running otherwise.\<close>

theorem RotateNodes_status:
  assumes "rotation_ok e r" and "discovered e r = (derr, r4)"
  shows "\<exists>err r'. RotateNodes e sched choice r = Some (err, r') \<and>
    (if derr \<noteq> None then CurrentStatus (ctx_RollingUpgrade r') = StatusError \<and> err = derr
     else if ctx_group r4 = empty_Group then CurrentStatus (ctx_RollingUpgrade r') = StatusRunning \<and> err \<noteq> None
     else if \<forall>i \<in> set (group_Instances (ctx_group r4)). IsInstanceDrifted r4 i = Some False then
       CurrentStatus (ctx_RollingUpgrade r') = StatusComplete \<and> err = None \<and>
       (\<forall>i er. EvTerminateInstance i er \<notin> set (new_events r r'))
     else CurrentStatus (ctx_RollingUpgrade r') = StatusRunning)"
proof -
  obtain err r' where run: "RotateNodes e sched choice r = Some (err, r')" using RotateNodes_total [OF assms(1)] by blast
  note c = RotateNodes_status_cases [OF run assms(2)]
  have "\<forall>i er. EvTerminateInstance i er \<notin> set (new_events r r')" if "quiet r r'"
    using that by (fastforce simp: quiet_def emits_def new_events_def list_all_iff not_termination_def)
  with c run show ?thesis by (auto split: if_splits)
qed

lemma rotation_env_drift: "IsInstanceDrifted (snd (discovered rotation_env sample_ctx)) (sample_instance ''i1'' ''a'' ''old'') = Some True"
proof -
  define r4 where "r4 = snd (discovered rotation_env sample_ctx)"
  have g: "ctx_group r4 = sample_group"
    unfolding r4_def by (rule rotation_env_discovers(2)) (simp add: sample_defs ScalingGroupName_def)
  then have "group_complete (ctx_group r4)" by (simp add: group_complete_def sample_group_def)
  note eq = IsInstanceDrifted_eq [OF this]
  have "\<not> IsForceRefresh (ctx_RollingUpgrade r4)"
    using discovered_quiet(1) [of sample_ctx rotation_env]
    by (simp add: r4_def quiet_def same_job_inputs_def IsForceRefresh_def sample_defs)
  then show ?thesis
    unfolding r4_def [symmetric] eq
    by (simp add: drifted_def g terminating_def desired_source_def sample_group_def sample_instance_def
        EqualFold_def fold_char_def TerminatingInstanceStates_def)
qed

theorem RotateNodes_status_witness:
  "\<exists>err r'. RotateNodes rotation_env [0, 0, 0, 0, 0] DoneCase sample_ctx = Some (err, r') \<and>
     CurrentStatus (ctx_RollingUpgrade r') = StatusRunning"
proof -
  obtain derr r4 where d: "discovered rotation_env sample_ctx = (derr, r4)" by fastforce
  have asg: "ScalingGroupName (ctx_RollingUpgrade sample_ctx) = ''asg''" by (simp add: sample_defs ScalingGroupName_def)
  have g: "ctx_group r4 = sample_group" "derr = None" using rotation_env_discovers [OF asg] by (simp_all add: d)
  have "IsInstanceDrifted r4 (sample_instance ''i1'' ''a'' ''old'') = Some True" using rotation_env_drift by (simp add: d)
  moreover have "sample_group \<noteq> empty_Group" by (simp add: sample_group_def empty_Group_def)
  moreover have "sample_instance ''i1'' ''a'' ''old'' \<in> set (group_Instances sample_group)" by (simp add: sample_group_def)
  moreover from calculation have "\<not> (\<forall>i \<in> set (group_Instances sample_group). IsInstanceDrifted r4 i = Some False)"
    by (metis option.inject)
  ultimately show ?thesis
    using RotateNodes_status [OF rotation_env_ok d, of "[0, 0, 0, 0, 0]" DoneCase] g by (simp del: bex_simps ball_simps)
qed

end
