(* ===== verification/Reconciler.thy ===== *)
theory Reconciler
  imports Node_Rotation
begin

text \<open>
  \<^verbatim>\<open>RollingUpgradeReconciler\<close> of \<^verbatim>\<open>controllers/rollingupgrade_controller.go\<close>: the controller's shared
  maps, its node events, and \<open>Reconcile\<close>, which admits an upgrade and runs one pass of \<open>RotateNodes\<close>
  for it. \<open>Reconcile\<close> is split where its code returns; \<open>Inl\<close> of a phase is a return, and the deferred
  \<open>Update\<close> runs after every return behind the validation. \<open>None\<close> is a panic.

  The record keeps the fields of the struct. The two mappers hold, under the same key, the wait
  group and the channel of an upgrade; both, and the goroutines using them, are one \<open>DrainManager\<close>
  under that key. \<^verbatim>\<open>ClusterNodesMap\<close> holds pointers to node objects, which a pass may modify: the
  nodes of the pass are stored back under their keys at its end. The context of a pass shares the
  counter of replacement nodes, and copies the settings.
\<close>

section \<open>The controller\<close>

record reconciler = world +
  rec_AdmissionMap :: "(string, string) gomap"
  rec_maxParallel :: int
  rec_DrainMapper :: "(string, DrainManager) gomap"
  rec_ClusterNodesMap :: "(string, Node) gomap"
  rec_ReconcileMap :: "(string, string) gomap"
  rec_DrainTimeout :: int
  rec_IgnoreDrainFailures :: bool
  rec_ReplacementNodesMap :: "(string, int) gomap"
  rec_MaxReplacementNodes :: int
  rec_EarlyCordonNodes :: bool

definition SetMaxParallel :: "int \<Rightarrow> reconciler \<Rightarrow> reconciler" where
  "SetMaxParallel n r = (if n \<ge> 1 then r\<lparr>rec_maxParallel := n\<rparr> else r)"

definition SetMaxReplacementNodes :: "int \<Rightarrow> reconciler \<Rightarrow> reconciler" where
  "SetMaxReplacementNodes n r = (if n \<ge> 1 then r\<lparr>rec_MaxReplacementNodes := n\<rparr> else r)"

text \<open>\<^verbatim>\<open>ctrl.Request\<close> and \<^verbatim>\<open>ctrl.Result\<close>.\<close>

record Request =
  req_Namespace :: string
  req_Name :: string

definition req_String :: "Request \<Rightarrow> string" where
  "req_String req = req_Namespace req @ ''/'' @ req_Name req"

record Result =
  res_RequeueAfter :: duration

abbreviation no_requeue :: Result where
  "no_requeue \<equiv> \<lparr>res_RequeueAfter = 0\<rparr>"
abbreviation requeue :: Result where
  "requeue \<equiv> \<lparr>res_RequeueAfter = DefaultRequeueTime\<rparr>"

type_synonym outcome = "Result \<times> error option"

section \<open>Nodes\<close>

text \<open>The object of a watch event: a node or something else.\<close>

datatype k8s_object = NodeObject Node | OtherObject

definition CreateFunc :: "k8s_object \<Rightarrow> reconciler \<Rightarrow> bool \<times> reconciler" where
  "CreateFunc obj r =
     (case obj of
        NodeObject n \<Rightarrow> (False, r\<lparr>rec_ClusterNodesMap := sm_Store (node_Name n) n (rec_ClusterNodesMap r)\<rparr>)
      | OtherObject \<Rightarrow> (True, r))"

definition UpdateFunc :: "k8s_object \<Rightarrow> reconciler \<Rightarrow> bool \<times> reconciler" where
  "UpdateFunc obj r =
     (case obj of
        NodeObject n \<Rightarrow> (False, r\<lparr>rec_ClusterNodesMap := sm_Store (node_Name n) n (rec_ClusterNodesMap r)\<rparr>)
      | OtherObject \<Rightarrow> (True, r))"

definition DeleteFunc :: "k8s_object \<Rightarrow> reconciler \<Rightarrow> bool \<times> reconciler" where
  "DeleteFunc obj r =
     (case obj of
        NodeObject n \<Rightarrow> (False, r\<lparr>rec_ClusterNodesMap := sm_Delete (node_Name n) (rec_ClusterNodesMap r)\<rparr>)
      | OtherObject \<Rightarrow> (True, r))"

text \<open>\<^verbatim>\<open>predicate.Funcs\<close> without a \<^verbatim>\<open>GenericFunc\<close> accepts.\<close>

definition GenericFunc :: "k8s_object \<Rightarrow> reconciler \<Rightarrow> bool \<times> reconciler" where
  "GenericFunc obj r = (True, r)"

text \<open>
  The map function of the watch on nodes: it is called with the object of every event of a node,
  and evaluates the four predicates in this order as far as \<^verbatim>\<open>&&\<close> does.
\<close>

definition node_requests :: "k8s_object \<Rightarrow> reconciler \<Rightarrow> Request list \<times> reconciler" where
  "node_requests obj r =
     (let default = [\<lparr>req_Namespace = '''', req_Name = ''''\<rparr>];
          (c, r1) = CreateFunc obj r
      in if c then (default, r1) else
      let (u, r2) = UpdateFunc obj r1
      in if u then (default, r2) else
      let (d, r3) = DeleteFunc obj r2
      in if d then (default, r3) else
      let (g, r4) = GenericFunc obj r3
      in if g then (default, r4) else ([], r4))"

text \<open>The keys and nodes of the map in the order in which the second \<^verbatim>\<open>range\<close> visits them.\<close>

definition getClusterNodes :: "env \<Rightarrow> reconciler \<Rightarrow> (string \<times> Node) list \<times> reconciler" where
  "getClusterNodes e r =
     (let (keys, r1) = range_keys e (map fst (rec_ClusterNodesMap r)) r
      in (List.map_filter (\<lambda>k. map_option (Pair k) (sm_Load (rec_ClusterNodesMap r) k)) keys, r1))"

definition ensureClusterNodesMapPopulated :: "env \<Rightarrow> reconciler \<Rightarrow> error option \<times> reconciler" where
  "ensureClusterNodesMapPopulated e r =
     (if sm_Range_any (\<lambda>_ _. True) (rec_ClusterNodesMap r) then (None, r)
      else (case GetKubernetesClient e of
              (_, Some err) \<Rightarrow> (Some (Wrap ''failed to create kubernetes client'' err), r)
            | (_, None) \<Rightarrow>
                (let ((nodes, err), r1) = ListClusterNodes e r
                 in case err of
                      Some er \<Rightarrow> (Some (Wrap ''failed to list cluster nodes'' er), r1)
                    | None \<Rightarrow> (None, r1\<lparr>rec_ClusterNodesMap :=
                        fold (\<lambda>n m. sm_Store (node_Name n) n m) nodes (rec_ClusterNodesMap r1)\<rparr>))))"

section \<open>Reconcile\<close>

text \<open>The deferred update of the resource.\<close>

definition Update :: "env \<Rightarrow> RollingUpgrade \<Rightarrow> reconciler \<Rightarrow> reconciler" where
  "Update e ru r =
     (let r1 = r\<lparr>rec_ReconcileMap := sm_Delete (NamespacedName ru) (rec_ReconcileMap r)\<rparr>;
          err = env_StatusUpdate e (hist r1) ru;
          r2 = log_event (EvStatusUpdate ru err) r1
      in if err \<noteq> None then r2
         else log_event (EvPatchLabel (NamespacedName ru) LabelKeyRollingUpgradeCurrentStatus (CurrentStatus ru)
                (env_PatchLabel e (hist r2) (NamespacedName ru) LabelKeyRollingUpgradeCurrentStatus (CurrentStatus ru))) r2)"

definition relabel :: "string \<Rightarrow> RollingUpgrade \<Rightarrow> RollingUpgrade" where
  "relabel status ru = SetLabel LabelKeyRollingUpgradeCurrentStatus status (SetCurrentStatus status ru)"

definition init_status :: "RollingUpgrade \<Rightarrow> reconciler \<Rightarrow> RollingUpgrade \<times> reconciler" where
  "init_status ru r =
     (if CurrentStatus ru = '''' then
        (relabel StatusInit ru, SetMetricRollupInitOrRunning (meta_Name ru) r)
      else (ru, r))"

text \<open>After a restart the map is empty: the running upgrades are admitted again.\<close>

definition readmit :: "RollingUpgrade list \<Rightarrow> (string, string) gomap \<Rightarrow> (string, string) gomap" where
  "readmit items m =
     fold (\<lambda>cr m. if CurrentStatus cr = StatusRunning then sm_Store (NamespacedName cr) (ScalingGroupName cr) m else m)
       items m"

definition restore_admissions :: "env \<Rightarrow> reconciler \<Rightarrow> error option \<times> reconciler" where
  "restore_admissions e r =
     (if GetSyncMapLen (rec_AdmissionMap r) = 0 then
        (let r1 = log_event EvListRollingUpgrades r
         in case env_ListRollingUpgrades e (hist r) of
              Inl err \<Rightarrow> (Some err, r1)
            | Inr items \<Rightarrow> (None, r1\<lparr>rec_AdmissionMap := readmit items (rec_AdmissionMap r1)\<rparr>))
      else (None, r))"

text \<open>Whether the upgrade must wait, by its group and by the number of upgrades admitted.\<close>

definition group_taken :: "RollingUpgrade \<Rightarrow> (string, string) gomap \<Rightarrow> bool" where
  "group_taken ru m =
     sm_Range_any (\<lambda>resource val. EqualFold val (ScalingGroupName ru) \<and> \<not> EqualFold resource (NamespacedName ru)) m"

definition must_wait :: "RollingUpgrade \<Rightarrow> reconciler \<Rightarrow> bool" where
  "must_wait ru r =
     (if group_taken ru (rec_AdmissionMap r) then True
      else GetSyncMapLen (rec_AdmissionMap r) \<ge> rec_maxParallel r \<and>
           sm_Load (rec_AdmissionMap r) (NamespacedName ru) = None)"

definition admit :: "RollingUpgrade \<Rightarrow> reconciler \<Rightarrow> reconciler" where
  "admit ru r =
     (let (_, present, m) = sm_LoadOrStore (NamespacedName ru) (ScalingGroupName ru) (rec_AdmissionMap r);
          r1 = r\<lparr>rec_AdmissionMap := m\<rparr>
      in if \<not> present then log_event (EvFlushCache ''ec2'') (log_event (EvFlushCache ''autoscaling'') r1) else r1)"

text \<open>The context of a pass, and what the controller keeps of it.\<close>

definition rollup_ctx :: "RollingUpgrade \<Rightarrow> DrainManager \<Rightarrow> Node list \<Rightarrow> reconciler \<Rightarrow> ctx" where
  "rollup_ctx ru dm nodes r = \<lparr>hist = hist r, registry = registry r,
     ctx_Cloud = NewDiscoveredState\<lparr>cloud_ClusterNodes := nodes\<rparr>, ctx_RollingUpgrade = ru, ctx_DrainManager = dm,
     ctx_DrainTimeout = rec_DrainTimeout r, ctx_IgnoreDrainFailures = rec_IgnoreDrainFailures r,
     ctx_ReplacementNodesMap = rec_ReplacementNodesMap r, ctx_MaxReplacementNodes = rec_MaxReplacementNodes r,
     ctx_AllowReplacements = False, ctx_EarlyCordonNodes = rec_EarlyCordonNodes r\<rparr>"

definition keep_ctx :: "string \<Rightarrow> string list \<Rightarrow> ctx \<Rightarrow> reconciler \<Rightarrow> reconciler" where
  "keep_ctx name keys c r = r\<lparr>hist := hist c, registry := registry c,
     rec_ReplacementNodesMap := ctx_ReplacementNodesMap c,
     rec_DrainMapper := sm_Store name (ctx_DrainManager c) (rec_DrainMapper r),
     rec_ClusterNodesMap := fold (\<lambda>(k, n) m. sm_Store k n m) (zip keys (ctx_nodes c)) (rec_ClusterNodesMap r)\<rparr>"

definition rotate :: "env \<Rightarrow> nat list \<Rightarrow> select_case \<Rightarrow> ctx \<Rightarrow> (outcome \<times> ctx) option" where
  "rotate e sched choice c =
     do { (err, c1) \<leftarrow> RotateNodes e sched choice c;
          if err \<noteq> None then
            (let c2 = upd_ru (relabel StatusError) c1;
                 c3 = SetMetricRollupFailed (meta_Name (ctx_RollingUpgrade c2)) c2
             in do { (_, c4) \<leftarrow> CordonUncordonAllNodes e False c3; Some ((no_requeue, err), c4) })
          else Some ((requeue, None), c1) }"

text \<open>From the admission on: the drain manager of the upgrade, the nodes, and the pass.\<close>

definition process_upgrade ::
  "env \<Rightarrow> nat list \<Rightarrow> select_case \<Rightarrow> RollingUpgrade \<Rightarrow> reconciler \<Rightarrow> (outcome \<times> RollingUpgrade \<times> reconciler) option" where
  "process_upgrade e sched choice ru r =
     (let r1 = admit ru r;
          (dm, _, m) = sm_LoadOrStore (NamespacedName ru) NewDrainManager (rec_DrainMapper r1);
          (err, r2) = ensureClusterNodesMapPopulated e (r1\<lparr>rec_DrainMapper := m\<rparr>)
      in if err \<noteq> None then Some ((no_requeue, err), ru, r2)
         else
           (let (entries, r3) = getClusterNodes e r2
            in do { (res, c) \<leftarrow> rotate e sched choice (rollup_ctx ru dm (map snd entries) r3);
                    Some (res, ctx_RollingUpgrade c, keep_ctx (NamespacedName ru) (map fst entries) c r3) }))"

text \<open>From the reconcile lock on, on a validated resource.\<close>

definition reconcile_upgrade ::
  "env \<Rightarrow> nat list \<Rightarrow> select_case \<Rightarrow> RollingUpgrade \<Rightarrow> reconciler \<Rightarrow> (outcome \<times> RollingUpgrade \<times> reconciler) option" where
  "reconcile_upgrade e sched choice ru0 r0 =
     (let (ru, r) = init_status ru0 r0;
          (_, present, m) = sm_LoadOrStore (NamespacedName ru) (ScalingGroupName ru) (rec_ReconcileMap r);
          r1 = r\<lparr>rec_ReconcileMap := m\<rparr>
      in if present then Some ((requeue, None), ru, r1)
         else
           (let (err, r2) = restore_admissions e r1
            in if err \<noteq> None then Some ((no_requeue, err), ru, r2)
               else if must_wait ru r2 then Some ((requeue, None), ru, r2)
               else process_upgrade e sched choice ru r2))"

definition forget :: "string \<Rightarrow> reconciler \<Rightarrow> reconciler" where
  "forget name r = r\<lparr>rec_AdmissionMap := sm_Delete name (rec_AdmissionMap r)\<rparr>"

definition being_deleted :: "RollingUpgrade \<Rightarrow> bool" where
  "being_deleted ru = (case meta_DeletionTimestamp ru of None \<Rightarrow> False | Some t \<Rightarrow> t \<noteq> zero_time)"

definition Get :: "env \<Rightarrow> Request \<Rightarrow> reconciler \<Rightarrow> (error + RollingUpgrade) \<times> reconciler" where
  "Get e req r =
     (let res = env_GetRollingUpgrade e (hist r) (req_String req)
      in (res, log_event (EvGetRollingUpgrade (req_String req) (case res of Inl er \<Rightarrow> Some er | Inr _ \<Rightarrow> None)) r))"

definition Reconcile ::
  "env \<Rightarrow> nat list \<Rightarrow> select_case \<Rightarrow> Request \<Rightarrow> reconciler \<Rightarrow> (outcome \<times> reconciler) option" where
  "Reconcile e sched choice req r =
     (case Get e req r of
        (Inl err, r1) \<Rightarrow>
          if IsNotFound err then Some ((no_requeue, None), forget (req_String req) r1)
          else Some ((no_requeue, Some err), r1)
      | (Inr ru, r1) \<Rightarrow>
          if being_deleted ru then Some ((no_requeue, None), forget (NamespacedName ru) r1)
          else if ContainsEqualFold FiniteStates (CurrentStatus ru) then
            Some ((no_requeue, None), forget (NamespacedName ru) r1)
          else
            (let ((ok, err), ru1) = Validate ru
             in if \<not> ok then Some ((no_requeue, err), r1)
                else do { (res, ru2, r2) \<leftarrow> reconcile_upgrade e sched choice ru1 r1;
                          Some (res, Update e ru2 r2) }))"

end
