(* ===== verification/Admission.thy ===== *)
theory Admission
  imports Reconciler
begin

text \<open>
  The reconciler of \<^verbatim>\<open>controllers/rollingupgrade_controller.go\<close>: the ways a reconcile can go, what its
  parts leave alone, the invariant of the drain managers of the upgrades, and that a reconcile returns.
\<close>

section \<open>Frames\<close>

lemma rec_fields_of_more:
  fixes r r' :: reconciler
  assumes "world.more r' = world.more r"
  shows "rec_AdmissionMap r' = rec_AdmissionMap r" "rec_maxParallel r' = rec_maxParallel r"
    "rec_DrainMapper r' = rec_DrainMapper r" "rec_ClusterNodesMap r' = rec_ClusterNodesMap r"
    "rec_ReconcileMap r' = rec_ReconcileMap r" "rec_ReplacementNodesMap r' = rec_ReplacementNodesMap r"
    "rec_MaxReplacementNodes r' = rec_MaxReplacementNodes r" "rec_DrainTimeout r' = rec_DrainTimeout r"
    "rec_IgnoreDrainFailures r' = rec_IgnoreDrainFailures r"
  using assms by (cases r; cases r'; simp)+

lemmas rec_log_event [simp] = rec_fields_of_more [OF more_log_event]
lemmas rec_metric [simp] = rec_fields_of_more [OF metric_more(5)]

lemma range_keys_rec [simp]: "world.more (snd (range_keys e ks (w :: reconciler))) = world.more w"
  by (simp add: range_keys_def Let_def)

lemma init_status_frame [simp]:
  "rec_AdmissionMap (snd (init_status ru r)) = rec_AdmissionMap r"
  "rec_maxParallel (snd (init_status ru r)) = rec_maxParallel r"
  "rec_DrainMapper (snd (init_status ru r)) = rec_DrainMapper r"
  "rec_ClusterNodesMap (snd (init_status ru r)) = rec_ClusterNodesMap r"
  "rec_ReconcileMap (snd (init_status ru r)) = rec_ReconcileMap r"
  "rec_ReplacementNodesMap (snd (init_status ru r)) = rec_ReplacementNodesMap r"
  "rec_MaxReplacementNodes (snd (init_status ru r)) = rec_MaxReplacementNodes r"
  "hist (snd (init_status ru r)) = hist r"
  by (simp_all add: init_status_def)

lemma relabel_frame [simp]:
  "NamespacedName (relabel st ru) = NamespacedName ru" "ru_Spec (relabel st ru) = ru_Spec ru"
  "meta_Name (relabel st ru) = meta_Name ru" "CurrentStatus (relabel st ru) = st"
  "ScalingGroupName (relabel st ru) = ScalingGroupName ru"
  by (simp_all add: relabel_def SetLabel_def SetCurrentStatus_def NamespacedName_def CurrentStatus_def ScalingGroupName_def)

lemma init_status_ru [simp]:
  "NamespacedName (fst (init_status ru r)) = NamespacedName ru" "ru_Spec (fst (init_status ru r)) = ru_Spec ru"
  "ScalingGroupName (fst (init_status ru r)) = ScalingGroupName ru"
  by (simp_all add: init_status_def)

lemma restore_admissions_frame [simp]:
  "rec_maxParallel (snd (restore_admissions e r)) = rec_maxParallel r"
  "rec_DrainMapper (snd (restore_admissions e r)) = rec_DrainMapper r"
  "rec_ReconcileMap (snd (restore_admissions e r)) = rec_ReconcileMap r"
  by (simp_all add: restore_admissions_def Let_def split: sum.splits)

lemma admit_frame [simp]:
  "rec_maxParallel (admit ru r) = rec_maxParallel r" "rec_DrainMapper (admit ru r) = rec_DrainMapper r"
  "rec_ReconcileMap (admit ru r) = rec_ReconcileMap r"
  "rec_AdmissionMap (admit ru r) = snd (snd (sm_LoadOrStore (NamespacedName ru) (ScalingGroupName ru) (rec_AdmissionMap r)))"
  by (simp_all add: admit_def case_prod_beta Let_def)

lemma ListClusterNodes_rec [simp]: "world.more (snd (ListClusterNodes e (w :: reconciler))) = world.more w"
  by (simp add: ListClusterNodes_def Let_def split: prod.splits option.splits)

lemma ensure_frame [simp]:
  "rec_maxParallel (snd (ensureClusterNodesMapPopulated e r)) = rec_maxParallel r"
  "rec_DrainMapper (snd (ensureClusterNodesMapPopulated e r)) = rec_DrainMapper r"
  "rec_ReconcileMap (snd (ensureClusterNodesMapPopulated e r)) = rec_ReconcileMap r"
  "rec_AdmissionMap (snd (ensureClusterNodesMapPopulated e r)) = rec_AdmissionMap r"
  using rec_fields_of_more [OF ListClusterNodes_rec [of e r]]
  by (auto simp: ensureClusterNodesMapPopulated_def Let_def case_prod_beta split: option.splits)

lemma getClusterNodes_frame [simp]: "world.more (snd (getClusterNodes e r)) = world.more r"
  by (simp add: getClusterNodes_def case_prod_beta)

lemmas getClusterNodes_rec [simp] = rec_fields_of_more [OF getClusterNodes_frame]

lemma keep_ctx_frame [simp]:
  "rec_maxParallel (keep_ctx name keys c r) = rec_maxParallel r"
  "rec_ReconcileMap (keep_ctx name keys c r) = rec_ReconcileMap r"
  "rec_AdmissionMap (keep_ctx name keys c r) = rec_AdmissionMap r"
  "rec_DrainMapper (keep_ctx name keys c r) = sm_Store name (ctx_DrainManager c) (rec_DrainMapper r)"
  "hist (keep_ctx name keys c r) = hist c"
  by (simp_all add: keep_ctx_def)

lemma Update_frame [simp]:
  "rec_AdmissionMap (Update e ru r) = rec_AdmissionMap r" "rec_maxParallel (Update e ru r) = rec_maxParallel r"
  "rec_DrainMapper (Update e ru r) = rec_DrainMapper r"
  "rec_ReconcileMap (Update e ru r) = sm_Delete (NamespacedName ru) (rec_ReconcileMap r)"
  by (simp_all add: Update_def Let_def)

section \<open>The resource of a pass\<close>

text \<open>A pass keeps the name and the spec of its resource, and the invariant of its goroutines.\<close>

abbreviation identity :: "ctx \<Rightarrow> string \<times> string" where
  "identity r \<equiv> (meta_Namespace (ctx_RollingUpgrade r), meta_Name (ctx_RollingUpgrade r))"

lemma set_status_identity [simp]: "identity (set_status st r) = identity r"
  by (simp add: set_status_def SetLabel_def SetCurrentStatus_def)

lemma discovered_identity: "identity (snd (discovered e r)) = identity r"
proof -
  have "identity (begin_rotation e u) = identity u" for u
    by (simp add: begin_rotation_def Let_def case_prod_beta SetStartTime_def set_status_def SetLabel_def SetCurrentStatus_def)
  then show ?thesis
    using ctx_fields_of_more(2) [OF aws_calls_more(5), of e instanceStateTagKey failedDrainTagValue r]
    by (simp add: discovered_eq Let_def)
qed

lemma calm_identity: "calm r r' \<Longrightarrow> identity r' = identity r"
  by (simp add: calm_def)

lemma discovery_failed_identity: "discovery_failed e r = Some r' \<Longrightarrow> identity r' = identity r"
  using calm_identity [OF cleanup_calm] by (fastforce simp: discovery_failed_def Let_def set_status_def SetLabel_def SetCurrentStatus_def)

lemma complete_rotation_identity: "complete_rotation e r = Some r' \<Longrightarrow> identity r' = identity r"
  using calm_identity [OF cleanup_calm]
  by (fastforce simp: complete_rotation_def endTimeUpdate_def Let_def case_prod_beta set_status_def SetLabel_def
      SetCurrentStatus_def SetEndTime_def SetTotalProcessingTime_def TotalProcessingTime_def split: option.splits)

lemma drifted_identity:
  assumes "IsScalingGroupDrifted (upd_ru (SetTotalNodes n) r) = Some (drift, r')"
  shows "identity r' = identity r"
  using assms by (auto simp: IsScalingGroupDrifted_def Let_def Option.bind_eq_Some_conv SetProgress_def SetTotalNodes_def
      SetNodesProcessed_def SetCompletePercentage_def SetTotalNodesMetric_def SetNodesProcessedMetric_def split: if_splits)

lemma RotateNodes_identity:
  assumes "RotateNodes e sched choice r = Some (err, r')"
  shows "identity r' = identity r"
proof -
  obtain derr r4 where d: "discovered e r = (derr, r4)" by fastforce
  have r4: "identity r4 = identity r" using discovered_identity [of e r] by (simp add: d)
  from assms d show ?thesis
  proof (cases rule: RotateNodes_cases)
    case failed
    then show ?thesis using discovery_failed_identity r4 by metis
  next
    case missing
    then show ?thesis using r4 by simp
  next
    case (complete r6)
    then show ?thesis using complete_rotation_identity drifted_identity r4 by metis
  next
    case (batch r6 failed ts r7 ok err0)
    have "identity r' = identity r7" using ReplaceNodeBatch_keeps [OF batch(5)] outline_fields(2,3) by metis
    moreover have "ctx_RollingUpgrade r7 = ctx_RollingUpgrade r6"
      using rotation_targets_ok [OF batch(4)] ctx_fields_of_more(2) by blast
    ultimately show ?thesis using drifted_identity [OF batch(3)] r4 by simp
  qed
qed

lemma rotate_keeps:
  assumes "rotate e sched choice c = Some (res, c')"
  shows "identity c' = identity c" and "pool_inv c \<Longrightarrow> pool_inv c'"
proof -
  obtain err c1 where run: "RotateNodes e sched choice c = Some (err, c1)"
    using assms by (auto simp: rotate_def Option.bind_eq_Some_conv)
  have c1: "identity c1 = identity c" "pool_inv c \<Longrightarrow> pool_inv c1"
    using RotateNodes_identity [OF run] RotateNodes_pool [OF run] by blast+
  have "identity c' = identity c \<and> (pool_inv c \<longrightarrow> pool_inv c')"
  proof (cases err)
    case None
    then show ?thesis using assms run c1 by (auto simp: rotate_def)
  next
    case (Some er)
    let ?c2 = "upd_ru (relabel StatusError) c1"
    let ?c3 = "SetMetricRollupFailed (meta_Name (ctx_RollingUpgrade ?c2)) ?c2"
    obtain x where "CordonUncordonAllNodes e False ?c3 = Some (x, c')"
      using assms run Some by (auto simp: rotate_def Let_def Option.bind_eq_Some_conv)
    from CordonUncordonAllNodes_calm [OF this] have "identity c' = identity ?c3" "ctx_DrainManager c' = ctx_DrainManager ?c3"
      by (simp_all add: calm_def)
    moreover have "identity ?c3 = identity c1" "ctx_DrainManager ?c3 = ctx_DrainManager c1"
      by (simp_all add: relabel_def SetLabel_def SetCurrentStatus_def)
    ultimately show ?thesis using c1 pool_inv_cong [of c' c1] by simp
  qed
  then show "identity c' = identity c" and "pool_inv c \<Longrightarrow> pool_inv c'" by blast+
qed

section \<open>How a reconcile goes\<close>

text \<open>The resource once it has a status, and the controller once it holds the reconcile lock.\<close>

abbreviation ready_ru :: "RollingUpgrade \<Rightarrow> reconciler \<Rightarrow> RollingUpgrade" where
  "ready_ru ru r \<equiv> fst (init_status ru r)"

definition locked :: "RollingUpgrade \<Rightarrow> reconciler \<Rightarrow> reconciler" where
  "locked ru r = (snd (init_status ru r))\<lparr>rec_ReconcileMap :=
     snd (snd (sm_LoadOrStore (NamespacedName ru) (ScalingGroupName ru) (rec_ReconcileMap r)))\<rparr>"

lemma locked_frame [simp]:
  "rec_AdmissionMap (locked ru r) = rec_AdmissionMap r" "rec_maxParallel (locked ru r) = rec_maxParallel r"
  "rec_DrainMapper (locked ru r) = rec_DrainMapper r" "hist (locked ru r) = hist r"
  "rec_ReconcileMap (locked ru r) = snd (snd (sm_LoadOrStore (NamespacedName ru) (ScalingGroupName ru) (rec_ReconcileMap r)))"
  by (simp_all add: locked_def)

lemma sm_present: "fst (snd (sm_LoadOrStore k v m)) \<longleftrightarrow> sm_Load m k \<noteq> None"
  by (simp add: sm_LoadOrStore_def split: option.splits)

lemma reconcile_upgrade_eq:
  "reconcile_upgrade e sched choice ru r =
     (let (err, r2) = restore_admissions e (locked ru r)
      in if sm_Load (rec_ReconcileMap r) (NamespacedName ru) \<noteq> None then Some ((requeue, None), ready_ru ru r, locked ru r)
         else if err \<noteq> None then Some ((no_requeue, err), ready_ru ru r, r2)
         else if must_wait (ready_ru ru r) r2 then Some ((requeue, None), ready_ru ru r, r2)
         else process_upgrade e sched choice (ready_ru ru r) r2)"
  unfolding sm_present [of "NamespacedName ru" "ScalingGroupName ru" "rec_ReconcileMap r", symmetric]
  by (simp add: reconcile_upgrade_def locked_def Let_def case_prod_beta)

lemma reconcile_upgrade_cases:
  assumes "reconcile_upgrade e sched choice ru r = Some (res, ru', r')"
  obtains
    (contended) "sm_Load (rec_ReconcileMap r) (NamespacedName ru) \<noteq> None" "res = (requeue, None)"
      "ru' = ready_ru ru r" "r' = locked ru r"
  | (unlisted) er where "sm_Load (rec_ReconcileMap r) (NamespacedName ru) = None"
      "restore_admissions e (locked ru r) = (Some er, r')" "res = (no_requeue, Some er)" "ru' = ready_ru ru r"
  | (waiting) "sm_Load (rec_ReconcileMap r) (NamespacedName ru) = None"
      "restore_admissions e (locked ru r) = (None, r')" "must_wait (ready_ru ru r) r'" "res = (requeue, None)" "ru' = ready_ru ru r"
  | (processed) r2 where "sm_Load (rec_ReconcileMap r) (NamespacedName ru) = None"
      "restore_admissions e (locked ru r) = (None, r2)" "\<not> must_wait (ready_ru ru r) r2"
      "process_upgrade e sched choice (ready_ru ru r) r2 = Some (res, ru', r')"
proof (cases "sm_Load (rec_ReconcileMap r) (NamespacedName ru)")
  case (Some v)
  then have "res = (requeue, None)" "ru' = ready_ru ru r" "r' = locked ru r"
    using assms by (auto simp: reconcile_upgrade_eq case_prod_beta Let_def)
  with Some show ?thesis by (intro contended) simp_all
next
  case free: None
  obtain err r2 where l: "restore_admissions e (locked ru r) = (err, r2)" by fastforce
  show ?thesis
  proof (cases err)
    case (Some er)
    then have "res = (no_requeue, Some er)" "ru' = ready_ru ru r" "r' = r2"
      using assms free l by (auto simp: reconcile_upgrade_eq)
    with Some free l show ?thesis by (intro unlisted) simp_all
  next
    case None
    show ?thesis
    proof (cases "must_wait (ready_ru ru r) r2")
      case True
      then have "res = (requeue, None)" "ru' = ready_ru ru r" "r' = r2"
        using assms free l None by (auto simp: reconcile_upgrade_eq)
      with True free l None show ?thesis by (intro waiting) simp_all
    next
      case False
      then have "process_upgrade e sched choice (ready_ru ru r) r2 = Some (res, ru', r')"
        using assms free l None by (simp add: reconcile_upgrade_eq)
      with False free l None show ?thesis by (intro processed) simp_all
    qed
  qed
qed

text \<open>Processing: the context of the pass, or a failure to list the nodes.\<close>

lemma process_upgrade_cases:
  assumes "process_upgrade e sched choice ru r = Some (res, ru', r')"
  obtains
    (unpopulated) er where "res = (no_requeue, Some er)" "ru' = ru"
      "ensureClusterNodesMapPopulated e ((admit ru r)\<lparr>rec_DrainMapper :=
         snd (snd (sm_LoadOrStore (NamespacedName ru) NewDrainManager (rec_DrainMapper r)))\<rparr>) = (Some er, r')"
  | (rotated) dm r2 c where
      "dm = fst (sm_LoadOrStore (NamespacedName ru) NewDrainManager (rec_DrainMapper r))"
      "ensureClusterNodesMapPopulated e ((admit ru r)\<lparr>rec_DrainMapper :=
         snd (snd (sm_LoadOrStore (NamespacedName ru) NewDrainManager (rec_DrainMapper r)))\<rparr>) = (None, r2)"
      "rotate e sched choice (rollup_ctx ru dm (map snd (fst (getClusterNodes e r2))) (snd (getClusterNodes e r2))) = Some (res, c)"
      "ru' = ctx_RollingUpgrade c"
      "r' = keep_ctx (NamespacedName ru) (map fst (fst (getClusterNodes e r2))) c (snd (getClusterNodes e r2))"
proof -
  obtain err r2 where pop: "ensureClusterNodesMapPopulated e ((admit ru r)\<lparr>rec_DrainMapper :=
      snd (snd (sm_LoadOrStore (NamespacedName ru) NewDrainManager (rec_DrainMapper r)))\<rparr>) = (err, r2)" by fastforce
  have eq: "process_upgrade e sched choice ru r =
     (if err \<noteq> None then Some ((no_requeue, err), ru, r2)
      else do { (res, c) \<leftarrow> rotate e sched choice (rollup_ctx ru
                  (fst (sm_LoadOrStore (NamespacedName ru) NewDrainManager (rec_DrainMapper r)))
                  (map snd (fst (getClusterNodes e r2))) (snd (getClusterNodes e r2)));
                Some (res, ctx_RollingUpgrade c,
                  keep_ctx (NamespacedName ru) (map fst (fst (getClusterNodes e r2))) c (snd (getClusterNodes e r2))) })"
    by (simp add: process_upgrade_def case_prod_beta Let_def pop)
  show ?thesis
  proof (cases err)
    case (Some er)
    then show ?thesis using assms pop by (intro unpopulated) (auto simp: eq)
  next
    case None
    then obtain c where "rotate e sched choice (rollup_ctx ru
          (fst (sm_LoadOrStore (NamespacedName ru) NewDrainManager (rec_DrainMapper r)))
          (map snd (fst (getClusterNodes e r2))) (snd (getClusterNodes e r2))) = Some (res, c)"
        "ru' = ctx_RollingUpgrade c"
        "r' = keep_ctx (NamespacedName ru) (map fst (fst (getClusterNodes e r2))) c (snd (getClusterNodes e r2))"
      using assms by (auto simp: eq Option.bind_eq_Some_conv)
    then show ?thesis using pop None by (intro rotated [OF refl]) simp_all
  qed
qed

section \<open>The admission map\<close>

lemma sm_mem: "map_ok m \<Longrightarrow> (k, v) \<in> set m \<longleftrightarrow> sm_Load m k = Some v"
  by (simp add: map_ok_def sm_Load_def)

lemma group_taken_iff:
  "group_taken ru m \<longleftrightarrow> (\<exists>(k, v) \<in> set m. EqualFold v (ScalingGroupName ru) \<and> \<not> EqualFold k (NamespacedName ru))"
  by (auto simp: group_taken_def sm_Range_any_def list_ex_iff)

lemma sm_Store_set: "map_ok m \<Longrightarrow> set (sm_Store k v m) \<subseteq> insert (k, v) (set m)"
  using sm.ok_store [of m k v] by (auto simp: sm_mem sm.load_store split: if_splits)

abbreviation store_upgrades :: "RollingUpgrade list \<Rightarrow> (string, string) gomap \<Rightarrow> (string, string) gomap" where
  "store_upgrades \<equiv> fold (\<lambda>cr. sm_Store (NamespacedName cr) (ScalingGroupName cr))"

lemma readmit_filter:
  "readmit items m = store_upgrades (filter (\<lambda>cr. CurrentStatus cr = StatusRunning) items) m"
  by (induction items arbitrary: m) (simp_all add: readmit_def)

lemma store_all:
  assumes "map_ok m"
  shows "map_ok (store_upgrades crs m) \<and> length (store_upgrades crs m) \<le> length m + length crs \<and>
    set (store_upgrades crs m) \<subseteq> set m \<union> (\<lambda>cr. (NamespacedName cr, ScalingGroupName cr)) ` set crs"
  using assms
proof (induction crs arbitrary: m)
  case (Cons cr crs)
  let ?m = "sm_Store (NamespacedName cr) (ScalingGroupName cr) m"
  have "length ?m \<le> Suc (length m)"
    using sm.size_store_fresh [OF Cons.prems] sm.size_store_present [OF Cons.prems]
    by (cases "sm_Load m (NamespacedName cr)") simp_all
  then show ?case
    using Cons.IH [OF sm.ok_store [OF Cons.prems], of "NamespacedName cr" "ScalingGroupName cr"]
      sm_Store_set [OF Cons.prems, of "NamespacedName cr" "ScalingGroupName cr"] by auto
qed simp

section \<open>Drain managers\<close>

text \<open>The context in which a goroutine of an upgrade moves between the passes.\<close>

definition job_ctx :: "DrainManager \<Rightarrow> nat \<Rightarrow> reconciler \<Rightarrow> ctx" where
  "job_ctx dm i r = rollup_ctx (job_UpgradeObject (dm_jobs dm ! i)) dm [] r"

text \<open>The invariant of the drain manager of an upgrade is that of the pool of its goroutines.\<close>

definition dm_ok :: "DrainManager \<Rightarrow> bool" where
  "dm_ok dm \<longleftrightarrow> dm_DrainGroup dm = int (length (filter (\<lambda>j. job_pc j \<noteq> Finished) (dm_jobs dm))) \<and>
     (\<forall>j \<in> set (dm_jobs dm). resume_ok (job_pc j))"

lemma dm_ok_pool: "dm_ok (ctx_DrainManager c) \<longleftrightarrow> pool_inv c"
  by (simp add: dm_ok_def pool_ok_def active_def sends_ok_def)

lemma drains_stored:
  assumes "\<forall>k d. sm_Load m k = Some d \<longrightarrow> dm_ok d" and "dm_ok dm"
  shows "\<forall>k d. sm_Load (sm_Store name dm m) k = Some d \<longrightarrow> dm_ok d"
  using assms by (simp add: sm.load_store)

lemma NewDrainManager_ok: "dm_ok NewDrainManager"
  by (simp add: dm_ok_def NewDrainManager_def)

lemma drains_loaded:
  assumes "\<forall>k d. sm_Load m k = Some d \<longrightarrow> dm_ok d"
  shows "dm_ok (fst (sm_LoadOrStore name NewDrainManager m))"
    and "\<forall>k d. sm_Load (snd (snd (sm_LoadOrStore name NewDrainManager m))) k = Some d \<longrightarrow> dm_ok d"
  using assms NewDrainManager_ok drains_stored [OF assms NewDrainManager_ok]
  by (auto simp: sm_LoadOrStore_def split: option.splits)

lemma Validate_error: "Validate ru = ((ok, err), ru1) \<Longrightarrow> ok \<longleftrightarrow> err = None"
  by (auto simp: Validate_def Let_def case_prod_beta split: if_splits) metis+

text \<open>How a reconcile returns.\<close>

lemma Reconcile_cases:
  assumes "Reconcile e sched choice req r = Some (res, r')"
  obtains
    (ended) name where "r' = forget name (snd (Get e req r))" "res = (no_requeue, None)"
      "(\<exists>er. fst (Get e req r) = Inl er \<and> IsNotFound er \<and> name = req_String req) \<or>
       (\<exists>ru. fst (Get e req r) = Inr ru \<and> (being_deleted ru \<or> ContainsEqualFold FiniteStates (CurrentStatus ru)) \<and>
          name = NamespacedName ru)"
  | (refused) er where "r' = snd (Get e req r)" "res = (no_requeue, Some er)"
      "fst (Get e req r) = Inl er \<and> \<not> IsNotFound er \<or>
       (\<exists>ru ru1. fst (Get e req r) = Inr ru \<and> \<not> being_deleted ru \<and> \<not> ContainsEqualFold FiniteStates (CurrentStatus ru) \<and>
          Validate ru = ((False, Some er), ru1))"
  | (reconciled) ru ru1 ru2 r2 where "fst (Get e req r) = Inr ru" "\<not> being_deleted ru"
      "\<not> ContainsEqualFold FiniteStates (CurrentStatus ru)" "Validate ru = ((True, None), ru1)"
      "reconcile_upgrade e sched choice ru1 (snd (Get e req r)) = Some (res, ru2, r2)" "r' = Update e ru2 r2"
proof -
  obtain x r1 where g: "Get e req r = (x, r1)" by fastforce
  show ?thesis
  proof (cases x)
    case (Inl er)
    then show ?thesis
      using assms g ended [of "req_String req"] refused [of er] by (auto simp: Reconcile_def split: if_splits)
  next
    case (Inr ru)
    show ?thesis
    proof (cases "being_deleted ru \<or> ContainsEqualFold FiniteStates (CurrentStatus ru)")
      case True
      then show ?thesis using assms g Inr ended [of "NamespacedName ru"] by (auto simp: Reconcile_def split: if_splits)
    next
      case go: False
      obtain ok err ru1 where v: "Validate ru = ((ok, err), ru1)" by (metis prod.exhaust)
      show ?thesis
      proof (cases ok)
        case True
        then have err: "err = None" using Validate_error [OF v] by simp
        obtain ru2 r2 where "reconcile_upgrade e sched choice ru1 r1 = Some (res, ru2, r2)" "r' = Update e ru2 r2"
          using assms g Inr go v True by (auto simp: Reconcile_def Option.bind_eq_Some_conv split: if_splits)
        then show ?thesis using reconciled [of ru ru1 ru2 r2] g Inr go v True err by simp
      next
        case False
        then obtain er where err: "err = Some er" using Validate_error [OF v] by blast
        then have "r' = r1" "res = (no_requeue, Some er)" using assms g Inr go v False by (auto simp: Reconcile_def split: if_splits)
        then show ?thesis using refused [of er] g Inr go v False err by simp
      qed
    qed
  qed
qed

lemma Get_frame: "rec_maxParallel (snd (Get e req r)) = rec_maxParallel r"
  by (simp add: Get_def Let_def)

lemma node_requests_frame:
  assumes "node_requests obj r = (reqs, r')"
  shows "rec_maxParallel r' = rec_maxParallel r" "rec_AdmissionMap r' = rec_AdmissionMap r"
    "rec_ReconcileMap r' = rec_ReconcileMap r" "rec_DrainMapper r' = rec_DrainMapper r" "hist r' = hist r"
  using assms by (auto simp: node_requests_def CreateFunc_def UpdateFunc_def DeleteFunc_def GenericFunc_def Let_def
      split: k8s_object.splits)

lemma job_step_dm_ok:
  assumes "job_step e i (job_ctx dm i r) = Some c" and "dm_ok dm"
  shows "dm_ok (ctx_DrainManager c)"
proof -
  have "pool_inv (job_ctx dm i r)" using assms(2) dm_ok_pool [of "job_ctx dm i r"] by (simp add: job_ctx_def rollup_ctx_def)
  from pool_steps_inv [OF this pool_step.Run [OF assms(1)]] show ?thesis by (simp add: dm_ok_pool)
qed

text \<open>A controller as it is started.\<close>

definition started :: "reconciler \<Rightarrow> bool" where
  "started r \<longleftrightarrow> rec_AdmissionMap r = [] \<and> rec_ReconcileMap r = [] \<and> rec_DrainMapper r = [] \<and> 0 \<le> rec_maxParallel r"

section \<open>A reconcile returns\<close>

text \<open>The scaling groups discovered are kept to the end of a pass.\<close>

abbreviation groups :: "ctx \<Rightarrow> Group list" where
  "groups r \<equiv> cloud_ScalingGroups (ctx_Cloud r)"

lemma receive_cloud: "receive i r = Some (er, r') \<Longrightarrow> ctx_Cloud r' = ctx_Cloud r"
  by (auto simp: receive_def split: if_splits drain_pc.splits)

lemma await_drains_cloud: "ctx_Cloud (snd (await_drains e sched choice spawned batch maps r)) = ctx_Cloud r"
proof -
  have "ctx_Cloud (snd (done_branch e batch m u)) = ctx_Cloud u" for m u
    using done_branch_settles [of u batch e m] by (simp add: settles_def)
  then show ?thesis
    by (cases choice) (auto simp: await_drains_def Let_def receive_cloud split: option.splits)
qed

lemma drain_batch_cloud: "ctx_Cloud (snd (drain_batch e sched choice batch maps r)) = ctx_Cloud r"
  by (simp add: drain_batch_def Let_def case_prod_beta await_drains_cloud)

lemma standby_batch_cloud: "standby_batch e ids maps r = Some (res, r') \<Longrightarrow> ctx_Cloud r' = ctx_Cloud r"
proof -
  have "ctx_Cloud u' = ctx_Cloud u" if run: "SetBatchStandBy e xs u = Some (err, u')" for xs u err u'
  proof -
    obtain bs where "standby_chunks e bs u = (err, u')" using run by (auto simp: SetBatchStandBy_def Option.bind_eq_Some_conv)
    then show ?thesis using ctx_fields_of_more(1) [OF standby_chunks_more, of e bs u] by simp
  qed
  then show "standby_batch e ids maps r = Some (res, r') \<Longrightarrow> ctx_Cloud r' = ctx_Cloud r"
    using ctx_fields_of_more(1) [OF aws_calls_more(1)]
    by (fastforce simp: standby_batch_def Let_def case_prod_beta Option.bind_eq_Some_conv split: if_splits)
qed

lemma prepare_batch_cloud:
  assumes "prepare_batch e batch maps r = Some (res, r')"
  shows "ctx_Cloud r' = ctx_Cloud r"
proof (cases "StrategyMode (ctx_RollingUpgrade r) = UpdateStrategyModeEager \<and> GetInServiceInstanceIDs batch \<noteq> []")
  case True
  let ?s = "step_targets e NodeRotationKickoff batch maps r"
  obtain res' where "standby_batch e (GetInServiceInstanceIDs batch) (fst ?s) (snd ?s) = Some (res', r')"
    using assms True by (auto simp: prepare_batch_def prepare_eager_def Let_def case_prod_beta Option.bind_eq_Some_conv)
  from standby_batch_cloud [OF this] show ?thesis by simp
next
  case False
  then show ?thesis
    using assms ctx_fields_of_more(1) [OF aws_calls_more(1)]
    by (auto simp: prepare_batch_def prepare_eager_def prepare_lazy_def Let_def case_prod_beta split: if_splits)
qed

lemma ReplaceNodeBatch_groups:
  assumes "ReplaceNodeBatch e sched choice batch r = Some (res, r')"
  shows "groups r' = groups r"
proof -
  obtain ok err r1 where c: "(if ctx_EarlyCordonNodes r then CordonUncordonAllNodes e True r
      else Some ((True, None), r)) = Some ((ok, err), r1)"
    using assms by (auto simp: ReplaceNodeBatch_def Let_def Option.bind_eq_Some_conv)
  have c1: "groups r1 = groups r" using c CordonUncordonAllNodes_calm by (auto simp: calm_def split: if_splits)
  show ?thesis
  proof (cases ok)
    case False
    then show ?thesis using assms c c1 by (auto simp: ReplaceNodeBatch_def Let_def)
  next
    case True
    then obtain res2 r2 where prep: "prepare_batch e batch (start_maps r) r1 = Some (res2, r2)"
      using assms c by (auto simp: ReplaceNodeBatch_def Let_def Option.bind_eq_Some_conv)
    have c2: "groups r2 = groups r" using prepare_batch_cloud [OF prep] c1 by simp
    show ?thesis
    proof (cases res2)
      case (Inl ret)
      then have "r' = r2" using assms c True prep by (simp add: ReplaceNodeBatch_def Let_def)
      then show ?thesis using c2 by simp
    next
      case (Inr maps')
      then have "r' = snd (drain_batch e sched choice batch maps' r2)"
        using assms c True prep by (simp add: ReplaceNodeBatch_def Let_def)
      then show ?thesis using c2 by (simp add: drain_batch_cloud)
    qed
  qed
qed

lemma calm_group: "calm r r' \<Longrightarrow> ctx_group r' = ctx_group r"
  by (simp add: calm_def)

lemma RotateNodes_group:
  assumes "RotateNodes e sched choice r = Some (err, r')"
  shows "ctx_group r' = ctx_group (snd (discovered e r))"
proof -
  obtain derr r4 where d: "discovered e r = (derr, r4)" by fastforce
  from assms d have "ctx_group r' = ctx_group r4"
  proof (cases rule: RotateNodes_cases)
    case failed
    from failed(2) show ?thesis
      using calm_group [OF cleanup_calm] by (fastforce simp: discovery_failed_def Let_def ScalingGroupName_def)
  next
    case (complete r6)
    let ?c2 = "SetMetricRollupCompleted (meta_Name (ctx_RollingUpgrade (set_status StatusComplete r6))) (set_status StatusComplete r6)"
    have end': "ctx_Cloud (endTimeUpdate e u) = ctx_Cloud u" for u
      by (simp add: endTimeUpdate_def Let_def case_prod_beta TotalProcessingTime_def split: option.splits)
    have "cleanup_if_early e (endTimeUpdate e ?c2) = Some r'" using complete(4) by (simp add: complete_rotation_def Let_def)
    then have "groups r' = groups r6" using cleanup_calm [of e "endTimeUpdate e ?c2" r'] end' [of ?c2] by (simp add: calm_def)
    then have "ctx_group r' = ctx_group r6"
      using complete_rotation_quiet [OF complete(4)] by (simp add: quiet_def same_job_inputs_def ScalingGroupName_def)
    then show ?thesis using group_of_quiet [OF IsScalingGroupDrifted_pass(2,1) [OF complete(3)]] by simp
  next
    case (batch r6 failed ts r7 ok err0)
    have more: "world.more r7 = world.more r6" using rotation_targets_ok [OF batch(4)] by blast
    have "ctx_group r7 = ctx_group r6" using ctx_fields_of_more(1,2) [OF more] by simp
    moreover have "ru_Spec (ctx_RollingUpgrade r') = ru_Spec (ctx_RollingUpgrade r7)"
      using outline_fields(1) ReplaceNodeBatch_keeps [OF batch(5)] by blast
    then have "ctx_group r' = ctx_group r7"
      using ReplaceNodeBatch_groups [OF batch(5)] by (simp add: ScalingGroupName_def)
    ultimately show ?thesis using group_of_quiet [OF IsScalingGroupDrifted_pass(2,1) [OF batch(3)]] by simp
  qed simp
  then show ?thesis by (simp add: d)
qed

lemma rotate_returns:
  assumes "rotation_ok e c"
  shows "\<exists>x c'. rotate e sched choice c = Some (x, c')"
proof -
  obtain err c1 where run: "RotateNodes e sched choice c = Some (err, c1)" using RotateNodes_total [OF assms] by blast
  let ?c2 = "upd_ru (relabel StatusError) c1"
  let ?c3 = "SetMetricRollupFailed (meta_Name (ctx_RollingUpgrade ?c2)) ?c2"
  have "ctx_group ?c3 = ctx_group c1" by (simp add: ScalingGroupName_def)
  then have "group_wf (ctx_group ?c3)" using RotateNodes_group [OF run] assms by (simp add: rotation_ok_def)
  then obtain y where "CordonUncordonAllNodes e False ?c3 = Some y"
    using CordonUncordonAllNodes_returns assms unfolding rotation_ok_def by blast
  then show ?thesis by (cases y; cases err) (auto simp: rotate_def run Let_def)
qed

text \<open>The passes for an upgrade return, whatever nodes, drains and history they start from.\<close>

definition passes_return :: "env \<Rightarrow> RollingUpgrade \<Rightarrow> reconciler \<Rightarrow> bool" where
  "passes_return e ru r \<longleftrightarrow> (\<forall>c. ru_Spec (ctx_RollingUpgrade c) = ru_Spec ru \<and>
     budget c = (rec_ReplacementNodesMap r, rec_MaxReplacementNodes r) \<longrightarrow> rotation_ok e c)"

lemma restore_budget [simp]:
  "rec_ReplacementNodesMap (snd (restore_admissions e r)) = rec_ReplacementNodesMap r"
  "rec_MaxReplacementNodes (snd (restore_admissions e r)) = rec_MaxReplacementNodes r"
  by (simp_all add: restore_admissions_def Let_def split: sum.splits)

lemma admit_budget [simp]:
  "rec_ReplacementNodesMap (admit ru r) = rec_ReplacementNodesMap r"
  "rec_MaxReplacementNodes (admit ru r) = rec_MaxReplacementNodes r"
  by (simp_all add: admit_def case_prod_beta Let_def)

lemma ensure_budget [simp]:
  "rec_ReplacementNodesMap (snd (ensureClusterNodesMapPopulated e r)) = rec_ReplacementNodesMap r"
  "rec_MaxReplacementNodes (snd (ensureClusterNodesMapPopulated e r)) = rec_MaxReplacementNodes r"
  using rec_fields_of_more [OF ListClusterNodes_rec [of e r]]
  by (auto simp: ensureClusterNodesMapPopulated_def Let_def case_prod_beta split: option.splits)

lemma process_upgrade_returns:
  assumes "passes_return e ru r"
  shows "\<exists>x ru' r'. process_upgrade e sched choice ru r = Some (x, ru', r')"
proof -
  let ?d = "sm_LoadOrStore (NamespacedName ru) NewDrainManager (rec_DrainMapper r)"
  let ?r1 = "(admit ru r)\<lparr>rec_DrainMapper := snd (snd ?d)\<rparr>"
  obtain err r2 where pop: "ensureClusterNodesMapPopulated e ?r1 = (err, r2)" by fastforce
  let ?c = "rollup_ctx ru (fst ?d) (map snd (fst (getClusterNodes e r2))) (snd (getClusterNodes e r2))"
  have "rec_ReplacementNodesMap r2 = rec_ReplacementNodesMap r" "rec_MaxReplacementNodes r2 = rec_MaxReplacementNodes r"
    using ensure_budget [of e ?r1] by (simp_all add: pop)
  then have "rotation_ok e ?c" using assms by (simp add: passes_return_def rollup_ctx_def)
  from rotate_returns [OF this] obtain x c where "rotate e sched choice ?c = Some (x, c)" by blast
  then show ?thesis by (cases err) (auto simp: process_upgrade_def case_prod_beta Let_def pop)
qed

lemma reconcile_upgrade_returns:
  assumes "passes_return e ru r"
  shows "\<exists>x ru' r'. reconcile_upgrade e sched choice ru r = Some (x, ru', r')"
proof -
  obtain err r2 where l: "restore_admissions e (locked ru r) = (err, r2)" by fastforce
  have "rec_ReplacementNodesMap r2 = rec_ReplacementNodesMap r" "rec_MaxReplacementNodes r2 = rec_MaxReplacementNodes r"
    using restore_budget [of e "locked ru r", unfolded l snd_conv] by (simp_all add: locked_def)
  then have "passes_return e (ready_ru ru r) r2" using assms by (simp add: passes_return_def)
  from process_upgrade_returns [OF this] obtain x ru' r' where
    "process_upgrade e sched choice (ready_ru ru r) r2 = Some (x, ru', r')" by blast
  then show ?thesis by (simp add: reconcile_upgrade_eq l)
qed

text \<open>The condition for one request: it is about the resource that the request reads, once validated.\<close>

definition request_ok :: "env \<Rightarrow> Request \<Rightarrow> reconciler \<Rightarrow> bool" where
  "request_ok e req r \<longleftrightarrow> (\<forall>ru. env_GetRollingUpgrade e (hist r) (req_String req) = Inr ru \<longrightarrow>
     passes_return e (snd (Validate ru)) r)"

lemma Reconcile_total:
  assumes "request_ok e req r"
  shows "\<exists>res r'. Reconcile e sched choice req r = Some (res, r')"
proof -
  obtain x r1 where g: "Get e req r = (x, r1)" by fastforce
  have r1: "rec_ReplacementNodesMap r1 = rec_ReplacementNodesMap r" "rec_MaxReplacementNodes r1 = rec_MaxReplacementNodes r"
    using g by (auto simp: Get_def Let_def)
  show ?thesis
  proof (cases x)
    case (Inl er)
    then show ?thesis by (simp add: Reconcile_def g)
  next
    case (Inr ru)
    obtain ok err ru1 where v: "Validate ru = ((ok, err), ru1)" by (metis prod.exhaust)
    have "env_GetRollingUpgrade e (hist r) (req_String req) = Inr ru" using g Inr by (simp add: Get_def Let_def)
    then have "passes_return e ru1 r1" using assms r1 v by (simp add: request_ok_def passes_return_def)
    from reconcile_upgrade_returns [OF this] obtain y ru2 r2 where
      "reconcile_upgrade e sched choice ru1 r1 = Some (y, ru2, r2)" by blast
    then show ?thesis by (cases y) (simp add: Reconcile_def g Inr v)
  qed
qed

end
