(* ===== verification/Rotation_Progress.thy ===== *)
theory Rotation_Progress
  imports Node_Rotation
begin

text \<open>
  A pass of \<open>RotateNodes\<close> in lazy mode makes progress: if the group has a drifted instance, the calls
  to the cloud and the cluster succeed and the goroutines get to run, an instance is terminated.
\<close>

section \<open>What the batch is started with\<close>

text \<open>The settings a batch depends on are those of the context the pass was started with.\<close>

definition batch_settings :: "ctx \<Rightarrow> bool \<times> time option \<times> time option" where
  "batch_settings r = (ctx_EarlyCordonNodes r, LastNodeTerminationTime (ctx_RollingUpgrade r),
     LastNodeDrainTime (ctx_RollingUpgrade r))"

lemma begin_rotation_settings: "batch_settings (begin_rotation e r) = batch_settings r"
  by (simp add: batch_settings_def begin_rotation_def set_status_def SetLabel_def SetCurrentStatus_def SetStartTime_def
      LastNodeTerminationTime_def LastNodeDrainTime_def Let_def case_prod_beta)

lemma discovered_settings: "batch_settings (snd (discovered e r)) = batch_settings r"
proof -
  let ?r1 = "snd (DescribeTaggedInstanceIDs e instanceStateTagKey failedDrainTagValue r)"
  have "batch_settings ?r1 = batch_settings r"
    using ctx_fields_of_more(2,9) [OF aws_calls_more(5), of e instanceStateTagKey failedDrainTagValue r]
    by (simp add: batch_settings_def)
  then show ?thesis using begin_rotation_settings [of e ?r1] by (simp add: batch_settings_def discovered_eq Let_def)
qed

lemma drift_settings:
  assumes "IsScalingGroupDrifted (upd_ru (SetTotalNodes n) r) = Some (drift, r')"
  shows "batch_settings r' = batch_settings r"
  using assms by (auto simp: IsScalingGroupDrifted_def Let_def Option.bind_eq_Some_conv SetProgress_def SetTotalNodes_def
      SetNodesProcessed_def SetCompletePercentage_def SetTotalNodesMetric_def SetNodesProcessedMetric_def batch_settings_def
      LastNodeTerminationTime_def LastNodeDrainTime_def split: if_splits)

section \<open>A batch is selected\<close>

text \<open>The instance is listed by EC2 when the pass asks for the instances not in progress, as long as it has
  terminated nothing.\<close>

definition listed :: "env \<Rightarrow> ctx \<Rightarrow> string \<Rightarrow> bool" where
  "listed e r i \<longleftrightarrow> (\<forall>w :: ctx. emits not_termination r w \<longrightarrow> (\<exists>ids w'. DescribeInstancesWithoutTagValue e instanceStateTagKey inProgressTagValue w =
     Some ((ids, None), w') \<and> i \<in> set ids))"

lemma rotation_targets_nonempty:
  assumes "group_complete (ctx_group r)" and "listed e r (inst_id t)"
    and "UpdateStrategyType (ctx_RollingUpgrade r) \<in> {RandomUpdateStrategy, UniformAcrossAzUpdateStrategy}"
    and "percent_nonneg e" and "size_ok (MaxUnavailable (ctx_RollingUpgrade r))" and "group_wf g"
    and "SelectScalingGroupInstance (inst_id t) g = t" and "t \<noteq> empty_Instance" and "IsInstanceDrifted r t = Some True"
    and "rotation_targets e g failed r = Some (ts, r')"
  shows "ts \<noteq> []"
proof -
  have one: "\<exists>us u'. SelectTargets e g ex u = Some (us, u') \<and> us \<noteq> []"
    if "world.more u = world.more r" "\<not> ContainsEqualFold ex (inst_id t)" "emits not_termination r u" for u ex
  proof -
    note fields = ctx_fields_of_more [OF that(1)] and calm = emits_trans [OF that(3) untag_orphans_emits]
    have gc: "group_complete (ctx_group u)" using assms(1) fields by simp
    obtain ids u2 where d: "DescribeInstancesWithoutTagValue e instanceStateTagKey inProgressTagValue (untag_orphans e g u) =
        Some ((ids, None), u2)" "inst_id t \<in> set ids"
      using assms(2) calm unfolding listed_def by blast
    have "1 \<le> CalculateMaxUnavailable e (MaxUnavailable (ctx_RollingUpgrade u)) (Int64Value (group_DesiredCapacity g))"
      using CalculateMaxUnavailable_bounds [OF assms(4,5)] assms(6) fields by (simp add: group_wf_def)
    moreover have "candidate u g ex t"
      using SelectScalingGroupInstance_mem [of "inst_id t" g] assms(7,8,9) that(2) drift_frame(1) [OF that(1)]
      by (simp add: candidate_def drifted_def IsInstanceDrifted_eq [OF assms(1)])
    ultimately show ?thesis
      using SelectTargets_random_nonempty [OF gc d(1) _ _ d(2)] assms(3,7,8) fields by simp
  qed
  show ?thesis
  proof (cases "ContainsEqualFold failed (inst_id t)")
    case False
    then obtain us u where "SelectTargets e g failed r = Some (us, u)" "us \<noteq> []" using one [OF refl] emits_refl by blast
    then show ?thesis using assms(10) by (simp add: rotation_targets_def)
  next
    case True
    then have ne: "failed \<noteq> []" by auto
    obtain us u where first: "SelectTargets e g failed r = Some (us, u)"
      using assms(10) by (auto simp: rotation_targets_def Option.bind_eq_Some_conv)
    have "world.more u = world.more r" "emits not_termination r u"
      using SelectTargets_result [OF first] SelectTargets_quiet [OF first] by blast+
    from one [OF this(1) _ this(2), of "[]"] show ?thesis
      using assms(10) first ne by (auto simp: rotation_targets_def split: if_splits)
  qed
qed

section \<open>Progress\<close>

text \<open>
  The conditions on the calls: what the pass asks of the cloud and the cluster succeeds, no wait of an
  earlier batch is left, and no goroutine of an earlier pass is running.
\<close>

definition pass_ready :: "env \<Rightarrow> ctx \<Rightarrow> bool" where
  "pass_ready e r \<longleftrightarrow> calls_succeed e \<and> termination_succeeds e \<and> (\<forall>h ids k v. env_CreateTags e h ids k v = None) \<and>
     wait_over e (ctx_RollingUpgrade r) \<and> pool_ok r \<and> dm_DrainGroup (ctx_DrainManager r) = 0 \<and>
     StrategyMode (ctx_RollingUpgrade r) = UpdateStrategyModeLazy \<and> \<not> ctx_EarlyCordonNodes r \<and>
     UpdateStrategyType (ctx_RollingUpgrade r) \<in> {RandomUpdateStrategy, UniformAcrossAzUpdateStrategy}"

lemma pass_ready_batch:
  assumes "pass_ready e r" and "quiet r r'" and "batch_settings r' = batch_settings r"
  shows "batch_ready e batch r'" and "pool_ok r'" and "dm_DrainGroup (ctx_DrainManager r') = 0"
proof -
  have spec: "ru_Spec (ctx_RollingUpgrade r') = ru_Spec (ctx_RollingUpgrade r)"
    "ctx_DrainManager r' = ctx_DrainManager r" using assms(2) by (simp_all add: quiet_def same_job_inputs_def)
  have "wait_over e (ctx_RollingUpgrade r')"
    using assms(1,3) spec by (simp add: pass_ready_def wait_over_def batch_settings_def NodeIntervalSeconds_def PostDrainDelaySeconds_def)
  then show "batch_ready e batch r'"
    using assms(1,3) spec(1) by (simp add: batch_ready_def pass_ready_def batch_settings_def StrategyMode_def)
  show "pool_ok r'" "dm_DrainGroup (ctx_DrainManager r') = 0"
    using assms(1) unfolding pass_ready_def pool_ok_def active_def spec(2) by blast+
qed

text \<open>A pass in lazy mode that finds a drifted instance of its group terminates an instance that is drifted
  or in progress and returns without an error, provided that the instances have nodes, the calls succeed,
  no wait or drain of an earlier pass is outstanding and the goroutines get to run.\<close>

lemma rotation_progress:
  assumes "rotation_ok e r" and "pass_ready e r" and "discovered e r = (None, r4)"
    and "t \<in> set (group_Instances (ctx_group r4))" and "SelectScalingGroupInstance (inst_id t) (ctx_group r4) = t"
    and "t \<noteq> empty_Instance" and "IsInstanceDrifted r4 t = Some True" and "listed e r (inst_id t)"
    and "\<forall>u \<in> set (group_Instances (ctx_group r4)). SelectNodeByInstanceID (inst_id u) (ctx_nodes r) \<noteq> None"
    and "\<forall>i < length (jobs r) + nat (max 1 (Int64Value (group_DesiredCapacity (ctx_group r4)))). 5 \<le> count_list sched i"
  shows "\<exists>r' u. RotateNodes e sched DoneCase r = Some (None, r') \<and> rotates r4 (ctx_group r4) u \<and>
    EvTerminateInstance (inst_id u) None \<in> set (new_events r r')"
proof -
  define g where "g = ctx_group r4"
  obtain err r' where run: "RotateNodes e sched DoneCase r = Some (err, r')" using RotateNodes_total [OF assms(1)] by blast
  have ok: "percent_nonneg e" "tags_complete e" "size_ok (MaxUnavailable (ctx_RollingUpgrade r))" "group_wf g"
    using assms(1,3) by (simp_all add: rotation_ok_def g_def)
  have q4: "quiet r r4" using discovered_quiet(1) [of r e] by (simp add: assms(3))
  have s4: "batch_settings r4 = batch_settings r" using discovered_settings [of e r] by (simp add: assms(3))
  have ng: "g \<noteq> empty_Group" using assms(4) by (auto simp: g_def empty_Group_def)
  from run assms(3) show ?thesis
  proof (cases rule: RotateNodes_cases)
    case failed
    then show ?thesis by simp
  next
    case missing
    then show ?thesis using ng g_def by simp
  next
    case (complete r6)
    then show ?thesis using IsScalingGroupDrifted_pass(5) [OF complete(3)] assms(4,7) by auto
  next
    case (batch r6 failed ts r7 ok' err0)
    note pass = IsScalingGroupDrifted_pass [OF batch(3)] and sel = rotation_targets_ok [OF batch(4)]
    have g6: "ctx_group r6 = g" using group_of_quiet [OF pass(2,1)] by (simp add: g_def)
    have q6: "quiet r r6" by (rule quiet_trans [OF q4 pass(1)])
    then have spec6: "ru_Spec (ctx_RollingUpgrade r6) = ru_Spec (ctx_RollingUpgrade r)" by (simp add: quiet_def same_job_inputs_def)
    have more: "world.more r7 = world.more r6" and em: "emits not_termination r6 r7" using sel by blast+
    have q7: "quiet r r7" by (rule quiet_trans [OF q6 quiet_call [OF more em]])
    have s7: "batch_settings r7 = batch_settings r"
      using drift_settings [OF batch(3)] s4 ctx_fields_of_more(2,9) [OF more] by (simp add: batch_settings_def)
    note ready = pass_ready_batch [OF assms(2) q7 s7]
    have "emits not_termination r r6" using q6 by (simp add: quiet_def)
    then have listed: "listed e r6 (inst_id t)" using assms(8) emits_trans unfolding listed_def by blast
    have "ts \<noteq> []"
    proof (rule rotation_targets_nonempty [OF _ listed _ ok(1) _ ok(4) _ assms(6) _])
      show "group_complete (ctx_group r6)" using g6 ok(4) by (simp add: group_wf_def)
      show "UpdateStrategyType (ctx_RollingUpgrade r6) \<in> {RandomUpdateStrategy, UniformAcrossAzUpdateStrategy}"
        using assms(2) spec6 by (simp add: pass_ready_def UpdateStrategyType_def)
      show "size_ok (MaxUnavailable (ctx_RollingUpgrade r6))" using ok(3) spec6 by (simp add: MaxUnavailable_def)
      show "SelectScalingGroupInstance (inst_id t) g = t" using assms(5) by (simp add: g_def)
      show "IsInstanceDrifted r6 t = Some True" using pass(4) assms(7) by simp
      show "rotation_targets e g failed r6 = Some (ts, r7)" using batch(4) by (simp add: g_def)
    qed
    then obtain u where u: "u \<in> set ts" by (cases ts) auto
    have len: "int (length ts) \<le> max 1 (Int64Value (group_DesiredCapacity g))"
    proof -
      have "\<exists>us v. rotation_targets e g failed r6 = Some (us, v) \<and> int (length us) \<le> max 1 (Int64Value (group_DesiredCapacity g))"
        using rotation_targets_returns [OF ok(2,1) _ ok(4)] ok(3,4) g6 spec6 by (simp add: MaxUnavailable_def group_wf_def)
      then show ?thesis using batch(4) by (auto simp: g_def)
    qed
    have "jobs r7 = jobs r" using q7 by (simp add: quiet_def same_job_inputs_def)
    then have sched: "\<forall>i < length (jobs r7) + length ts. 5 \<le> count_list sched i"
      using assms(10) len by (simp add: g_def)
    have rot: "rotates r4 g u"
      using sel u pass(2,4) by (auto simp: rotates_def in_progress_targets_def resumable_def g_def)
    then have "SelectNodeByInstanceID (inst_id u) (ctx_nodes r) \<noteq> None" using assms(9) by (simp add: rotates_def g_def)
    moreover have "list_all2 (same_object False) (ctx_nodes r) (ctx_nodes r7)" using q7 by (simp add: quiet_def same_job_inputs_def)
    ultimately have node: "SelectNodeByInstanceID (inst_id u) (ctx_nodes r7) \<noteq> None"
      using select_same_object by (metis option.rel_distinct(2) option.exhaust)
    have "calls_succeed e" using assms(2) by (simp add: pass_ready_def)
    from ready_batch_done [OF ready(1) ready_batch_zero [OF this ready(2,3) sched]] obtain r'' where
      done': "ReplaceNodeBatch e sched DoneCase ts r7 = Some ((True, None), r'')"
        "EvTerminateInstance (inst_id u) None \<in> set (new_events r7 r'')" using u node by blast
    then have res: "err = None" "r'' = r'" using batch(5,6) by simp_all
    have "extends r r7" using q7 emits_extends by (auto simp: quiet_def)
    moreover have "extends r7 r'" using batch_terminations [OF batch(5) ready(2,3)] by (auto simp: extends_def)
    ultimately have "EvTerminateInstance (inst_id u) None \<in> set (new_events r r')"
      using new_events_mono done'(2) res by blast
    then show ?thesis using run res rot by (auto simp: g_def)
  qed
qed

section \<open>Examples\<close>

lemma rotation_env_calls:
  "calls_succeed rotation_env" "termination_succeeds rotation_env" "env_CreateTags rotation_env h ids k v = None"
  "listed rotation_env r ''i1''"
  by (simp_all add: calls_succeed_def termination_succeeds_def listed_def rotation_env_def sample_api_env_def sample_cloud_env_def
      sample_env_def DescribeInstancesWithoutTagValue_def Let_def)

lemma rotation_env_ready:
  assumes "ru_Spec (ctx_RollingUpgrade c) = ru_Spec (ctx_RollingUpgrade sample_ctx)"
    and "batch_settings c = (False, None, None)" and "ctx_DrainManager c = NewDrainManager"
  shows "pass_ready rotation_env c"
  using assms rotation_env_calls
  by (simp add: pass_ready_def batch_settings_def wait_over_def still_waiting_def pool_ok_def active_def NewDrainManager_def
      StrategyMode_def UpdateStrategyType_def sample_ctx_def sample_RollingUpgrade_def complete_strategy_def)

lemma sample_nodes:
  "\<forall>u \<in> set (group_Instances sample_group). SelectNodeByInstanceID (inst_id u) [sample_node ''n1'' ''i1'', sample_node ''n2'' ''i2''] \<noteq> None"
  "\<forall>u \<in> set (group_Instances sample_group). SelectNodeByInstanceID (inst_id u) [sample_node ''n2'' ''i2'', sample_node ''n1'' ''i1''] \<noteq> None"
  by (simp_all add: sample_group_def sample_instance_def sample_node_def GetNodeInstanceID_def EqualFold_def fold_char_def)

lemma sample_old_instance:
  "sample_instance ''i1'' ''a'' ''old'' \<in> set (group_Instances sample_group)"
  "SelectScalingGroupInstance (inst_id (sample_instance ''i1'' ''a'' ''old'')) sample_group = sample_instance ''i1'' ''a'' ''old''"
  "sample_instance ''i1'' ''a'' ''old'' \<noteq> empty_Instance" "inst_id (sample_instance ''i1'' ''a'' ''old'') = ''i1''"
  using sample_candidate(2) by (simp_all add: sample_group_def sample_instance_def empty_Instance_def)

lemma sample_schedule: "\<forall>i < nat (max 1 (Int64Value (group_DesiredCapacity sample_group))). 5 \<le> count_list [0, 0, 0, 0, 0, 1, 1, 1, 1, 1] i"
proof (intro allI impI)
  fix i assume "i < nat (max 1 (Int64Value (group_DesiredCapacity sample_group)))"
  then have "i = 0 \<or> i = 1" by (auto simp: sample_group_def)
  then show "5 \<le> count_list [0, 0, 0, 0, 0, 1, 1, 1, 1, 1] i" by auto
qed

section \<open>Properties\<close>

text \<open>C3: a pass with no drain of an earlier pass outstanding terminates only instances of the discovered
  group that are in progress or drifted, not those that are terminating already, and that have a
  node, after the node was cordoned and drained successfully with the effective timeout; and nothing
  is terminated before the last drain. The exception: where drain failures are ignored, the cordon or
  the drain after it was tried and may have failed.\<close>

theorem RotateNodes_safe:
  assumes "RotateNodes e sched choice r = Some (err, r')" and "discovered e r = (derr, r4)"
    and "pool_ok r" and "dm_DrainGroup (ctx_DrainManager r) = 0"
  shows "\<exists>pre post. hist r' = hist r @ pre @ post \<and> list_all not_termination pre \<and>
    (\<forall>i er. EvTerminateInstance i er \<in> set post \<longrightarrow>
       (\<exists>t n. inst_id t = i \<and> rotates r4 (ctx_group r4) t \<and> SelectNodeByInstanceID i (ctx_nodes r) = Some n \<and>
          drain_tried (job_IgnoreDrainFailures (drain_job_of r t n)) (node_Name n)
            (wrap64 (job_DrainTimeout (drain_job_of r t n) * Second)) pre))"
  by (rule rotation_terminations [OF assms])

text \<open>A pass over the sample group terminates an instance, after its node was cordoned and drained.\<close>

lemma sample_rotation:
  "\<exists>r' u. RotateNodes rotation_env [0, 0, 0, 0, 0, 1, 1, 1, 1, 1] DoneCase sample_ctx = Some (None, r') \<and>
     EvTerminateInstance (inst_id u) None \<in> set (new_events sample_ctx r')"
proof -
  let ?t = "sample_instance ''i1'' ''a'' ''old''"
  obtain derr r4 where d0: "discovered rotation_env sample_ctx = (derr, r4)" by fastforce
  have asg: "ScalingGroupName (ctx_RollingUpgrade sample_ctx) = ''asg''" by (simp add: sample_defs ScalingGroupName_def)
  have d: "discovered rotation_env sample_ctx = (None, r4)" and g: "ctx_group r4 = sample_group"
    using rotation_env_discovers [OF asg] by (simp_all add: d0)
  have ready: "pass_ready rotation_env sample_ctx"
    by (rule rotation_env_ready) (simp_all add: batch_settings_def sample_defs LastNodeTerminationTime_def LastNodeDrainTime_def)
  have "group_complete (ctx_group r4)" by (simp add: g group_complete_def sample_group_def)
  moreover have "ru_Spec (ctx_RollingUpgrade r4) = ru_Spec (ctx_RollingUpgrade sample_ctx)"
    using discovered_quiet(1) [of sample_ctx rotation_env] by (simp add: d quiet_def same_job_inputs_def)
  then have "\<not> IsForceRefresh (ctx_RollingUpgrade r4)" by (simp add: IsForceRefresh_def sample_defs)
  ultimately have drift: "IsInstanceDrifted r4 ?t = Some True"
    by (simp add: IsInstanceDrifted_eq drifted_def g terminating_def desired_source_def sample_group_def sample_instance_def
        EqualFold_def fold_char_def TerminatingInstanceStates_def)
  have "\<forall>u \<in> set (group_Instances (ctx_group r4)). SelectNodeByInstanceID (inst_id u) (ctx_nodes sample_ctx) \<noteq> None"
    using sample_nodes(1) by (simp add: g sample_ctx_def)
  moreover have "listed rotation_env sample_ctx (inst_id ?t)" using rotation_env_calls(4) sample_old_instance(4) by simp
  moreover have "jobs sample_ctx = []" by (simp add: sample_ctx_def NewDrainManager_def)
  ultimately show ?thesis
    using rotation_progress [OF rotation_env_ok ready d _ _ sample_old_instance(3) drift] sample_old_instance(1,2) sample_schedule g
    by (metis add_0 list.size(3))
qed

theorem RotateNodes_safe_witness:
  "\<exists>r' u name pre post. RotateNodes rotation_env [0, 0, 0, 0, 0, 1, 1, 1, 1, 1] DoneCase sample_ctx = Some (None, r') \<and>
     hist r' = pre @ post \<and> list_all not_termination pre \<and> EvTerminateInstance (inst_id u) None \<in> set post \<and>
     rotates (snd (discovered rotation_env sample_ctx)) sample_group u \<and>
     EvCordon name True None \<in> set pre \<and> EvDrain name (900 * Second) None \<in> set pre"
proof -
  obtain derr r4 where d: "discovered rotation_env sample_ctx = (derr, r4)" by fastforce
  obtain r' u where run: "RotateNodes rotation_env [0, 0, 0, 0, 0, 1, 1, 1, 1, 1] DoneCase sample_ctx = Some (None, r')"
    "EvTerminateInstance (inst_id u) None \<in> set (new_events sample_ctx r')" using sample_rotation by blast
  have asg: "ScalingGroupName (ctx_RollingUpgrade sample_ctx) = ''asg''" by (simp add: sample_defs ScalingGroupName_def)
  have g: "ctx_group r4 = sample_group" using rotation_env_discovers(2) [OF asg] by (simp add: d)
  have pool: "pool_ok sample_ctx" "dm_DrainGroup (ctx_DrainManager sample_ctx) = 0" "hist sample_ctx = []"
    by (simp_all add: sample_ctx_def pool_ok_def active_def NewDrainManager_def)
  from RotateNodes_safe [OF run(1) d pool(1,2)] obtain pre post where p: "hist r' = pre @ post" "list_all not_termination pre"
    "\<And>i er. EvTerminateInstance i er \<in> set post \<Longrightarrow> \<exists>t n. inst_id t = i \<and> rotates r4 sample_group t \<and>
       drain_tried (job_IgnoreDrainFailures (drain_job_of sample_ctx t n)) (node_Name n)
         (wrap64 (job_DrainTimeout (drain_job_of sample_ctx t n) * Second)) pre"
    unfolding g pool(3) append_Nil by blast
  have post: "EvTerminateInstance (inst_id u) None \<in> set post"
    using run(2) p(1,2) by (fastforce simp: new_events_def pool(3) list_all_iff not_termination_def)
  from p(3) [OF this] obtain t n where t: "inst_id t = inst_id u" "rotates r4 sample_group t"
    "drain_tried (job_IgnoreDrainFailures (drain_job_of sample_ctx t n)) (node_Name n)
       (wrap64 (job_DrainTimeout (drain_job_of sample_ctx t n) * Second)) pre" by blast
  have "IsIgnoreDrainFailures (ctx_RollingUpgrade sample_ctx) = None" "DrainTimeout (ctx_RollingUpgrade sample_ctx) = None"
    by (simp_all add: sample_defs IsIgnoreDrainFailures_def DrainTimeout_def)
  then have drained: "EvCordon (node_Name n) True None \<in> set pre" "EvDrain (node_Name n) (900 * Second) None \<in> set pre"
    using t(3) by (simp_all add: drain_tried_def drain_job_of_def sample_ctx_def wrap64_def)
  have "EvTerminateInstance (inst_id t) None \<in> set post" using post t(1) by simp
  with run(1) p(1,2) t(2) drained show ?thesis unfolding d snd_conv by blast
qed

end
