(* ===== verification/Upgrade_Controller.thy ===== *)
theory Upgrade_Controller
  imports Admission Rotation_Progress
begin

text \<open>
  The properties of one reconcile of \<^verbatim>\<open>controllers/rollingupgrade_controller.go\<close>: what its pass may
  terminate, what it writes and that it returns, the nodes a pass works with; and places where
  the code does not do what it means to: the reconcile lock and the watch on nodes. What many
  reconciles at the same time do is in \<open>Concurrent_Reconciles\<close>.
\<close>

section \<open>What a reconcile terminates\<close>

text \<open>The settings of a drain: those of the resource, or else those of the controller.\<close>

definition timeout_of :: "RollingUpgrade \<Rightarrow> reconciler \<Rightarrow> int" where
  "timeout_of ru r = (case DrainTimeout ru of None \<Rightarrow> rec_DrainTimeout r | Some t \<Rightarrow> t)"

definition ignores_of :: "RollingUpgrade \<Rightarrow> reconciler \<Rightarrow> bool" where
  "ignores_of ru r = (case IsIgnoreDrainFailures ru of None \<Rightarrow> rec_IgnoreDrainFailures r | Some b \<Rightarrow> b)"

text \<open>The node of an instance was cordoned and drained, up to failures that are ignored.\<close>

definition drained_node :: "RollingUpgrade \<Rightarrow> reconciler \<Rightarrow> event list \<Rightarrow> string \<Rightarrow> bool" where
  "drained_node ru r evs i \<longleftrightarrow> (\<exists>n. EqualFold i (GetNodeInstanceID (Some n)) \<and>
     drain_tried (ignores_of ru r) (node_Name n) (wrap64 (timeout_of ru r * Second)) evs)"

lemma drained_node_mono: "drained_node ru r evs i \<Longrightarrow> set evs \<subseteq> set evs' \<Longrightarrow> drained_node ru r evs' i"
  unfolding drained_node_def using drain_tried_mono by blast

lemma select_node_id: "SelectNodeByInstanceID i ns = Some n \<Longrightarrow> EqualFold i (GetNodeInstanceID (Some n))"
  by (induction ns) (auto split: if_splits)

text \<open>The events of a part that terminates instances: drains, then terminations of what was drained.\<close>

definition terminates_drained :: "RollingUpgrade \<Rightarrow> reconciler \<Rightarrow> event list \<Rightarrow> event list \<Rightarrow> bool" where
  "terminates_drained ru r h h' \<longleftrightarrow> (\<exists>pre post. h' = h @ pre @ post \<and> list_all not_termination pre \<and>
     (\<forall>i er. EvTerminateInstance i er \<in> set post \<longrightarrow> drained_node ru r pre i))"

lemma terminates_drained_prefix:
  assumes "h = h0 @ evs" and "list_all not_termination evs" and "terminates_drained ru r h h'"
  shows "terminates_drained ru r h0 h'"
proof -
  obtain pre post where p: "h' = h @ pre @ post" "list_all not_termination pre"
    "\<forall>i er. EvTerminateInstance i er \<in> set post \<longrightarrow> drained_node ru r pre i" using assms(3) by (auto simp: terminates_drained_def)
  then show ?thesis
    unfolding terminates_drained_def using assms(1,2) drained_node_mono [of ru r pre _ "evs @ pre"]
    by (intro exI [of _ "evs @ pre"] exI [of _ post]) auto
qed

lemma terminates_drained_suffix:
  assumes "terminates_drained ru r h h'" and "h'' = h' @ evs" and "list_all not_termination evs"
  shows "terminates_drained ru r h h''"
proof -
  obtain pre post where p: "h' = h @ pre @ post" "list_all not_termination pre"
    "\<forall>i er. EvTerminateInstance i er \<in> set post \<longrightarrow> drained_node ru r pre i" using assms(1) by (auto simp: terminates_drained_def)
  have "EvTerminateInstance i er \<notin> set evs" for i er
    using assms(3) by (auto simp: list_all_iff not_termination_def)
  with p assms(2) show ?thesis
    unfolding terminates_drained_def by (intro exI [of _ pre] exI [of _ "post @ evs"]) auto
qed

lemma rotate_terminates_drained:
  assumes "rotate e sched choice (rollup_ctx ru dm nodes r) = Some (res, c)" and "dm_ok dm" and "dm_DrainGroup dm = 0"
  shows "terminates_drained ru r (hist r) (hist c)"
proof -
  let ?c = "rollup_ctx ru dm nodes r"
  obtain err c1 where run: "RotateNodes e sched choice ?c = Some (err, c1)"
    using assms(1) by (auto simp: rotate_def Option.bind_eq_Some_conv)
  obtain derr r4 where d: "discovered e ?c = (derr, r4)" by fastforce
  have "pool_ok ?c" "dm_DrainGroup (ctx_DrainManager ?c) = 0"
    using assms(2,3) dm_ok_pool [of ?c] by (simp_all add: rollup_ctx_def)
  from rotation_terminations [OF run d this] obtain pre post where p: "hist c1 = hist ?c @ pre @ post" "list_all not_termination pre"
    "\<And>i er. EvTerminateInstance i er \<in> set post \<Longrightarrow> \<exists>t n. SelectNodeByInstanceID i (ctx_nodes ?c) = Some n \<and>
       drain_tried (job_IgnoreDrainFailures (drain_job_of ?c t n)) (node_Name n)
         (wrap64 (job_DrainTimeout (drain_job_of ?c t n) * Second)) pre"
    by blast
  have h: "hist ?c = hist r" by (simp add: rollup_ctx_def)
  have js: "job_IgnoreDrainFailures (drain_job_of ?c t n) = ignores_of ru r"
    "job_DrainTimeout (drain_job_of ?c t n) = timeout_of ru r" for t n
    by (simp_all add: drain_job_of_def rollup_ctx_def ignores_of_def timeout_of_def split: option.splits)
  have "drained_node ru r pre i" if "EvTerminateInstance i er \<in> set post" for i er
    using p(3) [OF that] select_node_id unfolding drained_node_def js by blast
  with p have c1: "terminates_drained ru r (hist r) (hist c1)" unfolding terminates_drained_def h by blast
  show ?thesis
  proof (cases err)
    case None
    then show ?thesis using assms(1) run c1 by (simp add: rotate_def)
  next
    case (Some er)
    let ?c2 = "upd_ru (relabel StatusError) c1"
    let ?c3 = "SetMetricRollupFailed (meta_Name (ctx_RollingUpgrade ?c2)) ?c2"
    obtain x where "CordonUncordonAllNodes e False ?c3 = Some (x, c)"
      using assms(1) run Some by (auto simp: rotate_def Let_def Option.bind_eq_Some_conv)
    from CordonUncordonAllNodes_calm [OF this] have "emits not_termination ?c3 c" by (simp add: calm_def)
    then show ?thesis using terminates_drained_suffix [OF c1] by (auto simp: emits_def)
  qed
qed

lemma emits_terminates: "emits not_termination u v \<Longrightarrow> terminates_drained ru r (hist v) h' \<Longrightarrow> terminates_drained ru r (hist u) h'"
  using terminates_drained_prefix by (auto simp: emits_def)

lemma not_termination_calls [simp]:
  "not_termination (EvFlushCache s)" "not_termination EvListRollingUpgrades" "not_termination (EvGetRollingUpgrade n er)"
  "not_termination (EvStatusUpdate ru er)" "not_termination (EvPatchLabel n k v er)" "not_termination (EvListNodes er)"
  by (simp_all add: not_termination_def)

lemma phases_emit:
  "emits not_termination r (admit ru r)" "emits not_termination r (snd (restore_admissions e r))"
  "emits not_termination r (snd (ensureClusterNodesMapPopulated e r))" "emits not_termination r (snd (getClusterNodes e r))"
  "emits not_termination r (Update e ru r)" "emits not_termination r (snd (Get e req r))"
  by (auto simp: admit_def restore_admissions_def ensureClusterNodesMapPopulated_def getClusterNodes_def Update_def Get_def
      ListClusterNodes_def range_keys_def emits_def Let_def case_prod_beta split: option.splits sum.splits)

lemma phases_settings:
  "rec_DrainTimeout (admit ru r) = rec_DrainTimeout r" "rec_IgnoreDrainFailures (admit ru r) = rec_IgnoreDrainFailures r"
  "rec_DrainTimeout (snd (restore_admissions e r)) = rec_DrainTimeout r"
  "rec_IgnoreDrainFailures (snd (restore_admissions e r)) = rec_IgnoreDrainFailures r"
  "rec_DrainTimeout (snd (ensureClusterNodesMapPopulated e r)) = rec_DrainTimeout r"
  "rec_IgnoreDrainFailures (snd (ensureClusterNodesMapPopulated e r)) = rec_IgnoreDrainFailures r"
  "rec_DrainTimeout (snd (Get e req r)) = rec_DrainTimeout r"
  "rec_IgnoreDrainFailures (snd (Get e req r)) = rec_IgnoreDrainFailures r"
  using rec_fields_of_more [OF ListClusterNodes_rec [of e r]]
  by (auto simp: admit_def restore_admissions_def ensureClusterNodesMapPopulated_def Get_def
      Let_def case_prod_beta split: option.splits sum.splits)

lemma terminates_drained_cong:
  assumes "ru_Spec ru' = ru_Spec ru" and "rec_DrainTimeout r' = rec_DrainTimeout r"
    and "rec_IgnoreDrainFailures r' = rec_IgnoreDrainFailures r"
  shows "terminates_drained ru' r' h h' = terminates_drained ru r h h'"
proof -
  have "timeout_of ru' r' = timeout_of ru r" "ignores_of ru' r' = ignores_of ru r"
    using assms by (simp_all add: timeout_of_def ignores_of_def DrainTimeout_def IsIgnoreDrainFailures_def split: option.splits)
  then show ?thesis by (simp add: terminates_drained_def drained_node_def)
qed

text \<open>No goroutine of an earlier pass of the upgrade is running.\<close>

definition idle :: "string \<Rightarrow> reconciler \<Rightarrow> bool" where
  "idle name r \<longleftrightarrow> (\<forall>dm. sm_Load (rec_DrainMapper r) name = Some dm \<longrightarrow> dm_DrainGroup dm = 0)"

section \<open>What a reconcile writes\<close>

lemma RotateNodes_spec:
  assumes "RotateNodes e sched choice r = Some (err, r')"
  shows "ru_Spec (ctx_RollingUpgrade r') = ru_Spec (ctx_RollingUpgrade r)"
proof -
  obtain derr r4 where d: "discovered e r = (derr, r4)" by fastforce
  have q4: "quiet r r4" using discovered_quiet(1) [of r e] by (simp add: d)
  have spec: "quiet u v \<Longrightarrow> ru_Spec (ctx_RollingUpgrade v) = ru_Spec (ctx_RollingUpgrade u)" for u v
    by (simp add: quiet_def same_job_inputs_def)
  from assms d show ?thesis
  proof (cases rule: RotateNodes_cases)
    case failed
    then show ?thesis using spec [OF q4] spec discovery_failed_quiet by metis
  next
    case missing
    then show ?thesis using spec [OF q4] by simp
  next
    case (complete r6)
    then show ?thesis using spec [OF q4] spec complete_rotation_quiet IsScalingGroupDrifted_pass(1) by metis
  next
    case (batch r6 failed ts r7 ok err0)
    have "ru_Spec (ctx_RollingUpgrade r') = ru_Spec (ctx_RollingUpgrade r7)"
      using outline_fields(1) ReplaceNodeBatch_keeps [OF batch(5)] by blast
    moreover have "ctx_RollingUpgrade r7 = ctx_RollingUpgrade r6"
      using rotation_targets_ok [OF batch(4)] ctx_fields_of_more(2) by blast
    ultimately show ?thesis using spec [OF q4] spec [OF IsScalingGroupDrifted_pass(1) [OF batch(3)]] by simp
  qed
qed

text \<open>The status after a pass and the handling of its error.\<close>

lemma rotate_status:
  assumes "rotate e sched choice c = Some ((res, err), c')"
  shows "ru_Spec (ctx_RollingUpgrade c') = ru_Spec (ctx_RollingUpgrade c)"
    and "CurrentStatus (ctx_RollingUpgrade c') \<in> {StatusRunning, StatusComplete, StatusError}"
    and "CurrentStatus (ctx_RollingUpgrade c') = StatusError \<longleftrightarrow> err \<noteq> None"
    and "res = (if err = None then requeue else no_requeue)"
proof -
  obtain err1 c1 where run: "RotateNodes e sched choice c = Some (err1, c1)"
    using assms by (auto simp: rotate_def Option.bind_eq_Some_conv)
  obtain derr r4 where d: "discovered e c = (derr, r4)" by fastforce
  note st = RotateNodes_status_cases [OF run d] and spec = RotateNodes_spec [OF run]
  have "ru_Spec (ctx_RollingUpgrade c') = ru_Spec (ctx_RollingUpgrade c) \<and>
    CurrentStatus (ctx_RollingUpgrade c') \<in> {StatusRunning, StatusComplete, StatusError} \<and>
    (CurrentStatus (ctx_RollingUpgrade c') = StatusError \<longleftrightarrow> err \<noteq> None) \<and>
    res = (if err = None then requeue else no_requeue)"
  proof (cases err1)
    case None
    then have "c' = c1" "err = None" "res = requeue" using assms run by (simp_all add: rotate_def)
    moreover have "derr = None" using st(2) None by (cases derr) auto
    ultimately show ?thesis using st(1) spec by simp
  next
    case (Some er)
    let ?c2 = "upd_ru (relabel StatusError) c1"
    let ?c3 = "SetMetricRollupFailed (meta_Name (ctx_RollingUpgrade ?c2)) ?c2"
    obtain x where u: "CordonUncordonAllNodes e False ?c3 = Some (x, c')" "res = no_requeue" "err = Some er"
      using assms run Some by (auto simp: rotate_def Let_def Option.bind_eq_Some_conv)
    from CordonUncordonAllNodes_calm [OF u(1)] have "ctx_RollingUpgrade c' = relabel StatusError (ctx_RollingUpgrade c1)"
      by (simp add: calm_def)
    then show ?thesis using u(2,3) spec by simp
  qed
  then show "ru_Spec (ctx_RollingUpgrade c') = ru_Spec (ctx_RollingUpgrade c)"
    and "CurrentStatus (ctx_RollingUpgrade c') \<in> {StatusRunning, StatusComplete, StatusError}"
    and "CurrentStatus (ctx_RollingUpgrade c') = StatusError \<longleftrightarrow> err \<noteq> None"
    and "res = (if err = None then requeue else no_requeue)" by blast+
qed

text \<open>The status of a resource that is not processed.\<close>

definition waiting_status :: "RollingUpgrade \<Rightarrow> string" where
  "waiting_status ru = (if CurrentStatus ru = '''' then StatusInit else CurrentStatus ru)"

lemma ready_ru_status: "CurrentStatus (ready_ru ru r) = waiting_status ru"
  by (simp add: init_status_def waiting_status_def)

text \<open>The resource at the end of a reconcile, with the result.\<close>

definition written :: "RollingUpgrade \<Rightarrow> outcome \<Rightarrow> RollingUpgrade \<Rightarrow> bool" where
  "written ru out ru' \<longleftrightarrow> NamespacedName ru' = NamespacedName ru \<and> ru_Spec ru' = ru_Spec ru \<and>
     (CurrentStatus ru' = waiting_status ru \<and> out = (requeue, None) \<or>
      CurrentStatus ru' = waiting_status ru \<and> fst out = no_requeue \<and> snd out \<noteq> None \<or>
      CurrentStatus ru' \<in> {StatusRunning, StatusComplete} \<and> out = (requeue, None) \<or>
      CurrentStatus ru' = StatusError \<and> fst out = no_requeue \<and> snd out \<noteq> None)"

lemma reconcile_upgrade_written:
  assumes "reconcile_upgrade e sched choice ru r = Some (out, ru', r')"
  shows "written ru out ru'"
proof -
  have ready: "NamespacedName (ready_ru ru r) = NamespacedName ru" "ru_Spec (ready_ru ru r) = ru_Spec ru"
    "CurrentStatus (ready_ru ru r) = waiting_status ru" by (simp_all add: ready_ru_status)
  from assms show ?thesis
  proof (cases rule: reconcile_upgrade_cases)
    case contended
    then show ?thesis using ready by (simp add: written_def)
  next
    case (unlisted er)
    then show ?thesis using ready by (simp add: written_def)
  next
    case waiting
    then show ?thesis using ready by (simp add: written_def)
  next
    case (processed r2)
    from processed(4) show ?thesis
    proof (cases rule: process_upgrade_cases)
      case (unpopulated er)
      then show ?thesis using ready by (simp add: written_def)
    next
      case (rotated dm r3 c)
      obtain res err where out: "out = (res, err)" by fastforce
      note run = rotated(3) [unfolded out]
      have "NamespacedName ru' = NamespacedName ru" "ru_Spec ru' = ru_Spec ru"
        using rotate_keeps(1) [OF run] rotate_status(1) [OF run] rotated(4) ready(1,2) by (simp_all add: rollup_ctx_def NamespacedName_def)
      then show ?thesis
        using rotate_status(2,3,4) [OF run] rotated(4) by (auto simp: written_def out)
    qed
  qed
qed

lemma Update_events:
  "\<exists>uerr tail. hist (Update e ru r) = hist r @ EvStatusUpdate ru uerr # tail \<and>
     (if uerr = None then \<exists>perr. tail = [EvPatchLabel (NamespacedName ru) LabelKeyRollingUpgradeCurrentStatus (CurrentStatus ru) perr]
      else tail = [])"
  by (auto simp: Update_def Let_def)

section \<open>A sample controller\<close>

definition sample_reconciler :: reconciler where
  "sample_reconciler = \<lparr>hist = [], registry = sample_metrics, rec_AdmissionMap = [], rec_maxParallel = 1, rec_DrainMapper = [],
     rec_ClusterNodesMap = [(''n1'', sample_node ''n1'' ''i1''), (''n2'', sample_node ''n2'' ''i2'')], rec_ReconcileMap = [],
     rec_DrainTimeout = 900, rec_IgnoreDrainFailures = False, rec_ReplacementNodesMap = [], rec_MaxReplacementNodes = 0,
     rec_EarlyCordonNodes = False\<rparr>"

abbreviation sample_request :: Request where
  "sample_request \<equiv> \<lparr>req_Namespace = ''ns'', req_Name = ''ru''\<rparr>"

lemma sample_started: "started sample_reconciler" "rec_maxParallel sample_reconciler = 1" "hist sample_reconciler = []"
  by (simp_all add: started_def sample_reconciler_def)

lemma rotation_env_api:
  "env_GetRollingUpgrade rotation_env h (req_String sample_request) = Inr sample_RollingUpgrade"
  "env_ListRollingUpgrades rotation_env h = Inr [sample_RollingUpgrade]"
  "env_GetRollingUpgrade rotation_env h n = Inr ru \<Longrightarrow> n = req_String sample_request \<and> ru = sample_RollingUpgrade"
  by (simp_all add: rotation_env_def sample_api_env_def sample_cloud_env_def sample_env_def req_String_def split: if_splits)

lemma sample_validates: "Validate sample_RollingUpgrade = ((True, None), upd_strategy complete_strategy sample_RollingUpgrade)"
  by (rule Validate_accepts) (simp add: sample_RollingUpgrade_def strategy_acceptable_def size_acceptable_def)

lemma sample_unfinished: "\<not> being_deleted sample_RollingUpgrade" "\<not> ContainsEqualFold FiniteStates (CurrentStatus sample_RollingUpgrade)"
  by (simp_all add: being_deleted_def sample_RollingUpgrade_def CurrentStatus_def FiniteStates_def EqualFold_def)

lemma sample_request_ok:
  assumes "rec_ReplacementNodesMap r = []" and "rec_MaxReplacementNodes r = 0"
  shows "request_ok rotation_env req r"
proof -
  have "rotation_ok rotation_env c"
    if "ru_Spec (ctx_RollingUpgrade c) = ru_Spec (upd_strategy complete_strategy sample_RollingUpgrade)" "budget c = ([], 0)" for c
    using that by (intro rotation_env_passes)
      (simp_all add: ScalingGroupName_def MaxUnavailable_def capacity_ok_def replacement_count_def sm_Load_def
        sample_RollingUpgrade_def complete_strategy_def size_ok_def size_acceptable_def)
  then show ?thesis
    unfolding request_ok_def passes_return_def using assms rotation_env_api(3) by (fastforce simp: sample_validates)
qed

section \<open>Properties\<close>

lemma Validate_resource: "Validate ru = ((True, None), ru1) \<Longrightarrow> NamespacedName ru1 = NamespacedName ru \<and> CurrentStatus ru1 = CurrentStatus ru"
proof -
  assume v: "Validate ru = ((True, None), ru1)"
  then have "strategy_acceptable (spec_Strategy (ru_Spec ru))" using Validate_rejects [of ru] by fastforce
  from Validate_accepts [OF this] v show ?thesis by (auto simp: NamespacedName_def CurrentStatus_def)
qed

lemma Get_eq: "fst (Get e req r) = env_GetRollingUpgrade e (hist r) (req_String req)"
  "hist (snd (Get e req r)) = hist r @ [EvGetRollingUpgrade (req_String req)
     (case fst (Get e req r) of Inl er \<Rightarrow> Some er | Inr _ \<Rightarrow> None)]"
  by (simp_all add: Get_def Let_def)

text \<open>The sample controller rotates: its first reconcile terminates an instance.\<close>

abbreviation sample_sched :: "nat list" where
  "sample_sched \<equiv> [0, 0, 0, 0, 0, 1, 1, 1, 1, 1 :: nat]"

lemma sample_pass_terminates:
  assumes "ru_Spec ru = ru_Spec (ctx_RollingUpgrade sample_ctx)" and "LastNodeTerminationTime ru = None"
    and "LastNodeDrainTime ru = None" and "rec_ReplacementNodesMap r = []" and "rec_MaxReplacementNodes r = 0"
    and "\<not> rec_EarlyCordonNodes r" and "nodes = [sample_node ''n2'' ''i2'', sample_node ''n1'' ''i1'']"
  shows "\<exists>c u. RotateNodes rotation_env sample_sched DoneCase (rollup_ctx ru NewDrainManager nodes r) = Some (None, c) \<and>
    extends r c \<and> EvTerminateInstance (inst_id u) None \<in> set (new_events r c)"
proof -
  let ?c = "rollup_ctx ru NewDrainManager nodes r"
  obtain derr r4 where d: "discovered rotation_env ?c = (derr, r4)" by fastforce
  have ru: "ctx_RollingUpgrade ?c = ru" by (simp add: rollup_ctx_def)
  have asg: "ScalingGroupName (ctx_RollingUpgrade ?c) = ''asg''"
    using assms(1) by (simp add: ru sample_defs ScalingGroupName_def)
  have g: "ctx_group r4 = sample_group" "derr = None" using rotation_env_discovers [OF asg] by (simp_all add: d)
  have ok: "rotation_ok rotation_env ?c"
    using assms(1,4,5) by (intro rotation_env_passes [OF asg])
      (simp_all add: rollup_ctx_def MaxUnavailable_def capacity_ok_def replacement_count_def sm_Load_def sample_ctx_def
        sample_RollingUpgrade_def complete_strategy_def size_ok_def size_acceptable_def)
  have ready: "pass_ready rotation_env ?c"
    using assms(1-3,6) by (intro rotation_env_ready) (simp_all add: rollup_ctx_def batch_settings_def)
  have gc: "group_complete (ctx_group r4)" by (simp add: g group_complete_def sample_group_def)
  have "\<not> IsForceRefresh (ctx_RollingUpgrade r4)"
    using discovered_quiet(1) [of ?c rotation_env] assms(1)
    by (simp add: d quiet_def same_job_inputs_def IsForceRefresh_def sample_defs ru)
  then have drift: "IsInstanceDrifted r4 (sample_instance ''i1'' ''a'' ''old'') = Some True"
    unfolding IsInstanceDrifted_eq [OF gc]
    by (simp add: drifted_def g terminating_def desired_source_def sample_group_def sample_instance_def
        EqualFold_def fold_char_def TerminatingInstanceStates_def)
  have nodes: "\<forall>u \<in> set (group_Instances (ctx_group r4)). SelectNodeByInstanceID (inst_id u) (ctx_nodes ?c) \<noteq> None"
    using sample_nodes(2) by (simp add: g rollup_ctx_def assms(7))
  have "listed rotation_env ?c (inst_id (sample_instance ''i1'' ''a'' ''old''))"
    using rotation_env_calls(4) sample_old_instance(4) by simp
  moreover have "jobs ?c = []" by (simp add: rollup_ctx_def NewDrainManager_def)
  ultimately obtain c u where run: "RotateNodes rotation_env sample_sched DoneCase ?c = Some (None, c)"
    "EvTerminateInstance (inst_id u) None \<in> set (new_events ?c c)"
    using rotation_progress [OF ok ready d [unfolded g(2)] _ _ sample_old_instance(3) drift _ nodes]
      sample_old_instance(1,2) sample_schedule g(1) by (metis add_0 list.size(3))
  have "pool_ok ?c" "dm_DrainGroup (ctx_DrainManager ?c) = 0" using ready by (simp_all add: pass_ready_def)
  from rotation_terminations [OF run(1) d this] have "extends ?c c" by (auto simp: extends_def)
  moreover have "hist ?c = hist r" by (simp add: rollup_ctx_def)
  ultimately show ?thesis using run by (auto simp: extends_def new_events_def)
qed

lemma sample_restore:
  assumes "rec_AdmissionMap r = []"
  shows "restore_admissions rotation_env r = (None, (log_event EvListRollingUpgrades r)\<lparr>rec_AdmissionMap := []\<rparr>)"
  using assms by (simp add: restore_admissions_def GetSyncMapLen_def rotation_env_api Let_def readmit_def
      sample_RollingUpgrade_def CurrentStatus_def)

text \<open>A controller like the sample controller: nothing is admitted, locked or drained, and it knows the
  nodes or none.\<close>

definition sample_controller :: "reconciler \<Rightarrow> bool" where
  "sample_controller r \<longleftrightarrow> rec_AdmissionMap r = [] \<and> rec_ReconcileMap r = [] \<and> 1 \<le> rec_maxParallel r \<and> rec_DrainMapper r = [] \<and>
     rec_ReplacementNodesMap r = [] \<and> rec_MaxReplacementNodes r = 0 \<and> \<not> rec_EarlyCordonNodes r \<and>
     (rec_ClusterNodesMap r = [] \<or> rec_ClusterNodesMap r = rec_ClusterNodesMap sample_reconciler)"

lemma sample_sample_controller: "sample_controller sample_reconciler"
  by (simp add: sample_controller_def sample_reconciler_def)

lemma sample_populated:
  assumes "rec_ClusterNodesMap r = [] \<or> rec_ClusterNodesMap r = rec_ClusterNodesMap sample_reconciler"
  obtains r' where "ensureClusterNodesMapPopulated rotation_env r = (None, r')" "extends r r'"
    "rec_ClusterNodesMap r' = rec_ClusterNodesMap sample_reconciler" "rec_ReplacementNodesMap r' = rec_ReplacementNodesMap r"
    "rec_MaxReplacementNodes r' = rec_MaxReplacementNodes r" "rec_EarlyCordonNodes r' = rec_EarlyCordonNodes r"
  using assms
proof
  assume "rec_ClusterNodesMap r = []"
  moreover have "env_NodesList rotation_env h = (Some [sample_node ''n1'' ''i1'', sample_node ''n2'' ''i2''], None)" for h
    by (simp add: rotation_env_def)
  moreover have "node_Name (sample_node n i) = n" for n i by (simp add: sample_node_def)
  moreover have "GetKubernetesClient rotation_env = (Some (), None)"
    by (simp add: GetKubernetesClient_def GetKubernetesConfig_def rotation_env_def sample_api_env_def sample_cloud_env_def sample_env_def)
  ultimately show thesis
    by (intro that [of "snd (ensureClusterNodesMapPopulated rotation_env r)"])
      (simp_all add: ensureClusterNodesMapPopulated_def sm_Range_any_def ListClusterNodes_def sm_Store_def sample_reconciler_def
        log_event_def extends_def)
next
  assume "rec_ClusterNodesMap r = rec_ClusterNodesMap sample_reconciler"
  then show thesis
    by (intro that [of r]) (simp_all add: ensureClusterNodesMapPopulated_def sm_Range_any_def sample_reconciler_def)
qed

lemma sample_cluster:
  assumes "rec_ClusterNodesMap r = rec_ClusterNodesMap sample_reconciler"
  shows "fst (getClusterNodes rotation_env r) = [(''n2'', sample_node ''n2'' ''i2''), (''n1'', sample_node ''n1'' ''i1'')]"
  using assms by (simp_all add: sample_reconciler_def getClusterNodes_def
      range_keys_def rotation_env_def sample_api_env_def sample_cloud_env_def sample_env_def sm_Load_def List.map_filter_simps Let_def)

lemma sample_terminates:
  assumes "sample_controller r0"
  shows "\<exists>res r' u. Reconcile rotation_env sample_sched DoneCase sample_request r0 = Some (res, r') \<and>
     EvTerminateInstance (inst_id u) None \<in> set (new_events r0 r')"
proof -
  have "request_ok rotation_env sample_request r0" using assms by (intro sample_request_ok) (simp_all add: sample_controller_def)
  then obtain res r' where run: "Reconcile rotation_env sample_sched DoneCase sample_request r0 = Some (res, r')"
    using Reconcile_total by blast
  let ?r1 = "snd (Get rotation_env sample_request r0)"
  define ru1 where "ru1 = upd_strategy complete_strategy sample_RollingUpgrade"
  have r1: "rec_AdmissionMap ?r1 = []" "rec_ReconcileMap ?r1 = []" "1 \<le> rec_maxParallel ?r1" "rec_DrainMapper ?r1 = []"
    "rec_ClusterNodesMap ?r1 = rec_ClusterNodesMap r0" "rec_ReplacementNodesMap ?r1 = []"
    "rec_MaxReplacementNodes ?r1 = 0" "\<not> rec_EarlyCordonNodes ?r1"
    using assms by (simp_all add: Get_def Let_def sample_controller_def log_event_def)
  from run obtain ru2 r2 where up: "reconcile_upgrade rotation_env sample_sched DoneCase ru1 ?r1 = Some (res, ru2, r2)"
    "r' = Update rotation_env ru2 r2"
  proof (cases rule: Reconcile_cases)
    case (ended name)
    then show ?thesis using sample_unfinished by (auto simp: Get_eq rotation_env_api)
  next
    case (refused er)
    then show ?thesis using sample_validates by (auto simp: Get_eq rotation_env_api)
  next
    case (reconciled ru ru1' ru2 r2)
    then show ?thesis using that sample_validates by (auto simp: Get_eq rotation_env_api ru1_def)
  qed
  define l where "l = (log_event EvListRollingUpgrades (locked ru1 ?r1))\<lparr>rec_AdmissionMap := []\<rparr>"
  have rest: "restore_admissions rotation_env (locked ru1 ?r1) = (None, l)"
    unfolding l_def by (rule sample_restore) (simp add: r1)
  have nw: "\<not> must_wait (ready_ru ru1 ?r1) l"
    using r1(3) by (simp add: must_wait_def group_taken_def sm_Range_any_def GetSyncMapLen_def l_def)
  have proc: "process_upgrade rotation_env sample_sched DoneCase (ready_ru ru1 ?r1) l = Some (res, ru2, r2)"
    using up(1) by (cases rule: reconcile_upgrade_cases) (use rest nw r1(2) in \<open>simp_all add: sm_Load_def\<close>)
  let ?ru = "ready_ru ru1 ?r1"
  define p where "p = (admit ?ru l)\<lparr>rec_DrainMapper := snd (snd (sm_LoadOrStore (NamespacedName ?ru) NewDrainManager (rec_DrainMapper l)))\<rparr>"
  have p: "rec_ClusterNodesMap p = rec_ClusterNodesMap r0" "rec_ReplacementNodesMap p = []"
    "rec_MaxReplacementNodes p = 0" "\<not> rec_EarlyCordonNodes p" "extends r0 p" "rec_DrainMapper l = []"
    using r1 by (simp_all add: p_def admit_def case_prod_beta Let_def l_def locked_def init_status_def log_event_def extends_def
        Get_def SetMetricRollupInitOrRunning_def)
  obtain p' where pop: "ensureClusterNodesMapPopulated rotation_env p = (None, p')" "extends p p'"
    "rec_ClusterNodesMap p' = rec_ClusterNodesMap sample_reconciler" "rec_ReplacementNodesMap p' = []"
    "rec_MaxReplacementNodes p' = 0" "\<not> rec_EarlyCordonNodes p'"
    using sample_populated [of p] assms p(1-4) unfolding sample_controller_def by metis
  from proc show ?thesis
  proof (cases rule: process_upgrade_cases)
    case (unpopulated er)
    then show ?thesis using pop(1) by (simp add: p_def)
  next
    case (rotated dm r3 c)
    have r3: "r3 = p'" using rotated(2) pop(1) by (simp add: p_def)
    have dm: "dm = NewDrainManager" using rotated(1) p(6) by (simp add: sm_LoadOrStore_def sm_Load_def)
    let ?q = "snd (getClusterNodes rotation_env p')"
    have "ru_Spec ?ru = ru_Spec (ctx_RollingUpgrade sample_ctx)" by (simp add: ru1_def sample_ctx_def)
    moreover have "LastNodeTerminationTime ?ru = None" "LastNodeDrainTime ?ru = None"
      by (simp_all add: init_status_def relabel_def SetLabel_def SetCurrentStatus_def LastNodeTerminationTime_def
          LastNodeDrainTime_def ru1_def sample_RollingUpgrade_def)
    moreover have "rec_ReplacementNodesMap ?q = []" "rec_MaxReplacementNodes ?q = 0" "\<not> rec_EarlyCordonNodes ?q"
      using pop(4-6) by (simp_all add: getClusterNodes_def range_keys_def Let_def log_event_def)
    ultimately obtain c1 u where c1: "RotateNodes rotation_env sample_sched DoneCase (rollup_ctx ?ru NewDrainManager
        (map snd (fst (getClusterNodes rotation_env p'))) ?q) = Some (None, c1)" "extends ?q c1"
        "EvTerminateInstance (inst_id u) None \<in> set (new_events ?q c1)"
      using sample_pass_terminates [of ?ru ?q] sample_cluster [OF pop(3)] by auto
    then have c: "c = c1" using rotated(3) by (simp add: rotate_def r3 dm)
    have ext: "extends r0 ?q" using p(5) pop(2) emits_extends [OF phases_emit(4)] extends_trans by blast
    then have "EvTerminateInstance (inst_id u) None \<in> set (new_events r0 c1)"
      using new_events_mono c1(2,3) by blast
    moreover have "hist r2 = hist c1" using rotated(5) c by simp
    moreover have "extends r2 r'" using up(2) emits_extends [OF phases_emit(5)] by simp
    ultimately have "EvTerminateInstance (inst_id u) None \<in> set (new_events r0 r')"
      using extends_trans [OF ext c1(2)] by (auto simp: new_events_def extends_def)
    then show ?thesis using run by blast
  qed
qed

text \<open>C9: a reconcile returns. For a resource that is gone, being deleted, completed or failed it only drops
  the admission; an invalid one is refused; otherwise it ends by writing the resource back, with name
  and spec unchanged, and releases the lock: the status is init (if it had none) or unchanged when the
  upgrade has to wait, running or completed after a pass without an error, and error if and only if
  the pass failed; without an error it is reconciled again after 30 seconds.\<close>

theorem Reconcile_correct:
  assumes "request_ok e req r"
  shows "\<exists>out r'. Reconcile e sched choice req r = Some (out, r') \<and>
    (case env_GetRollingUpgrade e (hist r) (req_String req) of
       Inl er \<Rightarrow> if IsNotFound er then out = (no_requeue, None) \<and> r' = forget (req_String req) (snd (Get e req r))
                 else out = (no_requeue, Some er) \<and> r' = snd (Get e req r)
     | Inr ru \<Rightarrow>
         if being_deleted ru \<or> ContainsEqualFold FiniteStates (CurrentStatus ru) then
           out = (no_requeue, None) \<and> r' = forget (NamespacedName ru) (snd (Get e req r))
         else if \<not> strategy_acceptable (spec_Strategy (ru_Spec ru)) then
           (\<exists>er. out = (no_requeue, Some er)) \<and> r' = snd (Get e req r)
         else sm_Load (rec_ReconcileMap r') (NamespacedName ru) = None \<and>
           (\<exists>h ru' uerr tail. hist r' = h @ EvStatusUpdate ru' uerr # tail \<and>
              written (upd_strategy complete_strategy ru) out ru' \<and>
              (if uerr = None then \<exists>perr. tail =
                 [EvPatchLabel (NamespacedName ru) LabelKeyRollingUpgradeCurrentStatus (CurrentStatus ru') perr]
               else tail = [])))"
proof -
  obtain out r' where run: "Reconcile e sched choice req r = Some (out, r')" using Reconcile_total [OF assms] by blast
  have acc: "strategy_acceptable (spec_Strategy (ru_Spec ru))" if "Validate ru = ((True, None), ru1)" for ru ru1
    using Validate_rejects [of ru] that by fastforce
  have rej: "\<not> strategy_acceptable (spec_Strategy (ru_Spec ru))" if "Validate ru = ((False, er), ru1)" for ru ru1 er
    using Validate_accepts [of ru] that by auto
  show ?thesis
    using run
  proof (cases rule: Reconcile_cases)
    case (ended name)
    then show ?thesis using run by (auto simp: Get_eq(1) intro!: exI [of _ out] exI [of _ r'])
  next
    case (refused er)
    then show ?thesis using run rej by (auto simp: Get_eq(1) intro!: exI [of _ out] exI [of _ r'])
  next
    case (reconciled ru ru1 ru2 r2)
    have ru1: "ru1 = upd_strategy complete_strategy ru" using Validate_accepts [OF acc [OF reconciled(4)]] reconciled(4) by simp
    have w: "written ru1 out ru2" using reconcile_upgrade_written [OF reconciled(5)] .
    have name: "NamespacedName ru2 = NamespacedName ru" using w Validate_resource [OF reconciled(4)] by (simp add: written_def)
    obtain uerr tail where ev: "hist r' = hist r2 @ EvStatusUpdate ru2 uerr # tail"
      "if uerr = None then \<exists>perr. tail = [EvPatchLabel (NamespacedName ru) LabelKeyRollingUpgradeCurrentStatus (CurrentStatus ru2) perr]
       else tail = []" using Update_events [of e ru2 r2] unfolding reconciled(6) name by blast
    have "sm_Load (rec_ReconcileMap r') (NamespacedName ru) = None" using reconciled(6) name by (simp add: sm.load_delete)
    with ev w have "sm_Load (rec_ReconcileMap r') (NamespacedName ru) = None \<and>
           (\<exists>h ru' uerr tail. hist r' = h @ EvStatusUpdate ru' uerr # tail \<and>
              written (upd_strategy complete_strategy ru) out ru' \<and>
              (if uerr = None then \<exists>perr. tail =
                 [EvPatchLabel (NamespacedName ru) LabelKeyRollingUpgradeCurrentStatus (CurrentStatus ru') perr]
               else tail = []))" unfolding ru1 by blast
    then show ?thesis using run reconciled(1,2,3) acc [OF reconciled(4)] by (simp add: Get_eq(1))
  qed
qed

theorem Reconcile_correct_witness:
  "\<exists>out r' h ru' uerr tail. Reconcile rotation_env sample_sched DoneCase sample_request sample_reconciler = Some (out, r') \<and>
     hist r' = h @ EvStatusUpdate ru' uerr # tail \<and> written (upd_strategy complete_strategy sample_RollingUpgrade) out ru'"
proof -
  have ok: "request_ok rotation_env sample_request sample_reconciler"
    by (rule sample_request_ok) (simp_all add: sample_reconciler_def)
  have acc: "strategy_acceptable (spec_Strategy (ru_Spec sample_RollingUpgrade))"
    by (simp add: sample_RollingUpgrade_def strategy_acceptable_def size_acceptable_def)
  from Reconcile_correct [OF ok, of sample_sched DoneCase, unfolded rotation_env_api sum.case]
  obtain out r' h ru' uerr tail where "Reconcile rotation_env sample_sched DoneCase sample_request sample_reconciler = Some (out, r')"
    "hist r' = h @ EvStatusUpdate ru' uerr # tail" "written (upd_strategy complete_strategy sample_RollingUpgrade) out ru'"
    using sample_unfinished acc by (auto simp del: One_nat_def)
  then show ?thesis by blast
qed

text \<open>The nodes a pass works with: if the controller knows none they are listed from the API, each name
  with the last node of that name; otherwise the nodes known are used as they are, whether or not
  they are all the nodes. Each known node is passed on exactly once, in some order.\<close>

lemma cluster_nodes_of_pass:
  assumes "ensureClusterNodesMapPopulated e r = (None, r')" and "map_ok (rec_ClusterNodesMap r)"
  shows "(rec_ClusterNodesMap r \<noteq> [] \<longrightarrow> r' = r) \<and>
    (rec_ClusterNodesMap r = [] \<longrightarrow> (\<exists>nodes. fst (ListClusterNodes e r) = (nodes, None) \<and>
       sm_Load (rec_ClusterNodesMap r') = map_of (rev (map (\<lambda>n. (node_Name n, n)) nodes)))) \<and>
    distinct (map fst (fst (getClusterNodes e r'))) \<and>
    (\<forall>k n. (k, n) \<in> set (fst (getClusterNodes e r')) \<longleftrightarrow> sm_Load (rec_ClusterNodesMap r') k = Some n)"
proof -
  have store: "map_ok m \<Longrightarrow> map_ok (fold (\<lambda>n. sm_Store (node_Name n) n) nodes m) \<and>
      sm_Load (fold (\<lambda>n. sm_Store (node_Name n) n) nodes m) = sm_Load m ++ map_of (rev (map (\<lambda>n. (node_Name n, n)) nodes))"
    for nodes and m :: "(string, Node) gomap"
    by (induction nodes arbitrary: m) (auto simp: sm.ok_store sm.load_store map_add_def fun_eq_iff split: option.splits)
  have pop: "map_ok (rec_ClusterNodesMap r') \<and> (rec_ClusterNodesMap r \<noteq> [] \<longrightarrow> r' = r) \<and>
    (rec_ClusterNodesMap r = [] \<longrightarrow> (\<exists>nodes. fst (ListClusterNodes e r) = (nodes, None) \<and>
       sm_Load (rec_ClusterNodesMap r') = map_of (rev (map (\<lambda>n. (node_Name n, n)) nodes))))"
  proof (cases "rec_ClusterNodesMap r = []")
    case True
    obtain nodes err r1 where l: "ListClusterNodes e r = ((nodes, err), r1)" by (metis prod.exhaust)
    have m: "rec_ClusterNodesMap r1 = []" using rec_fields_of_more(4) [OF ListClusterNodes_rec [of e r]] True by (simp add: l)
    obtain "err = None" "r' = r1\<lparr>rec_ClusterNodesMap := fold (\<lambda>n. sm_Store (node_Name n) n) nodes (rec_ClusterNodesMap r1)\<rparr>"
      using assms(1) True l
      by (auto simp: ensureClusterNodesMapPopulated_def sm_Range_any_def case_prod_beta split: option.splits)
    moreover have "sm_Load ([] :: (string, Node) gomap) = Map.empty" by (simp add: sm_Load_def fun_eq_iff)
    ultimately show ?thesis using store [of "[]" nodes] True l m by simp
  next
    case False
    then show ?thesis
      using assms by (cases "rec_ClusterNodesMap r") (auto simp: ensureClusterNodesMapPopulated_def sm_Range_any_def)
  qed
  let ?m = "rec_ClusterNodesMap r'" and ?keys = "fst (range_keys e (map fst (rec_ClusterNodesMap r')) r')"
  have ok: "map_ok ?m" using pop by blast
  have keys: "distinct ?keys" "set ?keys = fst ` set ?m"
    using ok range_keys_distinct [of "map fst ?m" e r'] range_keys_set [of e "map fst ?m" r'] by (simp_all add: map_ok_def)
  have entries: "fst (getClusterNodes e r') = map (\<lambda>k. (k, the (sm_Load ?m k))) ?keys"
  proof -
    have "\<forall>k \<in> set ?keys. sm_Load ?m k \<noteq> None" using keys(2) sm_mem [OF ok] by force
    then have "List.map_filter (\<lambda>k. map_option (Pair k) (sm_Load ?m k)) ks = map (\<lambda>k. (k, the (sm_Load ?m k))) ks"
      if "set ks \<subseteq> set ?keys" for ks using that by (induction ks) (auto simp: List.map_filter_simps)
    then show ?thesis by (simp add: getClusterNodes_def case_prod_beta)
  qed
  have "(k, n) \<in> set (fst (getClusterNodes e r')) \<longleftrightarrow> sm_Load ?m k = Some n" for k n
    using keys(2) sm_mem [OF ok] by (auto simp: entries image_iff) (metis fst_conv surj_pair)+
  then show ?thesis using pop keys(1) by (simp add: entries comp_def)
qed

section \<open>Where the code does not do what it means to\<close>

text \<open>C33: every event of a node, also its creation, removes the node from the nodes the controller knows
  and requests a reconcile of the empty name: the map function of the watch evaluates the handlers of
  creation, update and deletion one after the other on the object.\<close>

theorem node_event_forgets_node:
  "sm_Load (rec_ClusterNodesMap (snd (node_requests (NodeObject n) r))) =
     (sm_Load (rec_ClusterNodesMap r))(node_Name n := None) \<and>
   fst (node_requests (NodeObject n) r) = [\<lparr>req_Namespace = '''', req_Name = ''''\<rparr>]"
  by (simp add: node_requests_def CreateFunc_def UpdateFunc_def DeleteFunc_def GenericFunc_def sm.load_store sm.load_delete fun_eq_iff)

text \<open>A reconcile that finds the reconcile lock of its upgrade taken does no work and is repeated, but
  the update it deferred releases the lock that the other reconcile holds.\<close>

lemma contended_reconcile_releases_lock:
  assumes "env_GetRollingUpgrade e (hist r) (req_String req) = Inr ru" and "\<not> being_deleted ru"
    and "\<not> ContainsEqualFold FiniteStates (CurrentStatus ru)" and "strategy_acceptable (spec_Strategy (ru_Spec ru))"
    and "sm_Load (rec_ReconcileMap r) (NamespacedName ru) \<noteq> None"
  shows "\<exists>r'. Reconcile e sched choice req r = Some ((requeue, None), r') \<and>
    sm_Load (rec_ReconcileMap r') (NamespacedName ru) = None \<and> rec_AdmissionMap r' = rec_AdmissionMap r"
proof -
  let ?ru = "upd_strategy complete_strategy ru"
  obtain r1 where g: "Get e req r = (Inr ru, r1)" "rec_ReconcileMap r1 = rec_ReconcileMap r" "rec_AdmissionMap r1 = rec_AdmissionMap r"
    using assms(1) by (simp add: Get_def Let_def)
  have name: "NamespacedName ?ru = NamespacedName ru" by (simp add: NamespacedName_def)
  have "reconcile_upgrade e sched choice ?ru r1 = Some ((requeue, None), ready_ru ?ru r1, locked ?ru r1)"
    using assms(5) g(2) by (simp add: reconcile_upgrade_eq name case_prod_beta Let_def)
  then have "Reconcile e sched choice req r = Some ((requeue, None), Update e (ready_ru ?ru r1) (locked ?ru r1))"
    using assms(2,3) Validate_accepts [OF assms(4)] by (simp add: Reconcile_def g(1))
  then show ?thesis using g(3) by (simp add: sm.load_delete name)
qed

end
