(* ===== verification/Admission_Spec.thy ===== *)
theory Admission_Spec
  imports Upgrade_Controller
begin

text \<open>
  The admission of upgrades, specified abstractly, for controllers that work on several requests at the
  same time: the admitted upgrades are a partial function from names to scaling groups, and every
  request has a phase that says what it has seen of them. The concurrent workers are shown to refine
  it in \<open>Concurrent_Admission\<close>. Here also: what the controller recovers of the admissions from the API.
\<close>

section \<open>Specification\<close>

type_synonym admissions = "string \<rightharpoonup> string"

text \<open>
  \<open>Ending\<close>: the upgrade is gone or finished. \<open>Recovering\<close>: no upgrade was admitted, so that the running ones
  are asked for; \<open>Adding\<close>: those of them still to be admitted. \<open>Group_free g\<close>: no other upgrade was admitted for
  the group \<open>g\<close>. \<open>Cleared g\<close>: after that, the limit was not reached or the upgrade was admitted already.
\<close>

datatype phase = Ending | Recovering | Adding "(string \<times> string) list" | Group_free string | Cleared string

type_synonym adm_state = "admissions \<times> (Request \<rightharpoonup> phase)"

text \<open>
  A step concerns one request and at most one admission. The upgrades that are \<open>ended\<close> and the lists of
  upgrades that are \<open>running\<close> are those that the API may report.
\<close>

inductive adm_step :: "int \<Rightarrow> (string \<Rightarrow> bool) \<Rightarrow> ((string \<times> string) list \<Rightarrow> bool) \<Rightarrow> adm_state \<Rightarrow> adm_state \<Rightarrow> bool"
  for mx ended running where
  Stutter: "adm_step mx ended running (A, P) (A, P)"
| Quit: "adm_step mx ended running (A, P) (A, P(q := None))"
| End: "P q = None \<Longrightarrow> ended (req_String q) \<Longrightarrow> adm_step mx ended running (A, P) (A, P(q \<mapsto> Ending))"
| Drop: "P q = Some Ending \<Longrightarrow> adm_step mx ended running (A, P) (A(req_String q := None), P(q := None))"
| Recover: "P q = None \<Longrightarrow> A = Map.empty \<Longrightarrow> adm_step mx ended running (A, P) (A, P(q \<mapsto> Recovering))"
| Listed: "P q = Some Recovering \<Longrightarrow> running xs \<Longrightarrow> adm_step mx ended running (A, P) (A, P(q \<mapsto> Adding xs))"
| Add: "P q = Some (Adding ((k, g) # xs)) \<Longrightarrow> adm_step mx ended running (A, P) (A(k \<mapsto> g), P(q \<mapsto> Adding xs))"
| Group: "P q = None \<or> P q = Some (Adding []) \<Longrightarrow> \<forall>k g'. A k = Some g' \<longrightarrow> EqualFold g' g \<longrightarrow> EqualFold k (req_String q) \<Longrightarrow>
    adm_step mx ended running (A, P) (A, P(q \<mapsto> Group_free g))"
| Limit: "P q = Some (Group_free g) \<Longrightarrow> int (card (dom A)) < mx \<or> A (req_String q) \<noteq> None \<Longrightarrow>
    adm_step mx ended running (A, P) (A, P(q \<mapsto> Cleared g))"
| Admit: "P q = Some (Cleared g) \<Longrightarrow> A (req_String q) = None \<Longrightarrow>
    adm_step mx ended running (A, P) (A(req_String q \<mapsto> g), P(q := None))"

inductive_cases adm_stepE: "adm_step mx ended running (A, P) (A', P')"

text \<open>How the admissions change in a step: by one upgrade, and only out of the phase that allows it.\<close>

lemma adm_step_changes:
  assumes "adm_step mx ended running (A, P) (A', P')" and "A' \<noteq> A"
  obtains (drop) q where "P q = Some Ending" "A' = A(req_String q := None)"
  | (add) q k g xs where "P q = Some (Adding ((k, g) # xs))" "A' = A(k \<mapsto> g)"
  | (admit) q g where "P q = Some (Cleared g)" "A (req_String q) = None" "A' = A(req_String q \<mapsto> g)"
  using assms(1)
proof cases
  case (Drop q)
  then show ?thesis using drop by blast
next
  case (Add q k g xs)
  then show ?thesis using add by blast
next
  case (Admit q g)
  then show ?thesis using admit by blast
qed (use assms(2) in simp_all)

text \<open>No two admitted upgrades are for the same group.\<close>

definition exclusive :: "admissions \<Rightarrow> bool" where
  "exclusive A \<longleftrightarrow> (\<forall>k g k' g'. A k = Some g \<longrightarrow> A k' = Some g' \<longrightarrow> EqualFold g g' \<longrightarrow> EqualFold k k')"

abbreviation abs_adm :: "reconciler \<Rightarrow> admissions" where
  "abs_adm r \<equiv> sm_Load (rec_AdmissionMap r)"

section \<open>Recovery\<close>

lemma store_upgrades_load:
  "sm_Load (store_upgrades crs m) = sm_Load m ++ map_of (rev (map (\<lambda>cr. (NamespacedName cr, ScalingGroupName cr)) crs))"
  by (induction crs arbitrary: m) (auto simp: sm.load_store map_add_def fun_eq_iff split: option.splits)

lemma readmit_load:
  assumes "distinct (map NamespacedName items)"
  shows "sm_Load (readmit items []) k = Some g \<longleftrightarrow>
    (\<exists>cr \<in> set items. CurrentStatus cr = StatusRunning \<and> NamespacedName cr = k \<and> ScalingGroupName cr = g)"
proof -
  let ?ps = "map (\<lambda>cr. (NamespacedName cr, ScalingGroupName cr)) (filter (\<lambda>cr. CurrentStatus cr = StatusRunning) items)"
  have "sm_Load (readmit items []) = map_of (rev ?ps)"
    unfolding readmit_filter store_upgrades_load by (simp add: sm_Load_def fun_eq_iff map_add_def split: option.splits)
  moreover have "distinct (map fst (rev ?ps))" using assms by (simp add: comp_def distinct_map_filter rev_map [symmetric])
  ultimately have "sm_Load (readmit items []) k = Some g \<longleftrightarrow> (k, g) \<in> set (rev ?ps)" by (simp add: map_of_eq_Some_iff)
  then show ?thesis by auto
qed

section \<open>Properties\<close>



end
