(* ===== verification/Concurrent_Reconciles.thy ===== *)
theory Concurrent_Reconciles
  imports Admission_Spec
begin

text \<open>
  Reconciles that run at the same time. \<^verbatim>\<open>SetupWithManager\<close> gives the controller as many workers as upgrades
  may run in parallel, and every worker runs \<open>Reconcile\<close> on a request of its own. Here \<open>Reconcile\<close> is the
  program of a worker, one stage for every access to a map that the workers share; a run of a worker
  without interruption is shown to be \<open>Reconcile\<close>. The system has any interleaving of the stages of
  the workers with events of nodes and steps of drain goroutines.

  A pass of \<open>RotateNodes\<close> is one stage: it does not touch the admission map and the locks. \<^verbatim>\<open>Range\<close> over a map
  is one access. The work queue of controller-runtime never gives a request to two workers at a time:
  the workers are a map from requests to stages.
\<close>

section \<open>Workers\<close>

datatype stage =
    Getting
  | Forgetting string
  | Locking RollingUpgrade
  | Restoring RollingUpgrade
  | Listing RollingUpgrade
  | Readmitting RollingUpgrade "RollingUpgrade list"
  | CheckingGroup RollingUpgrade
  | CheckingLimit RollingUpgrade
  | CheckingAdmitted RollingUpgrade
  | Admitting RollingUpgrade
  | Attaching RollingUpgrade
  | Populating RollingUpgrade
  | Rotating RollingUpgrade
  | Unlocking RollingUpgrade outcome
  | Updating RollingUpgrade outcome
  | Returned outcome

text \<open>The two accesses of the deferred \<open>Update\<close>: it releases the lock, and writes the status and the label.\<close>

definition unlock :: "RollingUpgrade \<Rightarrow> reconciler \<Rightarrow> reconciler" where
  "unlock ru r = r\<lparr>rec_ReconcileMap := sm_Delete (NamespacedName ru) (rec_ReconcileMap r)\<rparr>"

definition publish :: "env \<Rightarrow> RollingUpgrade \<Rightarrow> reconciler \<Rightarrow> reconciler" where
  "publish e ru r =
     (let err = env_StatusUpdate e (hist r) ru;
          r1 = log_event (EvStatusUpdate ru err) r
      in if err \<noteq> None then r1
         else log_event (EvPatchLabel (NamespacedName ru) LabelKeyRollingUpgradeCurrentStatus (CurrentStatus ru)
                (env_PatchLabel e (hist r1) (NamespacedName ru) LabelKeyRollingUpgradeCurrentStatus (CurrentStatus ru))) r1)"

lemma Update_stages: "Update e ru r = publish e ru (unlock ru r)"
  by (simp add: Update_def publish_def unlock_def Let_def)

text \<open>What a resource that was read leads to.\<close>

definition after_get :: "RollingUpgrade \<Rightarrow> stage" where
  "after_get ru =
     (if being_deleted ru then Forgetting (NamespacedName ru)
      else if ContainsEqualFold FiniteStates (CurrentStatus ru) then Forgetting (NamespacedName ru)
      else (let ((ok, err), ru1) = Validate ru in if \<not> ok then Returned (no_requeue, err) else Locking ru1))"

text \<open>The wait group and the channel are pointers: the pass uses the drain manager as it is now.\<close>

definition run_pass ::
  "env \<Rightarrow> nat list \<Rightarrow> select_case \<Rightarrow> RollingUpgrade \<Rightarrow> reconciler \<Rightarrow> (outcome \<times> RollingUpgrade \<times> reconciler) option" where
  "run_pass e sched choice ru r =
     (let dm = (case sm_Load (rec_DrainMapper r) (NamespacedName ru) of None \<Rightarrow> NewDrainManager | Some d \<Rightarrow> d);
          (entries, r1) = getClusterNodes e r
      in do { (res, c) \<leftarrow> rotate e sched choice (rollup_ctx ru dm (map snd entries) r1);
              Some (res, ctx_RollingUpgrade c, keep_ctx (NamespacedName ru) (map fst entries) c r1) })"

text \<open>\<open>None\<close> is a panic.\<close>

fun worker_step ::
  "env \<Rightarrow> nat list \<Rightarrow> select_case \<Rightarrow> Request \<Rightarrow> stage \<Rightarrow> reconciler \<Rightarrow> (stage \<times> reconciler) option" where
  "worker_step e sched choice req Getting r =
     (case Get e req r of
        (Inl err, r1) \<Rightarrow>
          Some (if IsNotFound err then Forgetting (req_String req) else Returned (no_requeue, Some err), r1)
      | (Inr ru, r1) \<Rightarrow> Some (after_get ru, r1))"
| "worker_step e sched choice req (Forgetting name) r = Some (Returned (no_requeue, None), forget name r)"
| "worker_step e sched choice req (Locking ru0) r =
     (let (ru, r1) = init_status ru0 r;
          (_, present, m) = sm_LoadOrStore (NamespacedName ru) (ScalingGroupName ru) (rec_ReconcileMap r1);
          r2 = r1\<lparr>rec_ReconcileMap := m\<rparr>
      in Some (if present then Unlocking ru (requeue, None) else Restoring ru, r2))"
| "worker_step e sched choice req (Restoring ru) r =
     Some (if GetSyncMapLen (rec_AdmissionMap r) = 0 then Listing ru else CheckingGroup ru, r)"
| "worker_step e sched choice req (Listing ru) r =
     Some (case env_ListRollingUpgrades e (hist r) of
             Inl err \<Rightarrow> Unlocking ru (no_requeue, Some err)
           | Inr items \<Rightarrow> Readmitting ru items, log_event EvListRollingUpgrades r)"
| "worker_step e sched choice req (Readmitting ru []) r = Some (CheckingGroup ru, r)"
| "worker_step e sched choice req (Readmitting ru (cr # items)) r =
     Some (Readmitting ru items,
       if CurrentStatus cr = StatusRunning
       then r\<lparr>rec_AdmissionMap := sm_Store (NamespacedName cr) (ScalingGroupName cr) (rec_AdmissionMap r)\<rparr> else r)"
| "worker_step e sched choice req (CheckingGroup ru) r =
     Some (if group_taken ru (rec_AdmissionMap r) then Unlocking ru (requeue, None) else CheckingLimit ru, r)"
| "worker_step e sched choice req (CheckingLimit ru) r =
     Some (if GetSyncMapLen (rec_AdmissionMap r) \<ge> rec_maxParallel r then CheckingAdmitted ru else Admitting ru, r)"
| "worker_step e sched choice req (CheckingAdmitted ru) r =
     Some (if sm_Load (rec_AdmissionMap r) (NamespacedName ru) = None then Unlocking ru (requeue, None) else Admitting ru, r)"
| "worker_step e sched choice req (Admitting ru) r = Some (Attaching ru, admit ru r)"
| "worker_step e sched choice req (Attaching ru) r =
     (let (_, _, m) = sm_LoadOrStore (NamespacedName ru) NewDrainManager (rec_DrainMapper r)
      in Some (Populating ru, r\<lparr>rec_DrainMapper := m\<rparr>))"
| "worker_step e sched choice req (Populating ru) r =
     (let (err, r1) = ensureClusterNodesMapPopulated e r
      in Some (if err \<noteq> None then Unlocking ru (no_requeue, err) else Rotating ru, r1))"
| "worker_step e sched choice req (Rotating ru) r =
     do { (res, ru1, r1) \<leftarrow> run_pass e sched choice ru r; Some (Unlocking ru1 res, r1) }"
| "worker_step e sched choice req (Unlocking ru res) r = Some (Updating ru res, unlock ru r)"
| "worker_step e sched choice req (Updating ru res) r = Some (Returned res, publish e ru r)"
| "worker_step e sched choice req (Returned res) r = Some (Returned res, r)"

section \<open>A worker on its own\<close>

text \<open>The order of the stages; only the loop that admits again repeats a stage, on a shorter list.\<close>

fun stages_left :: "stage \<Rightarrow> nat \<times> nat" where
  "stages_left Getting = (15, 0)"
| "stages_left (Locking _) = (14, 0)"
| "stages_left (Restoring _) = (13, 0)"
| "stages_left (Listing _) = (12, 0)"
| "stages_left (Readmitting _ items) = (11, length items)"
| "stages_left (CheckingGroup _) = (10, 0)"
| "stages_left (CheckingLimit _) = (9, 0)"
| "stages_left (CheckingAdmitted _) = (8, 0)"
| "stages_left (Admitting _) = (7, 0)"
| "stages_left (Attaching _) = (6, 0)"
| "stages_left (Populating _) = (5, 0)"
| "stages_left (Rotating _) = (4, 0)"
| "stages_left (Unlocking _ _) = (3, 0)"
| "stages_left (Updating _ _) = (2, 0)"
| "stages_left (Forgetting _) = (1, 0)"
| "stages_left (Returned _) = (0, 0)"

fun outcome_of :: "stage \<Rightarrow> outcome option" where
  "outcome_of (Returned res) = Some res"
| "outcome_of _ = None"

lemma after_get_left: "(stages_left (after_get ru), 15, 0) \<in> less_than <*lex*> less_than"
  by (auto simp: after_get_def case_prod_beta Let_def)

lemma worker_step_left:
  assumes "worker_step e sched choice req st r = Some (st', r')" and "outcome_of st = None"
  shows "(stages_left st', stages_left st) \<in> less_than <*lex*> less_than"
  using assms after_get_left
  by (cases rule: worker_step.cases [of "(e, sched, choice, req, st, r)"])
    (auto simp: case_prod_beta Let_def Option.bind_eq_Some_conv split: sum.splits prod.splits if_splits)

function run_worker ::
  "env \<Rightarrow> nat list \<Rightarrow> select_case \<Rightarrow> Request \<Rightarrow> stage \<Rightarrow> reconciler \<Rightarrow> (outcome \<times> reconciler) option" where
  "run_worker e sched choice req st r =
     (case outcome_of st of
        Some res \<Rightarrow> Some (res, r)
      | None \<Rightarrow> do { (st', r') \<leftarrow> worker_step e sched choice req st r; run_worker e sched choice req st' r' })"
  by pat_completeness auto
termination
proof (relation "inv_image (less_than <*lex*> less_than) (\<lambda>(e, sched, choice, req, st, r). stages_left st)")
  show "wf (inv_image (less_than <*lex*> less_than)
    (\<lambda>(e :: env, sched :: nat list, choice :: select_case, req :: Request, st, r :: reconciler). stages_left st))" by auto
next
  fix e sched choice req st r p st' r'
  assume "outcome_of st = None" "worker_step e sched choice req st r = Some p" "(st', r') = p"
  then show "((e, sched, choice, req, st', r'), (e, sched, choice, req, st, r)) \<in>
    inv_image (less_than <*lex*> less_than) (\<lambda>(e, sched, choice, req, st, r). stages_left st)"
    using worker_step_left [of e sched choice req st r st' r'] by auto
qed

declare run_worker.simps [simp del]

lemma run_worker_next:
  "outcome_of st = None \<Longrightarrow> worker_step e sched choice req st r = Some (st', r') \<Longrightarrow>
     run_worker e sched choice req st r = run_worker e sched choice req st' r'"
  by (subst run_worker.simps) simp

lemma run_Unlocking: "run_worker e sched choice req (Unlocking ru res) r = Some (res, Update e ru r)"
proof -
  have "run_worker e sched choice req (Unlocking ru res) r = run_worker e sched choice req (Returned res) (publish e ru (unlock ru r))"
    by (simp add: run_worker_next)
  then show ?thesis by (simp add: Update_stages run_worker.simps)
qed

abbreviation updated :: "env \<Rightarrow> (outcome \<times> RollingUpgrade \<times> reconciler) option \<Rightarrow> (outcome \<times> reconciler) option" where
  "updated e p \<equiv> Option.bind p (\<lambda>(res, ru, r). Some (res, Update e ru r))"

lemma run_Rotating: "run_worker e sched choice req (Rotating ru) r = updated e (run_pass e sched choice ru r)"
  by (subst run_worker.simps) (simp add: run_Unlocking case_prod_beta bind_assoc split: Option.bind_splits)

lemma run_pass_attached:
  assumes "sm_Load (rec_DrainMapper r) (NamespacedName ru) = Some dm"
  shows "run_pass e sched choice ru r =
    (let (entries, r1) = getClusterNodes e r
     in do { (res, c) \<leftarrow> rotate e sched choice (rollup_ctx ru dm (map snd entries) r1);
             Some (res, ctx_RollingUpgrade c, keep_ctx (NamespacedName ru) (map fst entries) c r1) })"
  using assms by (simp add: run_pass_def)

lemma attached:
  assumes "sm_LoadOrStore k v m = (d, present, m')"
  shows "sm_Load m' k = Some d"
  using assms by (auto simp: sm_LoadOrStore_def sm.load_store split: option.splits)

lemma run_Admitting: "run_worker e sched choice req (Admitting ru) r = updated e (process_upgrade e sched choice ru r)"
proof -
  obtain dm p m where d: "sm_LoadOrStore (NamespacedName ru) NewDrainManager (rec_DrainMapper (admit ru r)) = (dm, p, m)"
    by (metis prod_cases3)
  let ?r1 = "(admit ru r)\<lparr>rec_DrainMapper := m\<rparr>"
  obtain err r2 where n: "ensureClusterNodesMapPopulated e ?r1 = (err, r2)" by fastforce
  have "run_worker e sched choice req (Admitting ru) r = run_worker e sched choice req (Populating ru) ?r1"
    using d by (simp add: run_worker_next)
  also have "\<dots> = run_worker e sched choice req (if err \<noteq> None then Unlocking ru (no_requeue, err) else Rotating ru) r2"
    by (rule run_worker_next) (simp_all add: n)
  also have "\<dots> = updated e (process_upgrade e sched choice ru r)"
  proof (cases err)
    case None
    have "rec_DrainMapper r2 = m" using ensure_frame(2) [of e ?r1] n by simp
    then have "sm_Load (rec_DrainMapper r2) (NamespacedName ru) = Some dm" using attached [OF d] by simp
    then show ?thesis using None d n by (simp add: run_Rotating run_pass_attached process_upgrade_def case_prod_beta)
  next
    case (Some er)
    then show ?thesis using d n by (simp add: run_Unlocking process_upgrade_def)
  qed
  finally show ?thesis .
qed

lemma run_CheckingGroup:
  "run_worker e sched choice req (CheckingGroup ru) r =
     (if must_wait ru r then Some ((requeue, None), Update e ru r) else updated e (process_upgrade e sched choice ru r))"
  by (auto simp: must_wait_def run_worker_next run_Unlocking run_Admitting)

lemma run_Readmitting:
  "run_worker e sched choice req (Readmitting ru items) r =
     run_worker e sched choice req (CheckingGroup ru) (r\<lparr>rec_AdmissionMap := readmit items (rec_AdmissionMap r)\<rparr>)"
  by (induction items arbitrary: r) (simp_all add: run_worker_next readmit_def)

lemma run_Restoring:
  "run_worker e sched choice req (Restoring ru) r =
     (let (err, r2) = restore_admissions e r
      in if err \<noteq> None then Some ((no_requeue, err), Update e ru r2) else run_worker e sched choice req (CheckingGroup ru) r2)"
  by (cases "env_ListRollingUpgrades e (hist r)")
    (auto simp: run_worker_next run_Unlocking run_Readmitting restore_admissions_def Let_def)

lemma run_Locking: "run_worker e sched choice req (Locking ru) r = updated e (reconcile_upgrade e sched choice ru r)"
proof -
  obtain ru1 r1 where i: "init_status ru r = (ru1, r1)" by fastforce
  obtain v present m where l: "sm_LoadOrStore (NamespacedName ru1) (ScalingGroupName ru1) (rec_ReconcileMap r1) = (v, present, m)"
    by (metis prod_cases3)
  obtain err r2 where s: "restore_admissions e (r1\<lparr>rec_ReconcileMap := m\<rparr>) = (err, r2)" by fastforce
  have "run_worker e sched choice req (Locking ru) r =
      run_worker e sched choice req (if present then Unlocking ru1 (requeue, None) else Restoring ru1) (r1\<lparr>rec_ReconcileMap := m\<rparr>)"
    using i l by (intro run_worker_next) simp_all
  then show ?thesis by (simp add: run_Unlocking run_Restoring run_CheckingGroup reconcile_upgrade_def i l s)
qed

lemma run_Returned: "run_worker e sched choice req (Returned res) r = Some (res, r)"
  by (simp add: run_worker.simps)

lemma run_Forgetting: "run_worker e sched choice req (Forgetting name) r = Some ((no_requeue, None), forget name r)"
  by (simp add: run_worker_next run_Returned)

text \<open>A worker that is not interrupted comes to the end of its stages, and has then returned what \<open>Reconcile\<close>
  returns and left the controller as \<open>Reconcile\<close> leaves it, panics included.\<close>

lemma run_Getting: "run_worker e sched choice req Getting r = Reconcile e sched choice req r"
proof -
  obtain res r1 where g: "Get e req r = (res, r1)" by fastforce
  have "run_worker e sched choice req Getting r =
      (case res of
         Inl err \<Rightarrow> run_worker e sched choice req
           (if IsNotFound err then Forgetting (req_String req) else Returned (no_requeue, Some err)) r1
       | Inr ru \<Rightarrow> run_worker e sched choice req (after_get ru) r1)"
    using g by (cases res) (simp_all add: run_worker_next)
  then show ?thesis
    by (cases res) (simp_all add: g run_Forgetting run_Returned run_Locking after_get_def Reconcile_def case_prod_beta)
qed

section \<open>All workers\<close>

text \<open>The option of \<^verbatim>\<open>SetupWithManager\<close>; controller-runtime takes 1 if it is not positive.\<close>

definition MaxConcurrentReconciles :: "reconciler \<Rightarrow> nat" where
  "MaxConcurrentReconciles r = (if rec_maxParallel r \<le> 0 then 1 else nat (rec_maxParallel r))"

type_synonym workers = "Request \<rightharpoonup> stage"

text \<open>A name of Kubernetes has no slash.\<close>

definition request_name_ok :: "Request \<Rightarrow> bool" where
  "request_name_ok req \<longleftrightarrow> CHR ''/'' \<notin> set (req_Namespace req) \<and> CHR ''/'' \<notin> set (req_Name req)"

inductive con_step :: "env \<Rightarrow> reconciler \<times> workers \<Rightarrow> reconciler \<times> workers \<Rightarrow> bool" for e where
  Dequeue: "ws req = None \<Longrightarrow> card (dom ws) < MaxConcurrentReconciles r \<Longrightarrow> request_name_ok req \<Longrightarrow>
    con_step e (r, ws) (r, ws(req \<mapsto> Getting))"
| Work: "ws req = Some st \<Longrightarrow> worker_step e sched choice req st r = Some (st', r') \<Longrightarrow>
    con_step e (r, ws) (r', ws(req \<mapsto> st'))"
| Finish: "ws req = Some (Returned res) \<Longrightarrow> con_step e (r, ws) (r, ws(req := None))"
| Node: "node_requests obj r = (reqs, r') \<Longrightarrow> con_step e (r, ws) (r', ws)"
| Job: "sm_Load (rec_DrainMapper r) name = Some dm \<Longrightarrow> job_step e i (job_ctx dm i r) = Some c \<Longrightarrow>
    con_step e (r, ws) (keep_ctx name [] c r, ws)"

inductive_cases con_stepE: "con_step e (r, ws) s"

text \<open>\<^verbatim>\<open>Get\<close> returns the resource of the name it is asked for.\<close>

definition api_names_ok :: "env \<Rightarrow> bool" where
  "api_names_ok e \<longleftrightarrow> (\<forall>h name ru. env_GetRollingUpgrade e h name = Inr ru \<longrightarrow> NamespacedName ru = name)"

lemma req_String_inj:
  assumes "request_name_ok a" and "request_name_ok b" and "req_String a = req_String b"
  shows "a = b"
proof -
  have split: "takeWhile (\<lambda>c. c \<noteq> CHR ''/'') (req_String q) = req_Namespace q" "dropWhile (\<lambda>c. c \<noteq> CHR ''/'') (req_String q) = CHR ''/'' # req_Name q"
    if "request_name_ok q" for q
  proof -
    have "\<And>c. c \<in> set (req_Namespace q) \<Longrightarrow> c \<noteq> CHR ''/''" using that by (auto simp: request_name_ok_def)
    then show "takeWhile (\<lambda>c. c \<noteq> CHR ''/'') (req_String q) = req_Namespace q"
      "dropWhile (\<lambda>c. c \<noteq> CHR ''/'') (req_String q) = CHR ''/'' # req_Name q"
      by (simp_all add: req_String_def)
  qed
  have "req_Namespace a = req_Namespace b" "req_Name a = req_Name b" using split [OF assms(1)] split [OF assms(2)] assms(3) by simp_all
  then show ?thesis by simp
qed

text \<open>The name a stage works for, whether its worker has the lock, and whether its upgrade was admitted.\<close>

fun for_name :: "string \<Rightarrow> stage \<Rightarrow> bool" where
  "for_name n Getting = True"
| "for_name n (Forgetting name) = (name = n)"
| "for_name n (Locking ru) = (NamespacedName ru = n)"
| "for_name n (Restoring ru) = (NamespacedName ru = n)"
| "for_name n (Listing ru) = (NamespacedName ru = n)"
| "for_name n (Readmitting ru _) = (NamespacedName ru = n)"
| "for_name n (CheckingGroup ru) = (NamespacedName ru = n)"
| "for_name n (CheckingLimit ru) = (NamespacedName ru = n)"
| "for_name n (CheckingAdmitted ru) = (NamespacedName ru = n)"
| "for_name n (Admitting ru) = (NamespacedName ru = n)"
| "for_name n (Attaching ru) = (NamespacedName ru = n)"
| "for_name n (Populating ru) = (NamespacedName ru = n)"
| "for_name n (Rotating ru) = (NamespacedName ru = n)"
| "for_name n (Unlocking ru _) = (NamespacedName ru = n)"
| "for_name n (Updating ru _) = (NamespacedName ru = n)"
| "for_name n (Returned _) = True"

fun has_lock :: "stage \<Rightarrow> bool" where
  "has_lock Getting = False"
| "has_lock (Forgetting _) = False"
| "has_lock (Locking _) = False"
| "has_lock (Updating _ _) = False"
| "has_lock (Returned _) = False"
| "has_lock _ = True"

fun was_admitted :: "stage \<Rightarrow> bool" where
  "was_admitted (Attaching _) = True"
| "was_admitted (Populating _) = True"
| "was_admitted (Rotating _) = True"
| "was_admitted _ = False"

lemma run_pass_frame:
  assumes "run_pass e sched choice ru r = Some (res, ru', r')"
  shows "NamespacedName ru' = NamespacedName ru" "rec_AdmissionMap r' = rec_AdmissionMap r"
    "rec_ReconcileMap r' = rec_ReconcileMap r" "rec_maxParallel r' = rec_maxParallel r"
proof -
  obtain entries r1 where g: "getClusterNodes e r = (entries, r1)" by fastforce
  obtain dm c where c: "rotate e sched choice (rollup_ctx ru dm (map snd entries) r1) = Some (res, c)"
      "ru' = ctx_RollingUpgrade c" "r' = keep_ctx (NamespacedName ru) (map fst entries) c r1"
    using assms g by (auto simp: run_pass_def Let_def Option.bind_eq_Some_conv)
  show "NamespacedName ru' = NamespacedName ru"
    using rotate_keeps(1) [OF c(1)] c(2) by (simp add: NamespacedName_def rollup_ctx_def)
  show "rec_AdmissionMap r' = rec_AdmissionMap r" "rec_ReconcileMap r' = rec_ReconcileMap r" "rec_maxParallel r' = rec_maxParallel r"
    using getClusterNodes_rec [of e r] g c(3) by simp_all
qed

lemma after_get_stage:
  "for_name (NamespacedName ru) (after_get ru)" "has_lock (after_get ru) = False" "was_admitted (after_get ru) = False"
proof -
  obtain ok err ru1 where v: "Validate ru = ((ok, err), ru1)" by (metis prod.collapse)
  then have "ok \<Longrightarrow> NamespacedName ru1 = NamespacedName ru"
    using Validate_error [OF v] Validate_resource [of ru ru1] by simp
  then show "for_name (NamespacedName ru) (after_get ru)" by (simp add: after_get_def v)
qed (simp_all add: after_get_def case_prod_beta Let_def)

text \<open>What a stage does to the two maps that the workers share.\<close>

fun stage_admissions :: "stage \<Rightarrow> (string, string) gomap \<Rightarrow> (string, string) gomap" where
  "stage_admissions (Forgetting name) m = sm_Delete name m"
| "stage_admissions (Readmitting ru (cr # items)) m =
     (if CurrentStatus cr = StatusRunning then sm_Store (NamespacedName cr) (ScalingGroupName cr) m else m)"
| "stage_admissions (Admitting ru) m = snd (snd (sm_LoadOrStore (NamespacedName ru) (ScalingGroupName ru) m))"
| "stage_admissions _ m = m"

fun stage_locks :: "stage \<Rightarrow> (string, string) gomap \<Rightarrow> (string, string) gomap" where
  "stage_locks (Locking ru) m = snd (snd (sm_LoadOrStore (NamespacedName ru) (ScalingGroupName ru) m))"
| "stage_locks (Unlocking ru res) m = sm_Delete (NamespacedName ru) m"
| "stage_locks _ m = m"

lemma stage_frames [simp]:
  "rec_AdmissionMap (snd (Get e req r)) = rec_AdmissionMap r" "rec_ReconcileMap (snd (Get e req r)) = rec_ReconcileMap r"
  "rec_AdmissionMap (publish e ru r) = rec_AdmissionMap r" "rec_ReconcileMap (publish e ru r) = rec_ReconcileMap r"
  "rec_maxParallel (publish e ru r) = rec_maxParallel r"
  "rec_AdmissionMap (unlock ru r) = rec_AdmissionMap r" "rec_maxParallel (unlock ru r) = rec_maxParallel r"
  "rec_ReconcileMap (unlock ru r) = sm_Delete (NamespacedName ru) (rec_ReconcileMap r)"
  "rec_AdmissionMap (forget name r) = sm_Delete name (rec_AdmissionMap r)" "rec_ReconcileMap (forget name r) = rec_ReconcileMap r"
  "rec_maxParallel (forget name r) = rec_maxParallel r"
  by (simp_all add: Get_def publish_def unlock_def forget_def Let_def)

lemma worker_step_maps:
  assumes "worker_step e sched choice req st r = Some (st', r')"
  shows "rec_AdmissionMap r' = stage_admissions st (rec_AdmissionMap r) \<and>
    rec_ReconcileMap r' = stage_locks st (rec_ReconcileMap r) \<and> rec_maxParallel r' = rec_maxParallel r"
  using assms run_pass_frame Get_frame
  by (cases rule: worker_step.cases [of "(e, sched, choice, req, st, r)"])
    (auto simp: case_prod_beta Let_def Option.bind_eq_Some_conv split: sum.splits if_splits)

lemma worker_step_name:
  assumes "api_names_ok e" and "worker_step e sched choice req st r = Some (st', r')" and "for_name (req_String req) st"
  shows "for_name (req_String req) st'"
proof -
  have "for_name (req_String req) (after_get ru)" if "fst (Get e req r) = Inr ru" for ru
  proof -
    have "NamespacedName ru = req_String req" using assms(1) that by (auto simp: Get_eq api_names_ok_def)
    then show ?thesis using after_get_stage(1) [of ru] by simp
  qed
  then show ?thesis
    using assms(2,3) run_pass_frame(1)
    by (cases rule: worker_step.cases [of "(e, sched, choice, req, st, r)"])
      (auto simp: case_prod_beta Let_def Option.bind_eq_Some_conv split: sum.splits if_splits)
qed

text \<open>
  A stage touches the lock of its own upgrade only, and has it afterwards if the next stage is one
  that has it; it takes only its own upgrade from the admission map.
\<close>

lemma stage_locks_other: "for_name n st \<Longrightarrow> k \<noteq> n \<Longrightarrow> sm_Load (stage_locks st m) k = sm_Load m k"
  by (cases "(st, m)" rule: stage_locks.cases) (auto simp: sm.load_after_load_or_store sm.load_delete split: option.splits)

lemma stage_admissions_other: "for_name n st \<Longrightarrow> k \<noteq> n \<Longrightarrow> sm_Load m k \<noteq> None \<Longrightarrow> sm_Load (stage_admissions st m) k \<noteq> None"
  by (cases "(st, m)" rule: stage_admissions.cases)
    (auto simp: sm.load_after_load_or_store sm.load_store sm.load_delete split: option.splits)

lemma stage_admissions_ok: "map_ok m \<Longrightarrow> map_ok (stage_admissions st m)"
  by (cases "(st, m)" rule: stage_admissions.cases) (simp_all add: sm.ok_store sm.ok_delete sm.ok_load_or_store)

lemma worker_step_lock:
  assumes "worker_step e sched choice req st r = Some (st', r')" and "for_name n st"
    and "(sm_Load m n \<noteq> None) = has_lock st"
  shows "(sm_Load (stage_locks st m) n \<noteq> None) = has_lock st'"
  using assms after_get_stage(2)
  by (cases rule: worker_step.cases [of "(e, sched, choice, req, st, r)"])
    (auto simp: sm.load_after_load_or_store sm.load_delete case_prod_beta Let_def Option.bind_eq_Some_conv
      split: option.splits sum.splits if_splits)

lemma worker_step_admits:
  assumes "worker_step e sched choice req st r = Some (st', r')" and "for_name n st"
    and "was_admitted st \<Longrightarrow> sm_Load m n \<noteq> None" and "was_admitted st'"
  shows "sm_Load (stage_admissions st m) n \<noteq> None"
  using assms after_get_stage(3)
  by (cases rule: worker_step.cases [of "(e, sched, choice, req, st, r)"])
    (auto simp: sm.load_after_load_or_store sm.load_delete case_prod_beta Let_def Option.bind_eq_Some_conv
      split: option.splits sum.splits if_splits)

text \<open>The wait groups count the unfinished goroutines whatever the workers do.\<close>

definition drains_ok :: "reconciler \<Rightarrow> bool" where
  "drains_ok r \<longleftrightarrow> (\<forall>name dm. sm_Load (rec_DrainMapper r) name = Some dm \<longrightarrow> dm_ok dm)"

lemma run_pass_drains:
  assumes "run_pass e sched choice ru r = Some (res, ru', r')" and "drains_ok r"
  shows "drains_ok r'"
proof -
  let ?dm = "case sm_Load (rec_DrainMapper r) (NamespacedName ru) of None \<Rightarrow> NewDrainManager | Some d \<Rightarrow> d"
  obtain entries r1 where g: "getClusterNodes e r = (entries, r1)" by fastforce
  let ?c = "rollup_ctx ru ?dm (map snd entries) r1"
  obtain c where c: "rotate e sched choice ?c = Some (res, c)" "r' = keep_ctx (NamespacedName ru) (map fst entries) c r1"
    using assms(1) g by (auto simp: run_pass_def Let_def Option.bind_eq_Some_conv)
  have "dm_ok ?dm" using assms(2) NewDrainManager_ok by (auto simp: drains_ok_def split: option.splits)
  then have "pool_inv ?c" using dm_ok_pool [of ?c] by (simp add: rollup_ctx_def)
  then have "dm_ok (ctx_DrainManager c)" using rotate_keeps(2) [OF c(1)] dm_ok_pool by blast
  then show ?thesis
    using assms(2) drains_stored [of "rec_DrainMapper r" "ctx_DrainManager c" "NamespacedName ru"] getClusterNodes_rec(3) [of e r]
    unfolding drains_ok_def by (simp add: g c(2))
qed

lemma worker_step_drains:
  assumes "worker_step e sched choice req st r = Some (st', r')" and "drains_ok r"
  shows "drains_ok r'"
proof -
  have same: "rec_DrainMapper s = rec_DrainMapper r \<Longrightarrow> drains_ok s" for s using assms(2) by (simp add: drains_ok_def)
  show ?thesis
  proof (cases rule: worker_step.cases [of "(e, sched, choice, req, st, r)"])
    case (12 e' sched' choice' req' ru r')
    then show ?thesis
      using assms drains_loaded(2) [of "rec_DrainMapper r" "NamespacedName ru"] by (auto simp: drains_ok_def case_prod_beta Let_def)
  next
    case (14 e' sched' choice' req' ru r')
    then show ?thesis using assms run_pass_drains by (auto simp: Option.bind_eq_Some_conv)
  qed (use assms(1) in \<open>auto intro!: same simp: case_prod_beta Let_def Get_def forget_def unlock_def publish_def
      split: sum.splits if_splits\<close>)
qed

section \<open>Invariants of the system\<close>

text \<open>
  The workers are within the limit, each works for its request, the locks are those of the workers at
  a stage that has one, and the upgrade of a worker that was admitted is in the admission map.
\<close>

definition workers_ok :: "reconciler \<Rightarrow> workers \<Rightarrow> bool" where
  "workers_ok r ws \<longleftrightarrow> finite (dom ws) \<and> card (dom ws) \<le> MaxConcurrentReconciles r \<and>
     (\<forall>req st. ws req = Some st \<longrightarrow> request_name_ok req \<and> for_name (req_String req) st \<and>
        (was_admitted st \<longrightarrow> abs_adm r (req_String req) \<noteq> None))"

definition locks_ok :: "reconciler \<Rightarrow> workers \<Rightarrow> bool" where
  "locks_ok r ws \<longleftrightarrow> (\<forall>req st. ws req = Some st \<longrightarrow> (sm_Load (rec_ReconcileMap r) (req_String req) \<noteq> None) = has_lock st) \<and>
     (\<forall>k. sm_Load (rec_ReconcileMap r) k \<noteq> None \<longrightarrow> (\<exists>req st. ws req = Some st \<and> has_lock st \<and> req_String req = k))"

definition con_inv :: "reconciler \<times> workers \<Rightarrow> bool" where
  "con_inv s \<longleftrightarrow> (case s of (r, ws) \<Rightarrow> map_ok (rec_AdmissionMap r) \<and> drains_ok r \<and> workers_ok r ws \<and> locks_ok r ws)"

lemma con_inv_simp: "con_inv (r, ws) \<longleftrightarrow> map_ok (rec_AdmissionMap r) \<and> drains_ok r \<and> workers_ok r ws \<and> locks_ok r ws"
  by (simp add: con_inv_def)

lemma other_name:
  assumes "workers_ok r ws" and "ws a = Some st" and "ws b = Some st'" and "a \<noteq> b"
  shows "req_String a \<noteq> req_String b"
  using assms req_String_inj unfolding workers_ok_def by blast

lemma Work_workers_ok:
  assumes "api_names_ok e" and "workers_ok r ws" and "ws req = Some st" and "worker_step e sched choice req st r = Some (st', r')"
  shows "workers_ok r' (ws(req \<mapsto> st'))"
proof -
  have m: "rec_AdmissionMap r' = stage_admissions st (rec_AdmissionMap r)" "rec_maxParallel r' = rec_maxParallel r"
    using worker_step_maps [OF assms(4)] by simp_all
  have st: "request_name_ok req" "for_name (req_String req) st" "was_admitted st \<Longrightarrow> abs_adm r (req_String req) \<noteq> None"
    using assms(2,3) by (auto simp: workers_ok_def)
  have new: "for_name (req_String req) st'" "was_admitted st' \<Longrightarrow> abs_adm r' (req_String req) \<noteq> None"
    using worker_step_name [OF assms(1,4) st(2)] worker_step_admits [OF assms(4) st(2,3)] m(1) by auto
  have "request_name_ok q \<and> for_name (req_String q) sq \<and> (was_admitted sq \<longrightarrow> abs_adm r' (req_String q) \<noteq> None)"
    if "ws q = Some sq" "q \<noteq> req" for q sq
    using assms(2) that stage_admissions_other [OF st(2)] other_name [OF assms(2) that(1) assms(3) that(2)] m(1)
    unfolding workers_ok_def by metis
  with new st(1) have all: "\<forall>q sq. (ws(req \<mapsto> st')) q = Some sq \<longrightarrow> request_name_ok q \<and> for_name (req_String q) sq \<and>
      (was_admitted sq \<longrightarrow> abs_adm r' (req_String q) \<noteq> None)" by simp
  have "dom (ws(req \<mapsto> st')) = dom ws" using assms(3) by auto
  with all assms(2) m(2) show ?thesis unfolding workers_ok_def MaxConcurrentReconciles_def by metis
qed

lemma Work_locks_ok:
  assumes "workers_ok r ws" and "locks_ok r ws" and "ws req = Some st" and "worker_step e sched choice req st r = Some (st', r')"
  shows "locks_ok r' (ws(req \<mapsto> st'))"
proof -
  let ?n = "req_String req"
  have m: "rec_ReconcileMap r' = stage_locks st (rec_ReconcileMap r)" using worker_step_maps [OF assms(4)] by simp
  have st: "for_name ?n st" "(sm_Load (rec_ReconcileMap r) ?n \<noteq> None) = has_lock st"
    using assms(1-3) by (auto simp: workers_ok_def locks_ok_def)
  have own: "(sm_Load (rec_ReconcileMap r') ?n \<noteq> None) = has_lock st'" using worker_step_lock [OF assms(4) st] m by simp
  have other: "sm_Load (rec_ReconcileMap r') k = sm_Load (rec_ReconcileMap r) k" if "k \<noteq> ?n" for k
    using stage_locks_other [OF st(1) that] m by simp
  show ?thesis unfolding locks_ok_def
  proof (intro conjI allI impI)
    fix q sq assume "(ws(req \<mapsto> st')) q = Some sq"
    then show "(sm_Load (rec_ReconcileMap r') (req_String q) \<noteq> None) = has_lock sq"
      using own other assms(2) other_name [OF assms(1) _ assms(3)] by (cases "q = req") (auto simp: locks_ok_def)
  next
    fix k assume k: "sm_Load (rec_ReconcileMap r') k \<noteq> None"
    show "\<exists>q sq. (ws(req \<mapsto> st')) q = Some sq \<and> has_lock sq \<and> req_String q = k"
    proof (cases "k = ?n")
      case True
      then show ?thesis using k own by auto
    next
      case False
      then obtain q sq where "ws q = Some sq" "has_lock sq" "req_String q = k" using k other [OF False] assms(2) by (auto simp: locks_ok_def)
      moreover then have "q \<noteq> req" using False by auto
      ultimately show ?thesis by auto
    qed
  qed
qed

lemma Dequeue_ok:
  assumes "workers_ok r ws" and "locks_ok r ws" and "ws req = None" and "card (dom ws) < MaxConcurrentReconciles r"
    and "request_name_ok req"
  shows "workers_ok r (ws(req \<mapsto> Getting))" and "locks_ok r (ws(req \<mapsto> Getting))"
proof -
  show "workers_ok r (ws(req \<mapsto> Getting))"
    using assms(1,4,5) by (simp add: workers_ok_def card_insert_if)
  have free: "sm_Load (rec_ReconcileMap r) (req_String req) = None"
    using assms(1,2,3,5) unfolding locks_ok_def workers_ok_def by (metis option.distinct(1) req_String_inj)
  show "locks_ok r (ws(req \<mapsto> Getting))" unfolding locks_ok_def
  proof (intro conjI allI impI)
    fix q sq assume "(ws(req \<mapsto> Getting)) q = Some sq"
    then show "(sm_Load (rec_ReconcileMap r) (req_String q) \<noteq> None) = has_lock sq"
      using free assms(2) by (cases "q = req") (auto simp: locks_ok_def)
  next
    fix k assume "sm_Load (rec_ReconcileMap r) k \<noteq> None"
    then obtain q sq where "ws q = Some sq" "has_lock sq" "req_String q = k" using assms(2) unfolding locks_ok_def by blast
    then show "\<exists>q sq. (ws(req \<mapsto> Getting)) q = Some sq \<and> has_lock sq \<and> req_String q = k"
      using assms(3) by (intro exI [of _ q] exI [of _ sq]) auto
  qed
qed

lemma workers_locks_cong:
  assumes "rec_AdmissionMap r' = rec_AdmissionMap r" and "rec_ReconcileMap r' = rec_ReconcileMap r"
    and "rec_maxParallel r' = rec_maxParallel r"
  shows "workers_ok r' ws = workers_ok r ws" and "locks_ok r' ws = locks_ok r ws"
  unfolding workers_ok_def locks_ok_def MaxConcurrentReconciles_def assms by (rule refl)+

lemma con_step_inv:
  assumes "api_names_ok e" and "con_step e s s'" and "con_inv s"
  shows "rec_maxParallel (fst s') = rec_maxParallel (fst s) \<and> con_inv s'"
  using assms(2)
proof cases
  case (Dequeue ws req r)
  then show ?thesis using assms(3) Dequeue_ok [OF _ _ Dequeue(3-5)] by (simp add: con_inv_simp)
next
  case (Work ws req st sched choice r st' r')
  then have inv: "locks_ok r ws" "workers_ok r ws" "map_ok (rec_AdmissionMap r)" "drains_ok r" using assms(3) by (simp_all add: con_inv_simp)
  show ?thesis
    using Work_workers_ok [OF assms(1) inv(2) Work(3,4)] Work_locks_ok [OF inv(2,1) Work(3,4)] worker_step_maps [OF Work(4)]
      stage_admissions_ok [OF inv(3)] worker_step_drains [OF Work(4) inv(4)] by (simp add: Work(1,2) con_inv_simp)
next
  case (Finish ws req res r)
  have "locks_ok r ws" "workers_ok r ws" "map_ok (rec_AdmissionMap r)" "drains_ok r" using assms(3) Finish(1) by (simp_all add: con_inv_simp)
  moreover from this(1) Finish(3) have "locks_ok r (ws(req := None))"
    unfolding locks_ok_def by (metis fun_upd_other fun_upd_same has_lock.simps(5) option.distinct(1))
  moreover have "card (dom ws - {req}) \<le> card (dom ws)" by (simp add: card_Diff1_le)
  ultimately show ?thesis using Finish by (auto simp: con_inv_simp workers_ok_def)
next
  case (Node obj r reqs r' ws)
  note frame = node_requests_frame [OF Node(3)]
  then show ?thesis using assms(3) workers_locks_cong [OF frame(2,3,1), of ws] by (simp add: Node(1,2) con_inv_simp drains_ok_def)
next
  case (Job r name dm i c ws)
  have "dm_ok (ctx_DrainManager c)" using job_step_dm_ok [OF Job(4)] assms(3) Job(1,3) by (simp add: con_inv_simp drains_ok_def)
  then have "drains_ok (keep_ctx name [] c r)"
    using drains_stored [of "rec_DrainMapper r" "ctx_DrainManager c" name] assms(3) Job(1) by (simp add: con_inv_simp drains_ok_def)
  then show ?thesis using assms(3) workers_locks_cong [of "keep_ctx name [] c r" r ws] by (simp add: Job(1,2) con_inv_simp)
qed

interpretation con: invariant_system
  "\<lambda>s. started (fst s) \<and> rec_maxParallel (fst s) = mx \<and> snd s = Map.empty" "\<lambda>s s'. api_names_ok e \<and> con_step e s s'"
  "\<lambda>s. rec_maxParallel (fst s) = mx \<and> con_inv s" for e mx
proof
  fix s :: "reconciler \<times> workers" assume "started (fst s) \<and> rec_maxParallel (fst s) = mx \<and> snd s = Map.empty"
  then show "rec_maxParallel (fst s) = mx \<and> con_inv s"
    by (simp add: con_inv_def started_def locks_ok_def workers_ok_def drains_ok_def case_prod_beta sm_Load_def)
next
  fix s s' assume "rec_maxParallel (fst s) = mx \<and> con_inv s" "api_names_ok e \<and> con_step e s s'"
  then show "rec_maxParallel (fst s') = mx \<and> con_inv s'" using con_step_inv by blast
qed

lemma con_reachable:
  assumes "started r0" and "api_names_ok e" and "(con_step e)\<^sup>*\<^sup>* (r0, Map.empty) (r, ws)"
  shows "rec_maxParallel r = rec_maxParallel r0" and "con_inv (r, ws)"
proof -
  have "(\<lambda>s s'. api_names_ok e \<and> con_step e s s')\<^sup>*\<^sup>* (r0, Map.empty) (r, ws)" using assms(2,3) by simp
  then have "rec_maxParallel (fst (r, ws)) = rec_maxParallel r0 \<and> con_inv (r, ws)"
    by (rule con.inv_reachable [rotated]) (simp add: assms(1))
  then show "rec_maxParallel r = rec_maxParallel r0" and "con_inv (r, ws)" by simp_all
qed

section \<open>The limit under concurrency\<close>

text \<open>
  The upgrades that a worker may still add to the admission map: the one it was cleared to admit, or
  the running ones it has listed, of which there are at most \<open>L\<close>.
\<close>

definition running :: "RollingUpgrade list \<Rightarrow> nat" where
  "running items = length (filter (\<lambda>cr. CurrentStatus cr = StatusRunning) items)"

definition lists_at_most :: "nat \<Rightarrow> env \<Rightarrow> bool" where
  "lists_at_most L e \<longleftrightarrow> (\<forall>h items. env_ListRollingUpgrades e h = Inr items \<longrightarrow> running items \<le> L)"

fun owes :: "nat \<Rightarrow> admissions \<Rightarrow> stage \<Rightarrow> nat" where
  "owes L A (Listing ru) = L"
| "owes L A (Readmitting ru items) = running items"
| "owes L A (Admitting ru) = (if A (NamespacedName ru) = None then 1 else 0)"
| "owes L A _ = 0"

fun listed_at_most :: "nat \<Rightarrow> stage \<Rightarrow> bool" where
  "listed_at_most L (Readmitting ru items) = (running items \<le> L)"
| "listed_at_most L _ = True"

definition debt :: "nat \<Rightarrow> reconciler \<Rightarrow> workers \<Rightarrow> nat" where
  "debt L r ws = length (rec_AdmissionMap r) + (\<Sum>q \<in> dom ws. owes L (abs_adm r) (the (ws q)))"

definition debt_ok :: "nat \<Rightarrow> reconciler \<times> workers \<Rightarrow> bool" where
  "debt_ok L s \<longleftrightarrow> (case s of (r, ws) \<Rightarrow> (\<forall>st \<in> ran ws. listed_at_most L st) \<and>
     debt L r ws < nat (rec_maxParallel r) + nat (rec_maxParallel r) * max 1 L)"

lemma owes_le: "listed_at_most L st \<Longrightarrow> owes L A st \<le> max 1 L"
  by (cases "(L, A, st)" rule: owes.cases) auto

lemma after_get_owes [simp]: "owes L A (after_get ru) = 0" "listed_at_most L (after_get ru)"
  by (simp_all add: after_get_def case_prod_beta Let_def)

lemma worker_step_listed:
  assumes "worker_step e sched choice req st r = Some (st', r')" and "lists_at_most L e" and "listed_at_most L st"
  shows "listed_at_most L st'"
  using assms
  by (cases rule: worker_step.cases [of "(e, sched, choice, req, st, r)"])
    (auto simp: lists_at_most_def running_def case_prod_beta Let_def Option.bind_eq_Some_conv split: sum.splits if_splits)

text \<open>A stage either pays what it adds, or it has just seen that the limit is not reached.\<close>

fun adds_nothing :: "stage \<Rightarrow> bool" where
  "adds_nothing (Restoring _) = False"
| "adds_nothing (Listing _) = False"
| "adds_nothing (Readmitting _ _) = False"
| "adds_nothing (CheckingLimit _) = False"
| "adds_nothing (CheckingAdmitted _) = False"
| "adds_nothing (Admitting _) = False"
| "adds_nothing _ = True"

lemma adds_nothing_owes:
  assumes "worker_step e sched choice req st r = Some (st', r')" and "adds_nothing st"
  shows "owes L A st' = 0"
  using assms
  by (cases rule: worker_step.cases [of "(e, sched, choice, req, st, r)"])
    (auto simp: case_prod_beta Let_def Option.bind_eq_Some_conv split: sum.splits if_splits)

lemma adds_nothing_length:
  assumes "adds_nothing st" and "map_ok m"
  shows "length (stage_admissions st m) \<le> length m"
  using assms sm.size_delete_le [OF assms(2)] by (cases "(st, m)" rule: stage_admissions.cases) simp_all

lemma worker_step_pays:
  assumes "worker_step e sched choice req st r = Some (st', r')" and "map_ok (rec_AdmissionMap r)" and "1 \<le> rec_maxParallel r"
    and "lists_at_most L e"
  shows "length (rec_AdmissionMap r') + owes L (abs_adm r') st' \<le> length (rec_AdmissionMap r) + owes L (abs_adm r) st \<or>
    rec_AdmissionMap r' = rec_AdmissionMap r \<and> length (rec_AdmissionMap r) < nat (rec_maxParallel r)"
proof (cases "adds_nothing st")
  case True
  then show ?thesis
    using adds_nothing_owes [OF assms(1) True] adds_nothing_length [OF True assms(2)] worker_step_maps [OF assms(1)]
    by (simp add: trans_le_add1)
next
  case False
  note store = sm.size_store_fresh [OF assms(2)] sm.size_store_present [OF assms(2)]
  from False show ?thesis
  proof (cases st rule: adds_nothing.cases)
    case (2 ru)
    then show ?thesis using assms(1,4) by (auto simp: lists_at_most_def running_def split: sum.splits)
  next
    case (3 ru items)
    show ?thesis
    proof (cases items)
      case (Cons cr rest)
      then show ?thesis using 3 assms(1) store by (cases "abs_adm r (NamespacedName cr)") (auto simp: running_def)
    qed (use 3 assms(1) in auto)
  next
    case (6 ru)
    then show ?thesis using assms(1) store by (cases "abs_adm r (NamespacedName ru)") (auto simp: sm_LoadOrStore_def)
  qed (use assms(1,3) in \<open>auto simp: GetSyncMapLen_length split: if_splits\<close>)
qed

text \<open>What the other workers owe does not grow.\<close>

lemma others_owe:
  assumes "workers_ok r ws" and "ws req = Some st" and "worker_step e sched choice req st r = Some (st', r')"
    and "q \<in> dom ws - {req}"
  shows "owes L (abs_adm r') (the (ws q)) \<le> owes L (abs_adm r) (the (ws q))"
proof -
  obtain sq where q: "ws q = Some sq" "q \<noteq> req" using assms(4) by auto
  have names: "for_name (req_String req) st" "for_name (req_String q) sq" using assms(1,2) q(1) by (auto simp: workers_ok_def)
  have "abs_adm r' (req_String q) = None \<longrightarrow> abs_adm r (req_String q) = None"
    using worker_step_maps [OF assms(3)]
      stage_admissions_other [OF names(1) other_name [OF assms(1) q(1) assms(2) q(2)], of "rec_AdmissionMap r"] by metis
  then show ?thesis using q(1) names(2) by (cases sq) auto
qed

lemma Work_debt:
  assumes "workers_ok r ws" and "map_ok (rec_AdmissionMap r)" and "1 \<le> rec_maxParallel r" and "lists_at_most L e"
    and "debt_ok L (r, ws)" and "ws req = Some st" and "worker_step e sched choice req st r = Some (st', r')"
  shows "debt_ok L (r', ws(req \<mapsto> st'))"
proof -
  let ?W = "nat (rec_maxParallel r)" and ?D = "dom ws - {req}"
  let ?others = "\<lambda>r. \<Sum>q \<in> ?D. owes L (abs_adm r) (the (ws q))"
  have fin: "finite (dom ws)" and few: "card (dom ws) \<le> ?W" using assms(1,3) by (simp_all add: workers_ok_def MaxConcurrentReconciles_def)
  have req: "req \<in> dom ws" using assms(6) by auto
  have listed: "\<forall>st \<in> ran ws. listed_at_most L st" using assms(5) by (simp add: debt_ok_def)
  have st': "listed_at_most L st'" using worker_step_listed [OF assms(7,4)] listed assms(6) by (auto intro: ranI)
  have before: "debt L r ws = length (rec_AdmissionMap r) + (owes L (abs_adm r) st + ?others r)"
    using sum.remove [OF fin req, of "\<lambda>q. owes L (abs_adm r) (the (ws q))"] assms(6) by (simp add: debt_def)
  have "dom (ws(req \<mapsto> st')) = dom ws" "(\<Sum>q \<in> ?D. owes L (abs_adm r') (the ((ws(req \<mapsto> st')) q))) = ?others r'"
    using req by (auto intro: sum.cong)
  then have after: "debt L r' (ws(req \<mapsto> st')) = length (rec_AdmissionMap r') + (owes L (abs_adm r') st' + ?others r')"
    using sum.remove [OF fin req, of "\<lambda>q. owes L (abs_adm r') (the ((ws(req \<mapsto> st')) q))"] by (simp add: debt_def)
  have others: "?others r' \<le> ?others r" by (rule sum_mono) (rule others_owe [OF assms(1,6,7)])
  have "debt L r' (ws(req \<mapsto> st')) < ?W + ?W * max 1 L"
    using worker_step_pays [OF assms(7,2,3,4)]
  proof
    assume "length (rec_AdmissionMap r') + owes L (abs_adm r') st' \<le> length (rec_AdmissionMap r) + owes L (abs_adm r) st"
    then show ?thesis using before after others assms(5) by (simp add: debt_ok_def)
  next
    assume room: "rec_AdmissionMap r' = rec_AdmissionMap r \<and> length (rec_AdmissionMap r) < ?W"
    have "?others r' \<le> card ?D * max 1 L"
    proof -
      have "owes L (abs_adm r') (the (ws q)) \<le> max 1 L" if "q \<in> ?D" for q
      proof -
        from that have "the (ws q) \<in> ran ws" by (auto intro: ranI)
        then show ?thesis using owes_le listed by blast
      qed
      from sum_bounded_above [of ?D "\<lambda>q. owes L (abs_adm r') (the (ws q))", OF this] show ?thesis by simp
    qed
    moreover have "card ?D * max 1 L + max 1 L \<le> ?W * max 1 L"
    proof -
      have "card ?D + 1 \<le> ?W" using few card_Suc_Diff1 [OF fin req] by simp
      from mult_le_mono1 [OF this, of "max 1 L"] show ?thesis by (simp only: add_mult_distrib mult_1)
    qed
    moreover have "length (rec_AdmissionMap r') < ?W" using room by simp
    moreover have "n < w \<Longrightarrow> a \<le> m \<Longrightarrow> s \<le> p \<Longrightarrow> p + m \<le> u \<Longrightarrow> n + (a + s) < w + u" for n w a m s p u :: nat by linarith
    ultimately show ?thesis unfolding after using owes_le [OF st', of "abs_adm r'"] by blast
  qed
  moreover have "\<forall>s \<in> ran (ws(req \<mapsto> st')). listed_at_most L s"
    using listed st' by (auto simp: ran_def split: if_splits)
  ultimately show ?thesis using worker_step_maps [OF assms(7)] by (simp add: debt_ok_def)
qed

lemma con_step_debt:
  assumes "con_step e s s'" and "con_inv s" and "1 \<le> rec_maxParallel (fst s)" and "lists_at_most L e" and "debt_ok L s"
  shows "debt_ok L s'"
  using assms(1)
proof cases
  case (Dequeue ws req r)
  have "finite (dom ws)" using assms(2) Dequeue(1) by (simp add: con_inv_simp workers_ok_def)
  moreover have "(\<Sum>q \<in> dom ws. owes L (abs_adm r) (the ((ws(req \<mapsto> Getting)) q))) = (\<Sum>q \<in> dom ws. owes L (abs_adm r) (the (ws q)))"
    using Dequeue(3) by (intro sum.cong) auto
  moreover have "ran (ws(req \<mapsto> Getting)) = insert Getting (ran ws)" using Dequeue(3) by simp
  ultimately show ?thesis using assms(5) Dequeue by (simp add: debt_ok_def debt_def domIff)
next
  case (Work ws req st sched choice r st' r')
  show ?thesis using assms(2-5) unfolding Work(1,2) con_inv_simp fst_conv by (intro Work_debt [where ws = ws and req = req, OF _ _ _ _ _ Work(3,4)]) simp_all
next
  case (Finish ws req res r)
  have "(\<Sum>q \<in> dom ws - {req}. owes L (abs_adm r) (the ((ws(req := None)) q))) = (\<Sum>q \<in> dom ws - {req}. owes L (abs_adm r) (the (ws q)))"
    by (intro sum.cong) auto
  also have "\<dots> \<le> (\<Sum>q \<in> dom ws. owes L (abs_adm r) (the (ws q)))"
    using assms(2) Finish(1) by (intro sum_mono2) (auto simp: con_inv_simp workers_ok_def)
  finally have "debt L r (ws(req := None)) \<le> debt L r ws" by (simp add: debt_def)
  moreover have "ran (ws(req := None)) \<subseteq> ran ws" by (auto simp: ran_def split: if_splits)
  ultimately show ?thesis using assms(5) Finish(1,2) by (auto simp: debt_ok_def)
next
  case (Node obj r reqs r' ws)
  then show ?thesis using assms(5) node_requests_frame [OF Node(3)] by (simp add: debt_ok_def debt_def)
next
  case (Job r name dm i c ws)
  then show ?thesis using assms(5) by (simp add: debt_ok_def debt_def)
qed

interpretation debts: invariant_system
  "\<lambda>s. started (fst s) \<and> 1 \<le> rec_maxParallel (fst s) \<and> rec_maxParallel (fst s) = mx \<and> snd s = Map.empty"
  "\<lambda>s s'. api_names_ok e \<and> lists_at_most L e \<and> con_step e s s'"
  "\<lambda>s. 1 \<le> mx \<and> rec_maxParallel (fst s) = mx \<and> con_inv s \<and> debt_ok L s" for e mx L
proof
  fix s :: "reconciler \<times> workers"
  assume s: "started (fst s) \<and> 1 \<le> rec_maxParallel (fst s) \<and> rec_maxParallel (fst s) = mx \<and> snd s = Map.empty"
  then have "con_inv s" using con.inv_init [of s mx] by simp
  moreover have "debt_ok L s" using s by (cases s) (simp add: debt_ok_def debt_def started_def)
  ultimately show "1 \<le> mx \<and> rec_maxParallel (fst s) = mx \<and> con_inv s \<and> debt_ok L s" using s by simp
next
  fix s s' assume "1 \<le> mx \<and> rec_maxParallel (fst s) = mx \<and> con_inv s \<and> debt_ok L s"
    "api_names_ok e \<and> lists_at_most L e \<and> con_step e s s'"
  then show "1 \<le> mx \<and> rec_maxParallel (fst s') = mx \<and> con_inv s' \<and> debt_ok L s'"
    using con_step_inv con_step_debt by blast
qed

section \<open>Properties\<close>

text \<open>C2: over every run of the concurrent workers: there are no more of them than upgrades may run in
  parallel; the lock of an upgrade is free when a worker comes to take it, and is held while the worker
  rotates nodes; an upgrade whose nodes are rotated is in the admission map, and no two workers rotate the
  nodes of the same upgrade; no lock is left when no worker runs; and every wait group counts the
  unfinished goroutines.\<close>

theorem concurrent_workers:
  assumes "started r0" and "api_names_ok e" and "(con_step e)\<^sup>*\<^sup>* (r0, Map.empty) (r, ws)"
  shows "card (dom ws) \<le> MaxConcurrentReconciles r0 \<and>
    (\<forall>req ru. ws req = Some (Locking ru) \<longrightarrow> sm_Load (rec_ReconcileMap r) (NamespacedName ru) = None) \<and>
    (\<forall>req ru. ws req = Some (Rotating ru) \<longrightarrow>
       sm_Load (rec_AdmissionMap r) (NamespacedName ru) \<noteq> None \<and> sm_Load (rec_ReconcileMap r) (NamespacedName ru) \<noteq> None) \<and>
    (\<forall>a b ru ru'. ws a = Some (Rotating ru) \<longrightarrow> ws b = Some (Rotating ru') \<longrightarrow> a \<noteq> b \<longrightarrow> NamespacedName ru \<noteq> NamespacedName ru') \<and>
    (ws = Map.empty \<longrightarrow> (\<forall>k. sm_Load (rec_ReconcileMap r) k = None)) \<and>
    (\<forall>name dm. sm_Load (rec_DrainMapper r) name = Some dm \<longrightarrow>
       dm_DrainGroup dm = int (length (filter (\<lambda>j. job_pc j \<noteq> Finished) (dm_jobs dm))))"
proof -
  have max: "rec_maxParallel r = rec_maxParallel r0" and inv: "workers_ok r ws" "locks_ok r ws" "drains_ok r"
    using con_reachable [OF assms] by (simp_all add: con_inv_simp)
  have named: "for_name (req_String req) st" "was_admitted st \<Longrightarrow> abs_adm r (req_String req) \<noteq> None"
      "(sm_Load (rec_ReconcileMap r) (req_String req) \<noteq> None) = has_lock st" if "ws req = Some st" for req st
    using inv(1,2) that by (auto simp: workers_ok_def locks_ok_def)
  show ?thesis
  proof (intro conjI allI impI)
    have "MaxConcurrentReconciles r = MaxConcurrentReconciles r0" by (simp add: MaxConcurrentReconciles_def max)
    then show "card (dom ws) \<le> MaxConcurrentReconciles r0" using inv(1) by (simp add: workers_ok_def)
  next
    fix req ru assume "ws req = Some (Locking ru)"
    from named [OF this] show "sm_Load (rec_ReconcileMap r) (NamespacedName ru) = None" by auto
  next
    fix req ru assume "ws req = Some (Rotating ru)"
    from named [OF this] show "abs_adm r (NamespacedName ru) \<noteq> None" "sm_Load (rec_ReconcileMap r) (NamespacedName ru) \<noteq> None" by auto
  next
    fix a b ru ru' assume ab: "ws a = Some (Rotating ru)" "ws b = Some (Rotating ru')" "a \<noteq> b"
    then show "NamespacedName ru \<noteq> NamespacedName ru'"
      using other_name [OF inv(1) ab] named(1) [OF ab(1)] named(1) [OF ab(2)] by simp
  next
    fix k assume "ws = Map.empty"
    then show "sm_Load (rec_ReconcileMap r) k = None" using inv(2) by (auto simp: locks_ok_def)
  next
    fix name dm assume "sm_Load (rec_DrainMapper r) name = Some dm"
    then show "dm_DrainGroup dm = int (length (filter (\<lambda>j. job_pc j \<noteq> Finished) (dm_jobs dm)))"
      using inv(3) by (simp add: drains_ok_def dm_ok_def)
  qed
qed

text \<open>C16: the workers check the limit and admit in separate steps, but the number of admitted upgrades is
  bounded: if the API never lists more than \<open>L\<close> running upgrades, less than \<open>mx + mx * max 1 L\<close> upgrades are ever
  admitted when \<open>max-parallel\<close> is \<open>mx\<close>, at least 1. With \<open>max-parallel\<close> 1, that is one worker, and at most one listed
  running upgrade there is never more than one, and so no two for the same group.\<close>

theorem concurrent_admissions_bounded:
  assumes "started r0" and "1 \<le> rec_maxParallel r0" and "api_names_ok e" and "lists_at_most L e"
    and "(con_step e)\<^sup>*\<^sup>* (r0, Map.empty) (r, ws)"
  shows "GetSyncMapLen (rec_AdmissionMap r) < rec_maxParallel r0 + rec_maxParallel r0 * max 1 (int L) \<and>
    (rec_maxParallel r0 = 1 \<and> L \<le> 1 \<longrightarrow> GetSyncMapLen (rec_AdmissionMap r) \<le> 1 \<and> exclusive (abs_adm r))"
proof -
  have "(\<lambda>s s'. api_names_ok e \<and> lists_at_most L e \<and> con_step e s s')\<^sup>*\<^sup>* (r0, Map.empty) (r, ws)" using assms(3-5) by simp
  then have "rec_maxParallel (fst (r, ws)) = rec_maxParallel r0 \<and> con_inv (r, ws) \<and> debt_ok L (r, ws)"
    using debts.inv_reachable [of "(r0, Map.empty)" "rec_maxParallel r0" e L "(r, ws)"] assms(1,2) by simp
  then have max: "rec_maxParallel r = rec_maxParallel r0" and ok: "map_ok (rec_AdmissionMap r)"
    and "length (rec_AdmissionMap r) < nat (rec_maxParallel r) + nat (rec_maxParallel r) * max 1 L"
    by (auto simp: con_inv_simp debt_ok_def debt_def)
  then have "int (length (rec_AdmissionMap r)) < int (nat (rec_maxParallel r0) + nat (rec_maxParallel r0) * max 1 L)"
    by (simp only: of_nat_less_iff max)
  also have "\<dots> = rec_maxParallel r0 + rec_maxParallel r0 * max 1 (int L)" using assms(2) by (simp add: of_nat_max)
  finally have bound: "GetSyncMapLen (rec_AdmissionMap r) < rec_maxParallel r0 + rec_maxParallel r0 * max 1 (int L)"
    by (simp add: GetSyncMapLen_length)
  moreover have "exclusive (abs_adm r)" if "length (rec_AdmissionMap r) \<le> 1"
  proof -
    have "k = k'" if "abs_adm r k = Some g" "abs_adm r k' = Some g'" for k g k' g'
      using that \<open>length (rec_AdmissionMap r) \<le> 1\<close> by (cases "rec_AdmissionMap r") (auto simp: sm_Load_def split: if_splits)
    then show ?thesis unfolding exclusive_def using fold.eqf_refl by metis
  qed
  ultimately show ?thesis by (auto simp: GetSyncMapLen_length)
qed

text \<open>Steps of one worker while the others stand still.\<close>

definition works :: "env \<Rightarrow> Request \<Rightarrow> stage \<times> reconciler \<Rightarrow> stage \<times> reconciler \<Rightarrow> bool" where
  "works e req = (\<lambda>s s'. \<exists>sched choice. worker_step e sched choice req (fst s) (snd s) = Some s')\<^sup>*\<^sup>*"

lemma works_next: "worker_step e sched choice req st r = Some s \<Longrightarrow> works e req s t \<Longrightarrow> works e req (st, r) t"
  unfolding works_def by (rule converse_rtranclp_into_rtranclp [of _ _ s]) auto

lemmas works_step = works_next [where sched = "[]" and choice = DoneCase]

lemma works_refl [simp]: "works e req s s"
  by (simp add: works_def)

lemma works_lift:
  assumes "works e req (st, r) (st', r')" and "ws req = Some st"
  shows "(con_step e)\<^sup>*\<^sup>* (r, ws) (r', ws(req \<mapsto> st'))"
proof -
  have "(con_step e)\<^sup>*\<^sup>* (r, ws) (snd s, ws(req \<mapsto> fst s))"
    if "(\<lambda>s s'. \<exists>sched choice. worker_step e sched choice req (fst s) (snd s) = Some s')\<^sup>*\<^sup>* (st, r) s" for s
    using that
  proof (induction rule: rtranclp_induct)
    case base
    then show ?case using assms(2) by (simp add: fun_upd_idem)
  next
    case (step s s')
    then obtain sched choice where "worker_step e sched choice req (fst s) (snd s) = Some (fst s', snd s')" by auto
    then have "con_step e (snd s, ws(req \<mapsto> fst s)) (snd s', (ws(req \<mapsto> fst s))(req \<mapsto> fst s'))" by (intro con_step.Work) simp_all
    then have "con_step e (snd s, ws(req \<mapsto> fst s)) (snd s', ws(req \<mapsto> fst s'))" by (simp only: fun_upd_upd)
    with step.IH show ?case by (rule rtranclp.rtrancl_into_rtrancl)
  qed
  then show ?thesis using assms(1) by (force simp: works_def)
qed

text \<open>A worker with a valid resource passes the checks on an empty admission map.\<close>

definition ready_to_run :: "RollingUpgrade \<Rightarrow> bool" where
  "ready_to_run ru \<longleftrightarrow> \<not> being_deleted ru \<and> \<not> ContainsEqualFold FiniteStates (CurrentStatus ru) \<and>
     strategy_acceptable (spec_Strategy (ru_Spec ru))"

lemma works_through_checks:
  assumes "env_ListRollingUpgrades e (hist r) = Inr []" and "rec_AdmissionMap r = []" and "1 \<le> rec_maxParallel r"
  shows "works e req (Restoring ru, r) (Admitting ru, log_event EvListRollingUpgrades r)"
proof -
  let ?r = "log_event EvListRollingUpgrades r"
  have "works e req (CheckingGroup ru, ?r) (Admitting ru, ?r)"
    using assms(2,3)
    by (intro works_step [of _ _ "CheckingGroup ru" _ "(CheckingLimit ru, ?r)"] works_step [of _ _ "CheckingLimit ru" _ "(Admitting ru, ?r)"])
      (simp_all add: GetSyncMapLen_length group_taken_def sm_Range_any_def)
  then have "works e req (Listing ru, r) (Admitting ru, ?r)"
    using assms(1)
    by (intro works_step [of _ _ "Listing ru" _ "(Readmitting ru [], ?r)"] works_step [of _ _ "Readmitting ru []" _ "(CheckingGroup ru, ?r)"])
      simp_all
  then show ?thesis
    using assms(2) by (intro works_step [of _ _ "Restoring ru" _ "(Listing ru, r)"]) (simp_all add: GetSyncMapLen_length)
qed

lemma works_trans: "works e req s t \<Longrightarrow> works e req t u \<Longrightarrow> works e req s u"
  unfolding works_def by (rule rtranclp_trans)

lemma works_to_Restoring:
  assumes "\<And>h. env_GetRollingUpgrade e h (req_String req) = Inr ru" and "ready_to_run ru"
    and "sm_Load (rec_ReconcileMap r) (NamespacedName ru) = None"
  shows "\<exists>ru' r'. works e req (Getting, r) (Restoring ru', r') \<and> NamespacedName ru' = NamespacedName ru \<and>
    ScalingGroupName ru' = ScalingGroupName ru \<and> rec_AdmissionMap r' = rec_AdmissionMap r \<and> rec_maxParallel r' = rec_maxParallel r \<and>
    rec_ClusterNodesMap r' = rec_ClusterNodesMap r \<and>
    sm_Load (rec_ReconcileMap r') = (sm_Load (rec_ReconcileMap r))(NamespacedName ru \<mapsto> ScalingGroupName ru)"
proof -
  obtain r1 where g: "Get e req r = (Inr ru, r1)" "rec_ReconcileMap r1 = rec_ReconcileMap r"
      "rec_ClusterNodesMap r1 = rec_ClusterNodesMap r" "rec_AdmissionMap r1 = rec_AdmissionMap r" "rec_maxParallel r1 = rec_maxParallel r"
    using assms(1) by (simp add: Get_def Let_def)
  let ?ru = "upd_strategy complete_strategy ru"
  have n: "NamespacedName ?ru = NamespacedName ru" "ScalingGroupName ?ru = ScalingGroupName ru"
    by (simp_all add: NamespacedName_def ScalingGroupName_def)
  let ?ru' = "ready_ru ?ru r1" and ?r2 = "locked ?ru r1"
  have free: "sm_LoadOrStore (NamespacedName ru) (ScalingGroupName ru) (rec_ReconcileMap r1) =
      (ScalingGroupName ru, False, sm_Store (NamespacedName ru) (ScalingGroupName ru) (rec_ReconcileMap r1))"
    using assms(3) g(2) by (intro sm.load_or_store_fresh) simp
  have v: "after_get ru = Locking ?ru"
    using assms(2) Validate_accepts [of ru] by (simp add: after_get_def ready_to_run_def)
  have "worker_step e [] DoneCase req (Locking ?ru) r1 = Some (Restoring ?ru', ?r2)"
    using free by (simp add: case_prod_beta Let_def n locked_def)
  from works_step [OF this works_refl] have "works e req (Getting, r) (Restoring ?ru', ?r2)"
    using g(1) v by (intro works_step [of _ _ Getting _ "(Locking ?ru, r1)"]) simp_all
  moreover have "sm_Load (rec_ReconcileMap ?r2) = (sm_Load (rec_ReconcileMap r))(NamespacedName ru \<mapsto> ScalingGroupName ru)"
    using free g(2) by (simp add: n sm.load_store)
  moreover have "rec_ClusterNodesMap ?r2 = rec_ClusterNodesMap r" using g(3) by (simp add: locked_def)
  ultimately show ?thesis
    using g(4,5) n by (intro exI [of _ ?ru'] exI [of _ ?r2]) simp
qed

lemma works_to_Admitting:
  assumes "\<And>h. env_GetRollingUpgrade e h (req_String req) = Inr ru" and "ready_to_run ru"
    and "\<And>h. env_ListRollingUpgrades e h = Inr []"
    and "rec_AdmissionMap r = []" and "1 \<le> rec_maxParallel r" and "sm_Load (rec_ReconcileMap r) (NamespacedName ru) = None"
  shows "\<exists>ru' r'. works e req (Getting, r) (Admitting ru', r') \<and> NamespacedName ru' = NamespacedName ru \<and>
    ScalingGroupName ru' = ScalingGroupName ru \<and> rec_AdmissionMap r' = [] \<and> rec_maxParallel r' = rec_maxParallel r \<and>
    rec_ClusterNodesMap r' = rec_ClusterNodesMap r \<and>
    sm_Load (rec_ReconcileMap r') = (sm_Load (rec_ReconcileMap r))(NamespacedName ru \<mapsto> ScalingGroupName ru)"
proof -
  obtain ru' r' where r': "works e req (Getting, r) (Restoring ru', r')" "NamespacedName ru' = NamespacedName ru"
      "ScalingGroupName ru' = ScalingGroupName ru" "rec_AdmissionMap r' = []" "rec_maxParallel r' = rec_maxParallel r"
      "rec_ClusterNodesMap r' = rec_ClusterNodesMap r"
      "sm_Load (rec_ReconcileMap r') = (sm_Load (rec_ReconcileMap r))(NamespacedName ru \<mapsto> ScalingGroupName ru)"
    using works_to_Restoring [OF assms(1,2,6)] assms(4) by auto
  have "works e req (Restoring ru', r') (Admitting ru', log_event EvListRollingUpgrades r')"
    using assms(3,5) r'(4,5) by (intro works_through_checks) simp_all
  from works_trans [OF r'(1) this] show ?thesis
    using r'(2-7) by (intro exI [of _ ru'] exI [of _ "log_event EvListRollingUpgrades r'"]) simp
qed

lemma works_to_Rotating:
  assumes "rec_ClusterNodesMap r \<noteq> []"
  shows "\<exists>r'. works e req (Admitting ru, r) (Rotating ru, r') \<and> rec_AdmissionMap r' = rec_AdmissionMap (admit ru r) \<and>
    rec_ClusterNodesMap r' = rec_ClusterNodesMap r"
proof -
  let ?r = "(admit ru r)\<lparr>rec_DrainMapper := snd (snd (sm_LoadOrStore (NamespacedName ru) NewDrainManager (rec_DrainMapper r)))\<rparr>"
  have nodes: "rec_ClusterNodesMap (admit ru r) = rec_ClusterNodesMap r" by (simp add: admit_def case_prod_beta Let_def)
  obtain n ns where "rec_ClusterNodesMap r = n # ns" using assms by (cases "rec_ClusterNodesMap r") auto
  then have pop: "ensureClusterNodesMapPopulated e ?r = (None, ?r)"
    using nodes by (simp add: ensureClusterNodesMapPopulated_def sm_Range_any_def case_prod_beta)
  have "works e req (Populating ru, ?r) (Rotating ru, ?r)"
    by (rule works_step [of _ _ "Populating ru" _ "(Rotating ru, ?r)"]) (simp_all add: pop)
  then have "works e req (Admitting ru, r) (Rotating ru, ?r)"
    by (intro works_step [of _ _ "Admitting ru" _ "(Attaching ru, admit ru r)"] works_step [of _ _ "Attaching ru" _ "(Populating ru, ?r)"])
      (simp_all add: case_prod_beta Let_def)
  then show ?thesis using nodes by (intro exI [of _ ?r]) simp
qed

text \<open>Two workers that both come to their admission before they go on.\<close>

lemma two_workers:
  assumes "2 \<le> rec_maxParallel r0" and "request_name_ok a" and "request_name_ok b" and "a \<noteq> b"
    and "works e a (Getting, r0) (Admitting ra, r1)" and "rec_maxParallel r1 = rec_maxParallel r0"
    and "works e b (Getting, r1) (Admitting rb, r2)"
    and "works e a (Admitting ra, r2) (Rotating ra, r3)" and "works e b (Admitting rb, r3) (Rotating rb, r4)"
  shows "(con_step e)\<^sup>*\<^sup>* (r0, Map.empty) (r4, [a \<mapsto> Rotating ra, b \<mapsto> Rotating rb])"
proof -
  have "con_step e (r0, Map.empty) (r0, [a \<mapsto> Getting])" using assms(1,2) by (intro con_step.Dequeue) (simp_all add: MaxConcurrentReconciles_def)
  moreover have "(con_step e)\<^sup>*\<^sup>* (r0, [a \<mapsto> Getting]) (r1, [a \<mapsto> Admitting ra])" using works_lift [OF assms(5), of "[a \<mapsto> Getting]"] by simp
  moreover have "con_step e (r1, [a \<mapsto> Admitting ra]) (r1, [a \<mapsto> Admitting ra, b \<mapsto> Getting])"
    using assms(1,3,4,6) by (intro con_step.Dequeue) (simp_all add: MaxConcurrentReconciles_def)
  moreover have "(con_step e)\<^sup>*\<^sup>* (r1, [a \<mapsto> Admitting ra, b \<mapsto> Getting]) (r2, [a \<mapsto> Admitting ra, b \<mapsto> Admitting rb])"
    using works_lift [OF assms(7), of "[a \<mapsto> Admitting ra, b \<mapsto> Getting]"] by simp
  moreover have "(con_step e)\<^sup>*\<^sup>* (r2, [a \<mapsto> Admitting ra, b \<mapsto> Admitting rb]) (r3, [a \<mapsto> Rotating ra, b \<mapsto> Admitting rb])"
    using works_lift [OF assms(8), of "[a \<mapsto> Admitting ra, b \<mapsto> Admitting rb]"] assms(4) by (simp add: fun_upd_twist)
  moreover have "(con_step e)\<^sup>*\<^sup>* (r3, [a \<mapsto> Rotating ra, b \<mapsto> Admitting rb]) (r4, [a \<mapsto> Rotating ra, b \<mapsto> Rotating rb])"
    using works_lift [OF assms(9), of "[a \<mapsto> Rotating ra, b \<mapsto> Admitting rb]"] by simp
  ultimately show ?thesis by (meson converse_rtranclp_into_rtranclp rtranclp_trans)
qed

lemma group_race:
  assumes "started r0" and "2 \<le> rec_maxParallel r0" and "rec_ClusterNodesMap r0 \<noteq> []"
    and "request_name_ok a" and "request_name_ok b"
    and "\<forall>h. env_GetRollingUpgrade e h (req_String a) = Inr ua" and "\<forall>h. env_GetRollingUpgrade e h (req_String b) = Inr ub"
    and "NamespacedName ua = req_String a" and "NamespacedName ub = req_String b" and "\<not> EqualFold (req_String a) (req_String b)"
    and "ready_to_run ua" and "ready_to_run ub" and "ScalingGroupName ub = ScalingGroupName ua"
    and "\<forall>h. env_ListRollingUpgrades e h = Inr []"
  shows "\<exists>r ws ra rb. (con_step e)\<^sup>*\<^sup>* (r0, Map.empty) (r, ws) \<and> ws a = Some (Rotating ra) \<and> ws b = Some (Rotating rb) \<and>
    ScalingGroupName ra = ScalingGroupName ua \<and> ScalingGroupName rb = ScalingGroupName ua \<and>
    abs_adm r (req_String a) = Some (ScalingGroupName ua) \<and> abs_adm r (req_String b) = Some (ScalingGroupName ua) \<and>
    \<not> exclusive (abs_adm r)"
proof -
  let ?g = "ScalingGroupName ua"
  have ne: "req_String a \<noteq> req_String b" using assms(10) fold.eqf_refl by metis
  then have "a \<noteq> b" by auto
  obtain ra r1 where r1: "works e a (Getting, r0) (Admitting ra, r1)" "NamespacedName ra = req_String a" "ScalingGroupName ra = ?g"
      "rec_AdmissionMap r1 = []" "rec_maxParallel r1 = rec_maxParallel r0" "rec_ClusterNodesMap r1 = rec_ClusterNodesMap r0"
      "sm_Load (rec_ReconcileMap r1) = (sm_Load (rec_ReconcileMap r0))(req_String a \<mapsto> ?g)"
    using works_to_Admitting [of e a ua r0] assms(1,2,6,8,11,14) by (auto simp: started_def sm_Load_def)
  obtain rb r2 where r2: "works e b (Getting, r1) (Admitting rb, r2)" "NamespacedName rb = req_String b" "ScalingGroupName rb = ?g"
      "rec_AdmissionMap r2 = []" "rec_ClusterNodesMap r2 = rec_ClusterNodesMap r0"
    using works_to_Admitting [of e b ub r1] assms(1,2,7,9,12-14) r1(4-7) ne by (auto simp: started_def sm_Load_def)
  obtain r3 where r3: "works e a (Admitting ra, r2) (Rotating ra, r3)" "rec_AdmissionMap r3 = rec_AdmissionMap (admit ra r2)"
      "rec_ClusterNodesMap r3 = rec_ClusterNodesMap r0"
    using works_to_Rotating [of r2 e a ra] assms(3) r2(5) by auto
  obtain r4 where r4: "works e b (Admitting rb, r3) (Rotating rb, r4)" "rec_AdmissionMap r4 = rec_AdmissionMap (admit rb r3)"
    using works_to_Rotating [of r3 e b rb] assms(3) r3(3) by auto
  have m: "abs_adm r4 = [req_String a \<mapsto> ?g, req_String b \<mapsto> ?g]"
    using ne r2(2-4) r1(2,3) r3(2) r4(2) by (simp add: sync_map_defs fun_eq_iff)
  let ?ws = "[a \<mapsto> Rotating ra, b \<mapsto> Rotating rb]"
  have "(con_step e)\<^sup>*\<^sup>* (r0, Map.empty) (r4, ?ws)"
    by (rule two_workers [OF assms(2,4,5) \<open>a \<noteq> b\<close> r1(1,5) r2(1) r3(1) r4(1)])
  moreover have "\<not> exclusive (abs_adm r4)"
  proof -
    have "abs_adm r4 (req_String a) = Some ?g" "abs_adm r4 (req_String b) = Some ?g" using m ne by simp_all
    with assms(10) fold.eqf_refl [of ?g] show ?thesis unfolding exclusive_def by blast
  qed
  ultimately show ?thesis
    using m ne \<open>a \<noteq> b\<close> r1(3) r2(3) by (intro exI [of _ r4] exI [of _ ?ws] exI [of _ ra] exI [of _ rb]) simp
qed

text \<open>C34: the checks of the group and of the limit do not exclude each other between workers: two workers for
  different upgrades of the same scaling group can both pass them before either is admitted, and then
  rotate the nodes of the group at the same time.\<close>

theorem concurrent_group_race:
  assumes "started r0" and "2 \<le> rec_maxParallel r0" and "rec_ClusterNodesMap r0 \<noteq> []"
    and "request_name_ok a" and "request_name_ok b"
    and "\<forall>h. env_GetRollingUpgrade e h (req_String a) = Inr ua" and "\<forall>h. env_GetRollingUpgrade e h (req_String b) = Inr ub"
    and "NamespacedName ua = req_String a" and "NamespacedName ub = req_String b" and "\<not> EqualFold (req_String a) (req_String b)"
    and "ready_to_run ua" and "ready_to_run ub" and "ScalingGroupName ub = ScalingGroupName ua"
    and "\<forall>h. env_ListRollingUpgrades e h = Inr []"
  shows "\<exists>r ws ra rb. (con_step e)\<^sup>*\<^sup>* (r0, Map.empty) (r, ws) \<and> ws a = Some (Rotating ra) \<and> ws b = Some (Rotating rb) \<and>
    ScalingGroupName ra = ScalingGroupName ua \<and> ScalingGroupName rb = ScalingGroupName ua \<and>
    abs_adm r (req_String a) = Some (ScalingGroupName ua) \<and> abs_adm r (req_String b) = Some (ScalingGroupName ua) \<and>
    \<not> exclusive (abs_adm r)"
  by (rule group_race) (fact assms)+

text \<open>Two requests for upgrades of one scaling group, and an API that has only these.\<close>

definition other_RollingUpgrade :: RollingUpgrade where
  "other_RollingUpgrade = sample_RollingUpgrade\<lparr>meta_Name := ''other''\<rparr>"

abbreviation other_request :: Request where
  "other_request \<equiv> \<lparr>req_Namespace = ''ns'', req_Name = ''other''\<rparr>"

definition race_env :: env where
  "race_env = rotation_env\<lparr>env_GetRollingUpgrade := \<lambda>h n.
     if n = ''ns/ru'' then Inr sample_RollingUpgrade else if n = ''ns/other'' then Inr other_RollingUpgrade
     else Inl (NotFoundError n), env_ListRollingUpgrades := \<lambda>h. Inr []\<rparr>"

definition race_reconciler :: reconciler where
  "race_reconciler = sample_reconciler\<lparr>rec_maxParallel := 2\<rparr>"

lemma race_sample:
  "started race_reconciler" "rec_maxParallel race_reconciler = 2" "rec_ClusterNodesMap race_reconciler \<noteq> []"
  "request_name_ok sample_request" "request_name_ok other_request"
  "env_GetRollingUpgrade race_env h (req_String sample_request) = Inr sample_RollingUpgrade"
  "env_GetRollingUpgrade race_env h (req_String other_request) = Inr other_RollingUpgrade"
  "NamespacedName sample_RollingUpgrade = req_String sample_request" "NamespacedName other_RollingUpgrade = req_String other_request"
  "env_ListRollingUpgrades race_env h = Inr []" "ScalingGroupName other_RollingUpgrade = ScalingGroupName sample_RollingUpgrade"
  "sample_request \<noteq> other_request"
  by (simp_all add: race_reconciler_def sample_reconciler_def started_def request_name_ok_def race_env_def req_String_def
      other_RollingUpgrade_def sample_RollingUpgrade_def NamespacedName_def ScalingGroupName_def)

lemma race_names: "\<not> EqualFold (req_String sample_request) (req_String other_request)"
  by (simp add: req_String_def EqualFold_def fold_char_def)

lemma race_ready: "ready_to_run sample_RollingUpgrade" "ready_to_run other_RollingUpgrade"
  by (simp_all add: ready_to_run_def being_deleted_def other_RollingUpgrade_def sample_RollingUpgrade_def CurrentStatus_def
      FiniteStates_def EqualFold_def strategy_acceptable_def size_acceptable_def)

lemma race_api: "api_names_ok race_env" "lists_at_most 0 race_env"
  using race_sample(8,9)
  by (auto simp: api_names_ok_def race_env_def req_String_def lists_at_most_def running_def split: if_splits)

lemmas race_run = group_race [where e = race_env, OF race_sample(1) _ race_sample(3-5) _ _ race_sample(8,9) race_names race_ready
    race_sample(11), simplified race_sample(2,6,7,10), simplified]

theorem concurrent_group_race_witness:
  "\<exists>r ws ra rb. (con_step race_env)\<^sup>*\<^sup>* (race_reconciler, Map.empty) (r, ws) \<and> ws sample_request = Some (Rotating ra) \<and>
     ws other_request = Some (Rotating rb) \<and> ScalingGroupName ra = ScalingGroupName rb \<and> \<not> exclusive (abs_adm r)"
proof -
  have "2 \<le> rec_maxParallel race_reconciler" by (simp add: race_sample(2))
  from concurrent_group_race [OF race_sample(1) this race_sample(3-5) _ _ race_sample(8,9) race_names race_ready race_sample(11), of race_env]
  obtain r ws ra rb where "(con_step race_env)\<^sup>*\<^sup>* (race_reconciler, Map.empty) (r, ws)" "ws sample_request = Some (Rotating ra)"
      "ws other_request = Some (Rotating rb)" "ScalingGroupName ra = ScalingGroupName rb" "\<not> exclusive (abs_adm r)"
    by (auto simp: race_sample(6,7,10))
  then show ?thesis by blast
qed

theorem concurrent_workers_witness:
  "\<exists>r ws ra rb. (con_step race_env)\<^sup>*\<^sup>* (race_reconciler, Map.empty) (r, ws) \<and> ws sample_request = Some (Rotating ra) \<and>
     ws other_request = Some (Rotating rb) \<and> NamespacedName ra \<noteq> NamespacedName rb \<and> card (dom ws) \<le> 2"
proof -
  obtain r ws ra rb where run: "(con_step race_env)\<^sup>*\<^sup>* (race_reconciler, Map.empty) (r, ws)"
      "ws sample_request = Some (Rotating ra)" "ws other_request = Some (Rotating rb)" using race_run by blast
  note concurrent_workers [OF race_sample(1) race_api(1) run(1)]
  then have "card (dom ws) \<le> 2" "NamespacedName ra \<noteq> NamespacedName rb"
    using run(2,3) race_sample(2,12) by (simp_all add: MaxConcurrentReconciles_def)
  with run show ?thesis by blast
qed

theorem concurrent_admissions_bounded_witness:
  "\<exists>r ws. (con_step race_env)\<^sup>*\<^sup>* (race_reconciler, Map.empty) (r, ws) \<and> 2 \<le> GetSyncMapLen (rec_AdmissionMap r) \<and>
     GetSyncMapLen (rec_AdmissionMap r) < 4"
proof -
  obtain r ws where run: "(con_step race_env)\<^sup>*\<^sup>* (race_reconciler, Map.empty) (r, ws)"
      "abs_adm r (req_String sample_request) \<noteq> None" "abs_adm r (req_String other_request) \<noteq> None"
    using race_run by auto
  have "1 \<le> rec_maxParallel race_reconciler" by (simp add: race_sample(2))
  from concurrent_admissions_bounded [OF race_sample(1) this race_api run(1)]
  have "GetSyncMapLen (rec_AdmissionMap r) < 4" by (simp add: race_sample(2))
  moreover have "req_String sample_request \<noteq> req_String other_request" by (simp add: req_String_def)
  then have "2 \<le> length (rec_AdmissionMap r)" using run(2,3)
    by (cases "rec_AdmissionMap r" rule: remdups_adj.cases) (auto simp: sm_Load_def split: if_splits)
  ultimately show ?thesis using run(1) by (auto simp: GetSyncMapLen_length)
qed

section \<open>The resources that are written\<close>

text \<open>
  The states of an upgrade, those in which it is not finished, and the resource a stage works on: it has a
  complete strategy, from the lock on it has a state, and what is written agrees with what is returned.
\<close>

definition upgrade_states :: "string set" where
  "upgrade_states = {StatusInit, StatusRunning, StatusComplete, StatusError}"

definition resource_ok :: "RollingUpgrade \<Rightarrow> bool" where
  "resource_ok ru \<longleftrightarrow> strategy_ok (spec_Strategy (ru_Spec ru)) \<and> CurrentStatus ru \<in> {StatusInit, StatusRunning}"

definition written_ok :: "RollingUpgrade \<Rightarrow> outcome \<Rightarrow> bool" where
  "written_ok ru res \<longleftrightarrow> strategy_ok (spec_Strategy (ru_Spec ru)) \<and> CurrentStatus ru \<in> upgrade_states \<and>
     (CurrentStatus ru = StatusError \<longrightarrow> snd res \<noteq> None) \<and> (CurrentStatus ru = StatusComplete \<longrightarrow> res = (requeue, None)) \<and>
     fst res = (if snd res = None then requeue else no_requeue)"

definition validated :: "RollingUpgrade \<Rightarrow> bool" where
  "validated ru \<longleftrightarrow> strategy_ok (spec_Strategy (ru_Spec ru)) \<and> CurrentStatus ru \<in> {'''', StatusInit, StatusRunning}"

fun stage_ok :: "stage \<Rightarrow> bool" where
  "stage_ok (Locking ru) = validated ru"
| "stage_ok (Restoring ru) = resource_ok ru"
| "stage_ok (Listing ru) = resource_ok ru"
| "stage_ok (Readmitting ru _) = resource_ok ru"
| "stage_ok (CheckingGroup ru) = resource_ok ru"
| "stage_ok (CheckingLimit ru) = resource_ok ru"
| "stage_ok (CheckingAdmitted ru) = resource_ok ru"
| "stage_ok (Admitting ru) = resource_ok ru"
| "stage_ok (Attaching ru) = resource_ok ru"
| "stage_ok (Populating ru) = resource_ok ru"
| "stage_ok (Rotating ru) = resource_ok ru"
| "stage_ok (Unlocking ru res) = written_ok ru res"
| "stage_ok (Updating ru res) = written_ok ru res"
| "stage_ok _ = True"

definition api_states_ok :: "env \<Rightarrow> bool" where
  "api_states_ok e \<longleftrightarrow> (\<forall>h name ru. env_GetRollingUpgrade e h name = Inr ru \<longrightarrow> CurrentStatus ru \<in> insert '''' upgrade_states)"

lemma resource_written [simp]:
  "resource_ok ru \<Longrightarrow> written_ok ru (requeue, None)" "resource_ok ru \<Longrightarrow> written_ok ru (no_requeue, Some er)"
  by (auto simp: resource_ok_def written_ok_def upgrade_states_def)

lemma init_status_ok [simp]: "validated ru \<Longrightarrow> resource_ok (fst (init_status ru r))"
  by (auto simp: init_status_def resource_ok_def validated_def)

lemma after_get_ok:
  assumes "CurrentStatus ru \<in> insert '''' upgrade_states"
  shows "stage_ok (after_get ru)"
proof -
  have "CurrentStatus ru \<in> {'''', StatusInit, StatusRunning}" if "\<not> ContainsEqualFold FiniteStates (CurrentStatus ru)"
    using assms that by (auto simp: upgrade_states_def FiniteStates_def split: if_splits)
  moreover have "strategy_ok (spec_Strategy (ru_Spec ru1)) \<and> CurrentStatus ru1 = CurrentStatus ru"
    if v: "Validate ru = ((True, err), ru1)" for err ru1
  proof -
    have acc: "strategy_acceptable (spec_Strategy (ru_Spec ru))" using Validate_rejects [of ru] v by fastforce
    then have "ru1 = upd_strategy complete_strategy ru" using Validate_accepts [of ru] v by simp
    then show ?thesis using complete_strategy_ok [OF acc] by (simp add: CurrentStatus_def)
  qed
  ultimately show ?thesis by (auto simp: after_get_def validated_def Let_def split: prod.splits)
qed

lemma run_pass_ok:
  assumes "run_pass e sched choice ru r = Some (res, ru', r')" and "resource_ok ru"
  shows "written_ok ru' res"
proof -
  obtain entries r1 where g: "getClusterNodes e r = (entries, r1)" by fastforce
  obtain dm c where c: "rotate e sched choice (rollup_ctx ru dm (map snd entries) r1) = Some ((fst res, snd res), c)" "ru' = ctx_RollingUpgrade c"
    using assms(1) g by (auto simp: run_pass_def Let_def Option.bind_eq_Some_conv)
  have "ru_Spec (ctx_RollingUpgrade (rollup_ctx ru dm (map snd entries) r1)) = ru_Spec ru" by (simp add: rollup_ctx_def)
  with rotate_status [OF c(1)] assms(2) show ?thesis
    unfolding c(2) by (cases res) (auto simp: written_ok_def resource_ok_def upgrade_states_def)
qed

lemma worker_step_ok:
  assumes "worker_step e sched choice req st r = Some (st', r')" and "api_states_ok e" and "stage_ok st"
  shows "stage_ok st'"
proof -
  have "stage_ok (after_get ru)" if "fst (Get e req r) = Inr ru" for ru
    using after_get_ok assms(2) that by (auto simp: Get_eq api_states_ok_def)
  then show ?thesis
    using assms(1,3) run_pass_ok
    by (cases rule: worker_step.cases [of "(e, sched, choice, req, st, r)"])
      (auto simp: case_prod_beta Let_def Option.bind_eq_Some_conv split: sum.splits if_splits)
qed

definition stages_ok :: "reconciler \<times> workers \<Rightarrow> bool" where
  "stages_ok s \<longleftrightarrow> (\<forall>req st. snd s req = Some st \<longrightarrow> stage_ok st)"

lemma con_step_stages_ok:
  assumes "con_step e s s'" and "api_states_ok e" and "stages_ok s"
  shows "stages_ok s'"
  using assms(1)
proof cases
  case (Work ws req st sched choice r st' r')
  then have "stage_ok st'" using worker_step_ok assms(2,3) by (auto simp: stages_ok_def)
  then show ?thesis using assms(3) Work(1,2) by (simp add: stages_ok_def)
qed (use assms(3) in \<open>auto simp: stages_ok_def\<close>)

interpretation typed: invariant_system
  "\<lambda>s. snd s = Map.empty" "\<lambda>s s'. api_states_ok e \<and> con_step e s s'" stages_ok for e
proof
  fix s :: "reconciler \<times> workers" assume "snd s = Map.empty"
  then show "stages_ok s" by (simp add: stages_ok_def)
next
  fix s s' assume "stages_ok s" "api_states_ok e \<and> con_step e s s'"
  then show "stages_ok s'" using con_step_stages_ok by blast
qed

text \<open>C8: over every run of the concurrent workers, a resource that a worker is about to write is well-formed:
  it is the resource of the worker's request, its strategy is complete, its status is one of the four
  states of an upgrade; it is in the error state only if the reconcile returns an error, completed only if
  it returns none, and the request is repeated exactly if no error is returned.\<close>

theorem written_resources_well_formed:
  assumes "started r0" and "api_names_ok e" and "api_states_ok e" and "(con_step e)\<^sup>*\<^sup>* (r0, Map.empty) (r, ws)"
    and "ws req = Some (Updating ru res)"
  shows "NamespacedName ru = req_String req \<and> strategy_ok (spec_Strategy (ru_Spec ru)) \<and>
    CurrentStatus ru \<in> {StatusInit, StatusRunning, StatusComplete, StatusError} \<and>
    (CurrentStatus ru = StatusError \<longrightarrow> snd res \<noteq> None) \<and> (CurrentStatus ru = StatusComplete \<longrightarrow> snd res = None) \<and>
    fst res = (if snd res = None then requeue else no_requeue)"
proof -
  have "(\<lambda>s s'. api_states_ok e \<and> con_step e s s')\<^sup>*\<^sup>* (r0, Map.empty) (r, ws)" using assms(3,4) by simp
  then have "stages_ok (r, ws)" by (rule typed.inv_reachable [rotated]) simp
  then have "stage_ok (Updating ru res)" using assms(5) unfolding stages_ok_def snd_conv by blast
  then have "written_ok ru res" by simp
  moreover have "for_name (req_String req) (Updating ru res)"
    using con_reachable(2) [OF assms(1,2,4)] assms(5) unfolding con_inv_simp workers_ok_def by blast
  ultimately show ?thesis by (auto simp: written_ok_def upgrade_states_def)
qed

definition unlisted_env :: env where
  "unlisted_env = race_env\<lparr>env_ListRollingUpgrades := \<lambda>h. Inl (OtherError ''unreachable'')\<rparr>"

lemma unlisted_api: "api_names_ok unlisted_env" "api_states_ok unlisted_env"
  "env_GetRollingUpgrade unlisted_env h (req_String sample_request) = Inr sample_RollingUpgrade"
  "env_ListRollingUpgrades unlisted_env h = Inl (OtherError ''unreachable'')"
proof -
  show "api_names_ok unlisted_env" using race_api(1) by (simp add: api_names_ok_def unlisted_env_def)
  show "env_GetRollingUpgrade unlisted_env h (req_String sample_request) = Inr sample_RollingUpgrade"
    using race_sample(6) by (simp add: unlisted_env_def)
  show "api_states_ok unlisted_env"
    by (auto simp: api_states_ok_def unlisted_env_def race_env_def other_RollingUpgrade_def sample_RollingUpgrade_def CurrentStatus_def
        split: if_splits)
qed (simp add: unlisted_env_def)

theorem written_resources_well_formed_witness:
  "\<exists>r ws ru. (con_step unlisted_env)\<^sup>*\<^sup>* (race_reconciler, Map.empty) (r, ws) \<and>
     ws sample_request = Some (Updating ru (no_requeue, Some (OtherError ''unreachable''))) \<and> NamespacedName ru = ''ns/ru'' \<and>
     CurrentStatus ru \<in> {StatusInit, StatusRunning, StatusComplete, StatusError}"
proof -
  let ?res = "(no_requeue, Some (OtherError ''unreachable''))" and ?q = sample_request
  obtain ru r1 where r1: "works unlisted_env ?q (Getting, race_reconciler) (Restoring ru, r1)" "rec_AdmissionMap r1 = []"
    using works_to_Restoring [of unlisted_env ?q sample_RollingUpgrade race_reconciler] unlisted_api(3) race_ready(1)
    by (auto simp: race_reconciler_def sample_reconciler_def sm_Load_def)
  let ?r2 = "log_event EvListRollingUpgrades r1"
  have "works unlisted_env ?q (Listing ru, r1) (Updating ru ?res, unlock ru ?r2)"
    using unlisted_api(4) by (intro works_step [of _ _ "Listing ru" _ "(Unlocking ru ?res, ?r2)"]
        works_step [of _ _ "Unlocking ru ?res" _ "(Updating ru ?res, unlock ru ?r2)"]) simp_all
  then have "works unlisted_env ?q (Restoring ru, r1) (Updating ru ?res, unlock ru ?r2)"
    using r1(2) by (intro works_step [of _ _ "Restoring ru" _ "(Listing ru, r1)"]) (simp_all add: GetSyncMapLen_length)
  from works_lift [OF works_trans [OF r1(1) this], of "[?q \<mapsto> Getting]"]
  have run: "(con_step unlisted_env)\<^sup>*\<^sup>* (race_reconciler, [?q \<mapsto> Getting]) (unlock ru ?r2, [?q \<mapsto> Updating ru ?res])" by simp
  have "con_step unlisted_env (race_reconciler, Map.empty) (race_reconciler, [?q \<mapsto> Getting])"
    by (rule con_step.Dequeue) (simp_all add: MaxConcurrentReconciles_def race_sample(2,4))
  from converse_rtranclp_into_rtranclp [OF this run]
  have reach: "(con_step unlisted_env)\<^sup>*\<^sup>* (race_reconciler, Map.empty) (unlock ru ?r2, [?q \<mapsto> Updating ru ?res])" .
  from written_resources_well_formed [OF race_sample(1) unlisted_api(1,2) reach, of ?q ru ?res]
  have "NamespacedName ru = ''ns/ru'' \<and> CurrentStatus ru \<in> {StatusInit, StatusRunning, StatusComplete, StatusError}"
    by (auto simp: req_String_def)
  with reach show ?thesis by (intro exI [of _ "unlock ru ?r2"] exI [of _ "[?q \<mapsto> Updating ru ?res]"] exI [of _ ru]) simp
qed

section \<open>What concurrent workers terminate\<close>

lemma worker_step_emits:
  assumes "worker_step e sched choice req st r = Some (st', r')" and "\<And>ru. st \<noteq> Rotating ru"
  shows "emits not_termination r r'"
  using assms phases_emit
  by (cases rule: worker_step.cases [of "(e, sched, choice, req, st, r)"])
    (auto simp: case_prod_beta Let_def forget_def unlock_def publish_def Get_def init_status_def emits_def split: sum.splits if_splits)

lemma run_pass_terminates:
  assumes "run_pass e sched choice ru r = Some (res, ru', r')" and "drains_ok r" and "idle (NamespacedName ru) r"
  shows "terminates_drained ru r (hist r) (hist r')"
proof -
  let ?dm = "case sm_Load (rec_DrainMapper r) (NamespacedName ru) of None \<Rightarrow> NewDrainManager | Some d \<Rightarrow> d"
  obtain entries r1 where g: "getClusterNodes e r = (entries, r1)" by fastforce
  obtain c where c: "rotate e sched choice (rollup_ctx ru ?dm (map snd entries) r1) = Some (res, c)" "hist r' = hist c"
    using assms(1) g by (auto simp: run_pass_def Let_def Option.bind_eq_Some_conv)
  have "dm_ok ?dm" "dm_DrainGroup ?dm = 0"
    using assms(2,3) NewDrainManager_ok by (auto simp: drains_ok_def idle_def NewDrainManager_def split: option.splits)
  from rotate_terminates_drained [OF c(1) this] have "terminates_drained ru r1 (hist r1) (hist c)" .
  then have "terminates_drained ru r (hist r1) (hist c)"
    using terminates_drained_cong [of ru ru r1 r] getClusterNodes_rec(8,9) [of e r] g by simp
  then show ?thesis using emits_terminates [OF phases_emit(4) [of r e]] g c(2) by simp
qed

lemma con_step_terminates:
  assumes "con_step e (r, ws) (r', ws')" and "\<not> emits not_termination r r'"
  obtains req ru sched choice res ru1 where "ws req = Some (Rotating ru)" "run_pass e sched choice ru r = Some (res, ru1, r')"
  using assms(1)
proof cases
  case (Work req st sched choice st')
  then obtain ru where "st = Rotating ru" using worker_step_emits [OF Work(3)] assms(2) by blast
  then show ?thesis using Work(2,3) that by (auto simp: Option.bind_eq_Some_conv)
next
  case (Node obj reqs)
  then show ?thesis using node_requests_frame(5) assms(2) by (simp add: emits_def)
next
  case (Job name dm i c)
  have "run_jobs e [i] (job_ctx dm i r) = c" using Job(4) by simp
  then have "emits not_termination (job_ctx dm i r) c" using run_jobs_calm [of "job_ctx dm i r" e "[i]"] by simp
  then show ?thesis using assms(2) Job(1) by (simp add: emits_def job_ctx_def rollup_ctx_def)
qed (use assms(2) in simp_all)

text \<open>
  A run of one worker that terminates an instance does so in its pass over the nodes, from a state
  that concurrent workers reach.
\<close>

definition all_idle :: "reconciler \<Rightarrow> bool" where
  "all_idle r \<longleftrightarrow> drains_ok r \<and> (\<forall>name. idle name r)"

lemma worker_step_idle:
  assumes "worker_step e sched choice req st r = Some (st', r')" and "\<And>ru. st \<noteq> Rotating ru" and "all_idle r"
  shows "all_idle r'"
proof -
  have same: "rec_DrainMapper s = rec_DrainMapper r \<Longrightarrow> idle name s" for s name using assms(3) by (simp add: all_idle_def idle_def)
  have "idle name r'" for name
  proof (cases rule: worker_step.cases [of "(e, sched, choice, req, st, r)"])
    case (12 e' sched' choice' req' ru r'')
    then have "r' = r\<lparr>rec_DrainMapper := snd (snd (sm_LoadOrStore (NamespacedName ru) NewDrainManager (rec_DrainMapper r)))\<rparr>"
      using assms(1) by (auto simp: case_prod_beta Let_def)
    then show ?thesis using assms(3)
      by (auto simp: all_idle_def idle_def sm_LoadOrStore_def sm.load_store NewDrainManager_def split: option.splits if_splits)
  qed (use assms(1,2) in \<open>auto intro!: same simp: case_prod_beta Let_def Get_def forget_def unlock_def publish_def
      split: sum.splits if_splits\<close>)
  then show ?thesis using worker_step_drains [OF assms(1)] assms(3) by (simp add: all_idle_def)
qed

lemma run_worker_terminates:
  assumes "run_worker e sched choice req st r = Some (res, r')" and "all_idle r"
  shows "extends r r' \<and> (EvTerminateInstance i er \<in> set (new_events r r') \<longrightarrow>
    (\<exists>ru r1 out ru1 r2. works e req (st, r) (Rotating ru, r1) \<and> run_pass e sched choice ru r1 = Some (out, ru1, r2) \<and>
       all_idle r1 \<and> EvTerminateInstance i er \<in> set (new_events r1 r2)))"
  using assms
proof (induction e sched choice req st r rule: run_worker.induct)
  case (1 e sched choice req st r)
  show ?case
  proof (cases "outcome_of st")
    case (Some out)
    then show ?thesis using 1(2) by (auto simp: run_worker.simps new_events_def)
  next
    case None
    then obtain st1 r1 where s: "worker_step e sched choice req st r = Some (st1, r1)"
        "run_worker e sched choice req st1 r1 = Some (res, r')"
      using 1(2) by (subst (asm) run_worker.simps) (auto simp: Option.bind_eq_Some_conv)
    show ?thesis
    proof (cases "\<exists>ru. st = Rotating ru")
      case True
      then obtain ru out ru1 where st: "st = Rotating ru" and run: "run_pass e sched choice ru r = Some (out, ru1, r1)"
        and st1: "st1 = Unlocking ru1 out" using s(1) by (auto simp: Option.bind_eq_Some_conv)
      have "terminates_drained ru r (hist r) (hist r1)"
        using run_pass_terminates [OF run] 1(3) by (simp add: all_idle_def)
      then have ext: "extends r r1" by (auto simp: terminates_drained_def extends_def)
      moreover have em: "emits not_termination r1 r'" using s(2) phases_emit(5) [of r1 e ru1] by (simp add: st1 run_Unlocking)
      ultimately have "EvTerminateInstance i er \<in> set (new_events r r')  \<longrightarrow> EvTerminateInstance i er \<in> set (new_events r r1)"
        by (fastforce simp: new_events_def emits_def extends_def list_all_iff not_termination_def)
      then show ?thesis using run 1(3) works_refl extends_trans [OF ext emits_extends [OF em]] unfolding st by blast
    next
      case False
      then have em: "emits not_termination r r1" and idle: "all_idle r1"
        using worker_step_emits [OF s(1)] worker_step_idle [OF s(1)] 1(3) by blast+
      note IH = 1(1) [OF None s(1) refl s(2) idle]
      then have "EvTerminateInstance i er \<in> set (new_events r r') \<longrightarrow> EvTerminateInstance i er \<in> set (new_events r1 r')"
        using em by (fastforce simp: new_events_def emits_def extends_def list_all_iff not_termination_def)
      then show ?thesis using IH works_next [OF s(1)] extends_trans [OF emits_extends [OF em]] by blast
    qed
  qed
qed

lemma sample_pass_reached:
  assumes "sample_controller r0"
  shows "\<exists>r ws r' ws' i. (con_step rotation_env)\<^sup>*\<^sup>* (r0, Map.empty) (r, ws) \<and> con_step rotation_env (r, ws) (r', ws') \<and>
     EvTerminateInstance i None \<in> set (new_events r r') \<and> (\<forall>name. idle name r)"
proof -
  let ?q = sample_request
  obtain res r' u where run: "Reconcile rotation_env sample_sched DoneCase ?q r0 = Some (res, r')"
    "EvTerminateInstance (inst_id u) None \<in> set (new_events r0 r')" using sample_terminates [OF assms] by blast
  have "all_idle r0" using assms by (simp add: all_idle_def drains_ok_def idle_def sample_controller_def sm_Load_def)
  from run_worker_terminates [OF run(1) [folded run_Getting] this] run(2)
  obtain ru r1 out ru1 r2 where w: "works rotation_env ?q (Getting, r0) (Rotating ru, r1)"
    and p: "run_pass rotation_env sample_sched DoneCase ru r1 = Some (out, ru1, r2)" "all_idle r1"
      "EvTerminateInstance (inst_id u) None \<in> set (new_events r1 r2)" by blast
  have "con_step rotation_env (r0, Map.empty) (r0, [?q \<mapsto> Getting])"
    using assms by (intro con_step.Dequeue) (simp_all add: MaxConcurrentReconciles_def sample_controller_def request_name_ok_def)
  from converse_rtranclp_into_rtranclp [of "con_step rotation_env", OF this] works_lift [OF w, of "[?q \<mapsto> Getting]"]
  have "(con_step rotation_env)\<^sup>*\<^sup>* (r0, Map.empty) (r1, [?q \<mapsto> Rotating ru])" by simp
  moreover have "con_step rotation_env (r1, [?q \<mapsto> Rotating ru]) (r2, [?q \<mapsto> Rotating ru, ?q \<mapsto> Unlocking ru1 out])"
    by (rule con_step.Work [where st = "Rotating ru" and sched = sample_sched and choice = DoneCase]) (simp_all add: p(1) del: One_nat_def)
  ultimately show ?thesis using p(2,3) unfolding all_idle_def by blast
qed

lemma sample_api_ok: "api_names_ok rotation_env" "api_states_ok rotation_env"
  using rotation_env_api(3) race_sample(8)
  by (auto simp: api_names_ok_def api_states_ok_def sample_RollingUpgrade_def CurrentStatus_def dest!: rotation_env_api(3))

text \<open>The settings of drains never change.\<close>

lemma con_step_settings:
  assumes "con_step e (r, ws) (r', ws')"
  shows "rec_DrainTimeout r' = rec_DrainTimeout r \<and> rec_IgnoreDrainFailures r' = rec_IgnoreDrainFailures r"
  using assms
proof cases
  case (Work req st sched choice st')
  have keep: "rec_DrainTimeout (keep_ctx name keys c q) = rec_DrainTimeout q \<and> rec_IgnoreDrainFailures (keep_ctx name keys c q) = rec_IgnoreDrainFailures q"
    for name keys c q by (simp add: keep_ctx_def)
  have "rec_DrainTimeout r1 = rec_DrainTimeout r \<and> rec_IgnoreDrainFailures r1 = rec_IgnoreDrainFailures r"
    if "run_pass e sched choice ru r = Some (res, ru1, r1)" for ru res ru1 r1
    using that getClusterNodes_rec(8,9) [of e r] keep by (auto simp: run_pass_def Let_def case_prod_beta Option.bind_eq_Some_conv)
  then show ?thesis
    using Work(3) phases_settings
    by (cases rule: worker_step.cases [of "(e, sched, choice, req, st, r)"])
      (auto simp: case_prod_beta Let_def Option.bind_eq_Some_conv Get_def forget_def unlock_def publish_def init_status_def
        split: sum.splits if_splits)
next
  case (Node obj reqs)
  then show ?thesis by (auto simp: node_requests_def CreateFunc_def UpdateFunc_def DeleteFunc_def GenericFunc_def Let_def
      split: k8s_object.splits)
qed (simp_all add: keep_ctx_def)

lemma con_settings:
  assumes "(con_step e)\<^sup>*\<^sup>* (r0, ws0) (r, ws)"
  shows "timeout_of ru r = timeout_of ru r0" and "ignores_of ru r = ignores_of ru r0"
proof -
  have "rec_DrainTimeout (fst s) = rec_DrainTimeout r0 \<and> rec_IgnoreDrainFailures (fst s) = rec_IgnoreDrainFailures r0"
    if "(con_step e)\<^sup>*\<^sup>* (r0, ws0) s" for s
    using that
  proof (induction rule: rtranclp_induct)
    case (step s t)
    then show ?case using con_step_settings [of e "fst s" "snd s" "fst t" "snd t"] by simp
  qed simp
  from this [OF assms] show "timeout_of ru r = timeout_of ru r0" and "ignores_of ru r = ignores_of ru r0"
    by (simp_all add: timeout_of_def ignores_of_def cong: option.case_cong)
qed

lemma terminations_safe:
  assumes "started r0" and "api_names_ok e" and "api_states_ok e" and "(con_step e)\<^sup>*\<^sup>* (r0, Map.empty) (r, ws)"
    and "con_step e (r, ws) (r', ws')" and "EvTerminateInstance i er \<in> set (new_events r r')"
  shows "\<exists>req ru. ws req = Some (Rotating ru) \<and> NamespacedName ru = req_String req \<and>
    strategy_ok (spec_Strategy (ru_Spec ru)) \<and> CurrentStatus ru \<in> {StatusInit, StatusRunning} \<and>
    sm_Load (rec_AdmissionMap r) (NamespacedName ru) \<noteq> None \<and>
    (\<forall>q ru'. q \<noteq> req \<longrightarrow> ws q = Some (Rotating ru') \<longrightarrow> NamespacedName ru' \<noteq> NamespacedName ru) \<and>
    (idle (NamespacedName ru) r \<longrightarrow> (\<exists>pre post. new_events r r' = pre @ post \<and> list_all not_termination pre \<and>
       EvTerminateInstance i er \<in> set post \<and> drained_node ru r pre i))"
proof -
  have inv: "workers_ok r ws" "drains_ok r" using con_reachable(2) [OF assms(1,2,4)] by (simp_all add: con_inv_simp)
  have "(\<lambda>s s'. api_states_ok e \<and> con_step e s s')\<^sup>*\<^sup>* (r0, Map.empty) (r, ws)" using assms(3,4) by simp
  then have stages: "stages_ok (r, ws)" by (rule typed.inv_reachable [rotated]) simp
  have "\<not> emits not_termination r r'" using emits_forall assms(6) by (fastforce simp: not_termination_def)
  with assms(5) obtain req ru sched choice res ru1 where
    st: "ws req = Some (Rotating ru)" and run: "run_pass e sched choice ru r = Some (res, ru1, r')"
    by (rule con_step_terminates)
  have "stage_ok (Rotating ru)" using stages st unfolding stages_ok_def snd_conv by blast
  then have ok: "strategy_ok (spec_Strategy (ru_Spec ru))" "CurrentStatus ru \<in> {StatusInit, StatusRunning}"
    unfolding stage_ok.simps resource_ok_def by blast+
  have named: "for_name (req_String q) sq" "was_admitted sq \<Longrightarrow> abs_adm r (req_String q) \<noteq> None" if "ws q = Some sq" for q sq
    using inv(1) that unfolding workers_ok_def by blast+
  have name: "NamespacedName ru = req_String req" using named(1) [OF st] by simp
  moreover have "abs_adm r (NamespacedName ru) \<noteq> None" using named(2) [OF st] name by simp
  moreover have "NamespacedName ru' \<noteq> NamespacedName ru" if "q \<noteq> req" "ws q = Some (Rotating ru')" for q ru'
    using other_name [OF inv(1) that(2) st that(1)] named(1) [OF that(2)] name by simp
  moreover have "\<exists>pre post. new_events r r' = pre @ post \<and> list_all not_termination pre \<and>
      EvTerminateInstance i er \<in> set post \<and> drained_node ru r pre i" if "idle (NamespacedName ru) r"
    using run_pass_terminates [OF run inv(2) that] assms(6)
    by (fastforce simp: terminates_drained_def new_events_def list_all_iff not_termination_def)
  ultimately show ?thesis using st ok by blast
qed

text \<open>C1: whatever the concurrent workers do, an instance is terminated only by a worker that rotates the
  nodes of an upgrade that is valid, not finished and admitted, and that no other worker rotates. If no
  drain of an earlier pass of that upgrade is outstanding, the node of the instance was cordoned and
  drained before by the same pass, with the timeout of the upgrade or of the controller, unless drain
  failures are ignored.\<close>

theorem concurrent_terminations_safe:
  assumes "started r0" and "api_names_ok e" and "api_states_ok e" and "(con_step e)\<^sup>*\<^sup>* (r0, Map.empty) (r, ws)"
    and "con_step e (r, ws) (r', ws')" and "EvTerminateInstance i er \<in> set (new_events r r')"
  shows "\<exists>req ru. ws req = Some (Rotating ru) \<and> NamespacedName ru = req_String req \<and>
    strategy_ok (spec_Strategy (ru_Spec ru)) \<and> CurrentStatus ru \<in> {StatusInit, StatusRunning} \<and>
    sm_Load (rec_AdmissionMap r) (NamespacedName ru) \<noteq> None \<and>
    (\<forall>q ru'. q \<noteq> req \<longrightarrow> ws q = Some (Rotating ru') \<longrightarrow> NamespacedName ru' \<noteq> NamespacedName ru) \<and>
    (idle (NamespacedName ru) r \<longrightarrow> (\<exists>pre post. new_events r r' = pre @ post \<and> list_all not_termination pre \<and>
       EvTerminateInstance i er \<in> set post \<and> drained_node ru r pre i))"
  using assms by (rule terminations_safe)

theorem concurrent_terminations_safe_witness:
  "\<exists>r ws r' ws' i pre post req ru. (con_step rotation_env)\<^sup>*\<^sup>* (sample_reconciler, Map.empty) (r, ws) \<and>
     con_step rotation_env (r, ws) (r', ws') \<and> ws req = Some (Rotating ru) \<and> new_events r r' = pre @ post \<and>
     EvTerminateInstance i None \<in> set post \<and> drained_node ru r pre i"
proof -
  obtain r ws r' ws' i where run: "(con_step rotation_env)\<^sup>*\<^sup>* (sample_reconciler, Map.empty) (r, ws)"
    "con_step rotation_env (r, ws) (r', ws')" "EvTerminateInstance i None \<in> set (new_events r r')" "\<forall>name. idle name r"
    using sample_pass_reached [OF sample_sample_controller] by blast
  from concurrent_terminations_safe [OF sample_started(1) sample_api_ok run(1-3)] run show ?thesis by blast
qed

end
