(* ===== verification/Concurrent_Admission.thy ===== *)
theory Concurrent_Admission
  imports Concurrent_Reconciles
begin

text \<open>
  What the admission of upgrades comes to under concurrent workers: every step of the workers is one
  step of the specification of \<open>Admission_Spec\<close>; the limit can be passed all the same, since what a
  worker has seen may be out of date when it admits; and a controller that was started with a limit of
  zero upgrades nothing.
\<close>

section \<open>Refinement\<close>

text \<open>The running upgrades of a list, with their groups.\<close>

definition running_pairs :: "RollingUpgrade list \<Rightarrow> (string \<times> string) list" where
  "running_pairs items = map (\<lambda>cr. (NamespacedName cr, ScalingGroupName cr)) (filter (\<lambda>cr. CurrentStatus cr = StatusRunning) items)"

fun phase_of :: "stage \<Rightarrow> phase option" where
  "phase_of (Forgetting _) = Some Ending"
| "phase_of (Listing _) = Some Recovering"
| "phase_of (Readmitting _ items) = Some (Adding (running_pairs items))"
| "phase_of (CheckingLimit ru) = Some (Group_free (ScalingGroupName ru))"
| "phase_of (CheckingAdmitted ru) = Some (Group_free (ScalingGroupName ru))"
| "phase_of (Admitting ru) = Some (Cleared (ScalingGroupName ru))"
| "phase_of _ = None"

definition phases :: "workers \<Rightarrow> Request \<rightharpoonup> phase" where
  "phases ws q = Option.bind (ws q) phase_of"

definition adm_of :: "reconciler \<times> workers \<Rightarrow> adm_state" where
  "adm_of s = (abs_adm (fst s), phases (snd s))"

text \<open>What the API may report: that an upgrade is gone, being deleted or finished, and which ones run.\<close>

definition reported_ended :: "env \<Rightarrow> string \<Rightarrow> bool" where
  "reported_ended e name \<longleftrightarrow> (\<exists>h. case env_GetRollingUpgrade e h name of
     Inl er \<Rightarrow> IsNotFound er | Inr ru \<Rightarrow> being_deleted ru \<or> ContainsEqualFold FiniteStates (CurrentStatus ru))"

definition reported_running :: "env \<Rightarrow> (string \<times> string) list \<Rightarrow> bool" where
  "reported_running e xs \<longleftrightarrow> (\<exists>h items. env_ListRollingUpgrades e h = Inr items \<and> xs = running_pairs items)"

abbreviation spec_step :: "int \<Rightarrow> env \<Rightarrow> adm_state \<Rightarrow> adm_state \<Rightarrow> bool" where
  "spec_step mx e \<equiv> adm_step mx (reported_ended e) (reported_running e)"

lemma phases_upd: "phases (ws(q \<mapsto> st)) = (phases ws)(q := phase_of st)"
  by (auto simp: phases_def fun_eq_iff)

lemma phases_same: "ws q = Some st \<Longrightarrow> phases ws q = phase_of st"
  by (simp add: phases_def)

text \<open>A step that leaves the admissions alone and the request with its phase, or with none.\<close>

lemma spec_keeps: "P q = p \<Longrightarrow> p' = p \<or> p' = None \<Longrightarrow> spec_step mx e (A, P) (A, P(q := p'))"
  using adm_step.Quit [of mx _ _ A P q] adm_step.Stutter [of mx _ _ A P] by (metis fun_upd_triv)

lemma group_free_spec:
  assumes "map_ok m" and "\<not> group_taken ru m" and "NamespacedName ru = n"
  shows "\<forall>k g. sm_Load m k = Some g \<longrightarrow> EqualFold g (ScalingGroupName ru) \<longrightarrow> EqualFold k n"
  using assms sm_mem [OF assms(1)] unfolding group_taken_iff by auto

lemma after_get_phase:
  assumes "env_GetRollingUpgrade e h (req_String q) = Inr ru"
  shows "phase_of (after_get ru) = None \<or> phase_of (after_get ru) = Some Ending \<and> reported_ended e (req_String q)"
proof (cases "being_deleted ru \<or> ContainsEqualFold FiniteStates (CurrentStatus ru)")
  case True
  then show ?thesis using assms by (auto simp: after_get_def reported_ended_def intro!: exI [of _ h])
next
  case False
  then show ?thesis by (simp add: after_get_def case_prod_beta Let_def)
qed

text \<open>A stage of a worker as a step of the specification, whatever phases the other requests have.\<close>

definition simulated :: "env \<Rightarrow> Request \<Rightarrow> stage \<Rightarrow> reconciler \<Rightarrow> stage \<Rightarrow> reconciler \<Rightarrow> bool" where
  "simulated e q st r st' r' \<longleftrightarrow> (\<forall>P. P q = phase_of st \<longrightarrow>
     spec_step (rec_maxParallel r) e (abs_adm r, P) (abs_adm r', P(q := phase_of st')))"

lemma simulated_quiet:
  "rec_AdmissionMap r' = rec_AdmissionMap r \<Longrightarrow> phase_of st' = phase_of st \<or> phase_of st' = None \<Longrightarrow> simulated e q st r st' r'"
  unfolding simulated_def using spec_keeps by metis

lemma Getting_simulated:
  assumes "worker_step e sched choice q Getting r = Some (st', r')"
  shows "simulated e q Getting r st' r'"
proof -
  have adm: "rec_AdmissionMap r' = rec_AdmissionMap r" using worker_step_maps [OF assms] by simp
  have "phase_of st' = None \<or> phase_of st' = Some Ending \<and> reported_ended e (req_String q)"
  proof (cases "env_GetRollingUpgrade e (hist r) (req_String q)")
    case (Inl er)
    moreover from this have "st' = (if IsNotFound er then Forgetting (req_String q) else Returned (no_requeue, Some er))"
      using assms by (auto simp: Get_def Let_def)
    ultimately show ?thesis unfolding reported_ended_def by (auto intro!: exI [of _ "hist r"])
  next
    case (Inr ru)
    then have "st' = after_get ru" using assms by (auto simp: Get_def Let_def)
    then show ?thesis using after_get_phase [OF Inr] by simp
  qed
  then show ?thesis
  proof
    assume "phase_of st' = None"
    then show ?thesis using simulated_quiet [OF adm] by blast
  next
    assume "phase_of st' = Some Ending \<and> reported_ended e (req_String q)"
    then show ?thesis using adm adm_step.End [of _ q] by (simp add: simulated_def)
  qed
qed

lemma recovery_simulated:
  assumes "worker_step e sched choice q st r = Some (st', r')" and "st \<in> {Restoring ru, Listing ru, Readmitting ru items}"
  shows "simulated e q st r st' r'"
proof -
  note adm = worker_step_maps [OF assms(1), THEN conjunct1] and quiet = simulated_quiet [of r' r st' st]
  from assms(2) consider "st = Restoring ru" | "st = Listing ru" | "st = Readmitting ru items" by blast
  then show ?thesis
  proof cases
    case 1
    have "abs_adm r = Map.empty" if "GetSyncMapLen (rec_AdmissionMap r) = 0"
      using that by (simp add: GetSyncMapLen_length sm_Load_def fun_eq_iff)
    then show ?thesis using 1 assms(1) adm quiet adm_step.Recover [of _ q] by (auto simp: simulated_def split: if_splits)
  next
    case 2
    show ?thesis
    proof (cases "env_ListRollingUpgrades e (hist r)")
      case (Inl er)
      then show ?thesis using quiet assms(1) adm 2 by auto
    next
      case (Inr items)
      then have "reported_running e (running_pairs items)" unfolding reported_running_def by blast
      then show ?thesis using adm_step.Listed [of _ q] assms(1) adm 2 Inr by (auto simp: simulated_def)
    qed
  next
    case 3
    show ?thesis
    proof (cases items)
      case Nil
      then show ?thesis using quiet assms(1) adm 3 by auto
    next
      case (Cons cr items')
      then show ?thesis
        using adm_step.Add [of _ q "NamespacedName cr" "ScalingGroupName cr" "running_pairs items'"] assms(1) adm 3 quiet
        by (cases "CurrentStatus cr = StatusRunning") (auto simp: simulated_def running_pairs_def sm.load_store)
    qed
  qed
qed

lemma checks_simulated:
  assumes "worker_step e sched choice q st r = Some (st', r')" and "st \<in> {CheckingGroup ru, CheckingLimit ru, CheckingAdmitted ru}"
    and "NamespacedName ru = req_String q" and "map_ok (rec_AdmissionMap r)"
  shows "simulated e q st r st' r'"
proof -
  note adm = worker_step_maps [OF assms(1), THEN conjunct1] and quiet = simulated_quiet [of r' r st' st]
  have card: "int (card (dom (abs_adm r))) = GetSyncMapLen (rec_AdmissionMap r)"
    using sm.size_of_card [OF assms(4)] by (simp add: GetSyncMapLen_length)
  from assms(2) consider "st = CheckingGroup ru" | "st = CheckingLimit ru" | "st = CheckingAdmitted ru" by blast
  then show ?thesis
  proof cases
    case 1
    show ?thesis
    proof (cases "group_taken ru (rec_AdmissionMap r)")
      case True
      then show ?thesis using quiet assms(1) adm 1 by auto
    next
      case False
      note free = group_free_spec [OF assms(4) this assms(3)]
      show ?thesis using adm_step.Group [of _ q, OF _ free] assms(1) adm 1 False by (auto simp: simulated_def)
    qed
  next
    case 2
    then show ?thesis
      using quiet adm_step.Limit [of _ q] assms(1) adm card
      by (cases "GetSyncMapLen (rec_AdmissionMap r) \<ge> rec_maxParallel r") (auto simp: simulated_def)
  next
    case 3
    then show ?thesis
      using quiet adm_step.Limit [of _ q] assms(1,3) adm by (cases "abs_adm r (req_String q)") (auto simp: simulated_def)
  qed
qed

lemma Admitting_simulated:
  assumes "worker_step e sched choice q (Admitting ru) r = Some (st', r')" and "NamespacedName ru = req_String q"
  shows "simulated e q (Admitting ru) r st' r'"
proof -
  have st': "phase_of st' = None" using assms(1) by auto
  note adm = worker_step_maps [OF assms(1), THEN conjunct1]
  show ?thesis
  proof (cases "abs_adm r (req_String q)")
    case None
    then have "abs_adm r' = (abs_adm r)(req_String q \<mapsto> ScalingGroupName ru)"
      using adm assms(2) by (simp add: sm.load_or_store_fresh sm.load_store)
    then show ?thesis using adm_step.Admit [of _ q] None st' by (simp add: simulated_def)
  next
    case (Some g)
    then show ?thesis using simulated_quiet st' adm assms(2) by (simp add: sm.load_or_store_present)
  qed
qed

lemma Forgetting_simulated:
  assumes "worker_step e sched choice q (Forgetting (req_String q)) r = Some (st', r')"
  shows "simulated e q (Forgetting (req_String q)) r st' r'"
  using assms worker_step_maps [OF assms] adm_step.Drop [of _ q] by (auto simp: simulated_def sm.load_delete)

lemma worker_step_simulated:
  assumes "worker_step e sched choice q st r = Some (st', r')" and "for_name (req_String q) st" and "map_ok (rec_AdmissionMap r)"
  shows "simulated e q st r st' r'"
proof -
  note adm = worker_step_maps [OF assms(1), THEN conjunct1] and quiet = simulated_quiet [of r' r st' st]
  show ?thesis
  proof (cases st)
    case Getting
    then show ?thesis using Getting_simulated assms(1) by blast
  next
    case (Forgetting name)
    then have "name = req_String q" using assms(2) by simp
    then show ?thesis using Forgetting_simulated assms(1) Forgetting by blast
  next
    case (Restoring ru)
    then show ?thesis using recovery_simulated [OF assms(1), of ru] by blast
  next
    case (Listing ru)
    then show ?thesis using recovery_simulated [OF assms(1), of ru] by blast
  next
    case (Readmitting ru items)
    then show ?thesis using recovery_simulated [OF assms(1), of ru items] by blast
  next
    case (CheckingGroup ru)
    then show ?thesis using checks_simulated [OF assms(1) _ _ assms(3), of ru] assms(2) by simp
  next
    case (CheckingLimit ru)
    then show ?thesis using checks_simulated [OF assms(1) _ _ assms(3), of ru] assms(2) by simp
  next
    case (CheckingAdmitted ru)
    then show ?thesis using checks_simulated [OF assms(1) _ _ assms(3), of ru] assms(2) by simp
  next
    case (Admitting ru)
    then show ?thesis using Admitting_simulated [of e sched choice q ru r st' r'] assms(1,2) by simp
  next
    case (Rotating ru)
    then show ?thesis using quiet assms(1) adm by (auto simp: Option.bind_eq_Some_conv)
  qed (use quiet assms(1) adm in \<open>auto simp: case_prod_beta Let_def split: if_splits\<close>)
qed

lemma con_step_spec:
  assumes "con_step e s s'" and "con_inv s"
  shows "spec_step (rec_maxParallel (fst s)) e (adm_of s) (adm_of s')"
  using assms(1)
proof cases
  case (Dequeue ws q r)
  then have "phases (ws(q \<mapsto> Getting)) = phases ws" by (auto simp: phases_def fun_eq_iff)
  then show ?thesis using Dequeue by (simp add: adm_of_def adm_step.Stutter)
next
  case (Work ws q st sched choice r st' r')
  have "for_name (req_String q) st" "map_ok (rec_AdmissionMap r)"
    using assms(2) Work(1,3) by (auto simp: con_inv_simp workers_ok_def)
  from worker_step_simulated [OF Work(4) this] phases_same [where ws = ws and q = q, OF Work(3)]
  show ?thesis by (simp add: Work(1,2) adm_of_def phases_upd simulated_def)
next
  case (Finish ws q res r)
  then have "phases (ws(q := None)) = phases ws" by (auto simp: phases_def fun_eq_iff)
  then show ?thesis using Finish by (simp add: adm_of_def adm_step.Stutter)
next
  case (Node obj r reqs r' ws)
  then show ?thesis using node_requests_frame(2) [OF Node(3)] by (simp add: adm_of_def adm_step.Stutter)
next
  case (Job r name dm i c ws)
  then show ?thesis by (simp add: adm_of_def adm_step.Stutter)
qed

section \<open>Passing the limit\<close>

lemma works_Readmitting:
  "works e req (Readmitting ru items, r) (CheckingGroup ru, r\<lparr>rec_AdmissionMap := readmit items (rec_AdmissionMap r)\<rparr>)"
proof (induction items arbitrary: r)
  case Nil
  show ?case by (rule works_step [of _ _ _ _ "(CheckingGroup ru, r)"]) (simp_all add: readmit_def)
next
  case (Cons cr items)
  let ?r = "if CurrentStatus cr = StatusRunning
    then r\<lparr>rec_AdmissionMap := sm_Store (NamespacedName cr) (ScalingGroupName cr) (rec_AdmissionMap r)\<rparr> else r"
  have eq: "r\<lparr>rec_AdmissionMap := readmit (cr # items) (rec_AdmissionMap r)\<rparr> = ?r\<lparr>rec_AdmissionMap := readmit items (rec_AdmissionMap ?r)\<rparr>"
    by (simp add: readmit_def)
  have "worker_step e [] DoneCase req (Readmitting ru (cr # items)) r = Some (Readmitting ru items, ?r)" by simp
  from works_step [OF this Cons.IH [of ?r]] show ?case by (simp only: eq)
qed

lemma works_checks:
  assumes "\<not> group_taken ru (rec_AdmissionMap r)" and "GetSyncMapLen (rec_AdmissionMap r) < rec_maxParallel r"
  shows "works e req (CheckingGroup ru, r) (Admitting ru, r)"
  using assms by (intro works_step [of _ _ "CheckingGroup ru" _ "(CheckingLimit ru, r)"]
      works_step [of _ _ "CheckingLimit ru" _ "(Admitting ru, r)"]) simp_all

lemma works_recovers:
  assumes "env_ListRollingUpgrades e (hist r) = Inr items" and "rec_AdmissionMap r = []"
    and "r' = (log_event EvListRollingUpgrades r)\<lparr>rec_AdmissionMap := readmit items []\<rparr>"
    and "\<not> group_taken ru (readmit items [])" and "GetSyncMapLen (readmit items []) < rec_maxParallel r"
  shows "works e req (Restoring ru, r) (Admitting ru, r')"
proof -
  let ?r = "log_event EvListRollingUpgrades r"
  have "works e req (Readmitting ru items, ?r) (CheckingGroup ru, r')"
    using works_Readmitting [of e req ru items ?r] assms(2,3) by simp
  then have "works e req (Readmitting ru items, ?r) (Admitting ru, r')"
    by (rule works_trans) (use assms(3-5) in \<open>simp add: works_checks\<close>)
  then have "works e req (Listing ru, r) (Admitting ru, r')"
    using assms(1) by (intro works_step [of _ _ "Listing ru" _ "(Readmitting ru items, ?r)"]) simp_all
  then show ?thesis
    using assms(2) by (intro works_step [of _ _ "Restoring ru" _ "(Listing ru, r)"]) (simp_all add: GetSyncMapLen_length)
qed

text \<open>Two workers that both see room for one more upgrade.\<close>

lemma readmit_all:
  assumes "\<forall>cr \<in> set items. CurrentStatus cr = StatusRunning" and "distinct (map NamespacedName items)"
  shows "map_ok (readmit items [])" "length (readmit items []) = length items"
    "sm_Load (readmit items []) k = Some g \<longleftrightarrow> (\<exists>cr \<in> set items. NamespacedName cr = k \<and> ScalingGroupName cr = g)"
proof -
  show load: "sm_Load (readmit items []) k = Some g \<longleftrightarrow> (\<exists>cr \<in> set items. NamespacedName cr = k \<and> ScalingGroupName cr = g)" for k g
    using readmit_load [OF assms(2)] assms(1) by auto
  show ok: "map_ok (readmit items [])" using store_all [of "[]" items] assms(1) by (simp add: readmit_filter filter_True)
  have "dom (sm_Load (readmit items [])) = NamespacedName ` set items" using load by (auto simp: dom_def)
  then have "card (dom (sm_Load (readmit items []))) = length items" using assms(2) by (simp add: distinct_map card_image distinct_card)
  then show "length (readmit items []) = length items" using sm.size_of_card [OF ok] by simp
qed

lemma limit_race:
  assumes "started r0" and "2 \<le> rec_maxParallel r0" and "rec_ClusterNodesMap r0 \<noteq> []"
    and "request_name_ok a" and "request_name_ok b" and "req_String a \<noteq> req_String b"
    and "\<forall>h. env_GetRollingUpgrade e h (req_String a) = Inr ua" and "\<forall>h. env_GetRollingUpgrade e h (req_String b) = Inr ub"
    and "NamespacedName ua = req_String a" and "NamespacedName ub = req_String b" and "ready_to_run ua" and "ready_to_run ub"
    and "\<forall>h. env_ListRollingUpgrades e h = Inr items" and "\<forall>cr \<in> set items. CurrentStatus cr = StatusRunning"
    and "distinct (map NamespacedName items)" and "int (length items) = rec_maxParallel r0 - 1"
    and "\<forall>cr \<in> set items. NamespacedName cr \<notin> {req_String a, req_String b} \<and>
      \<not> EqualFold (ScalingGroupName cr) (ScalingGroupName ua) \<and> \<not> EqualFold (ScalingGroupName cr) (ScalingGroupName ub)"
  shows "\<exists>r ws ra rb. (con_step e)\<^sup>*\<^sup>* (r0, Map.empty) (r, ws) \<and> ws a = Some (Rotating ra) \<and> ws b = Some (Rotating rb) \<and>
    GetSyncMapLen (rec_AdmissionMap r) = rec_maxParallel r0 + 1"
proof -
  let ?m = "readmit items []"
  note all = readmit_all [OF assms(14,15)]
  have ne: "?m \<noteq> []" using all(2) assms(2,16) by (cases items) auto
  have free: "\<not> group_taken ru ?m" if "ScalingGroupName ru \<in> {ScalingGroupName ua, ScalingGroupName ub}" for ru
    using that assms(17) sm_mem [OF all(1)] all(3) unfolding group_taken_iff by fastforce
  have room: "GetSyncMapLen ?m < rec_maxParallel r0" using all(2) assms(16) by (simp add: GetSyncMapLen_length)
  have "a \<noteq> b" using assms(6) by auto
  obtain ra q1 where q1: "works e a (Getting, r0) (Restoring ra, q1)" "NamespacedName ra = req_String a"
      "ScalingGroupName ra = ScalingGroupName ua" "rec_AdmissionMap q1 = []" "rec_maxParallel q1 = rec_maxParallel r0"
      "rec_ClusterNodesMap q1 = rec_ClusterNodesMap r0" "sm_Load (rec_ReconcileMap q1) = (sm_Load (rec_ReconcileMap r0))(req_String a \<mapsto> ScalingGroupName ua)"
    using works_to_Restoring [of e a ua r0] assms(1,7,9,11) by (auto simp: started_def sm_Load_def)
  have "sm_Load (rec_ReconcileMap q1) (req_String b) = None"
    unfolding q1(7) using assms(1,6) by (simp add: started_def sm_Load_def)
  note q1 = q1(1-6) this
  define r1 where "r1 = (log_event EvListRollingUpgrades q1)\<lparr>rec_AdmissionMap := ?m\<rparr>"
  have "works e a (Restoring ra, q1) (Admitting ra, r1)"
    by (rule works_recovers [OF _ q1(4) r1_def]) (use assms(13) free room q1(3,5) in simp_all)
  from works_trans [OF q1(1) this] have w1: "works e a (Getting, r0) (Admitting ra, r1)" .
  obtain rb r2 where r2: "works e b (Getting, r1) (Restoring rb, r2)" "NamespacedName rb = req_String b"
      "ScalingGroupName rb = ScalingGroupName ub" "rec_AdmissionMap r2 = ?m" "rec_maxParallel r2 = rec_maxParallel r0"
      "rec_ClusterNodesMap r2 = rec_ClusterNodesMap r0"
    using works_to_Restoring [of e b ub r1] assms(8,10,12) q1(5-7) by (auto simp: r1_def)
  have "works e b (Restoring rb, r2) (Admitting rb, r2)"
    by (rule works_step [of _ _ "Restoring rb" _ "(CheckingGroup rb, r2)"])
      (use ne free room r2(3-5) in \<open>simp_all add: GetSyncMapLen_length works_checks\<close>)
  from works_trans [OF r2(1) this] have w2: "works e b (Getting, r1) (Admitting rb, r2)" .
  obtain r3 where r3: "works e a (Admitting ra, r2) (Rotating ra, r3)" "rec_AdmissionMap r3 = rec_AdmissionMap (admit ra r2)"
      "rec_ClusterNodesMap r3 = rec_ClusterNodesMap r0"
    using works_to_Rotating [of r2 e a ra] assms(3) r2(6) by auto
  obtain r4 where r4: "works e b (Admitting rb, r3) (Rotating rb, r4)" "rec_AdmissionMap r4 = rec_AdmissionMap (admit rb r3)"
    using works_to_Rotating [of r3 e b rb] assms(3) r3(3) by auto
  have "(con_step e)\<^sup>*\<^sup>* (r0, Map.empty) (r4, [a \<mapsto> Rotating ra, b \<mapsto> Rotating rb])"
    using two_workers [OF assms(2,4,5) \<open>a \<noteq> b\<close> w1 _ w2 r3(1) r4(1)] q1(5) by (simp add: r1_def)
  moreover have "GetSyncMapLen (rec_AdmissionMap r4) = rec_maxParallel r0 + 1"
  proof -
    have len: "length (rec_AdmissionMap (admit ru r)) = Suc (length (rec_AdmissionMap r)) \<and> map_ok (rec_AdmissionMap (admit ru r))"
      if "map_ok (rec_AdmissionMap r)" "abs_adm r (NamespacedName ru) = None" for ru r
      using that by (simp add: sm.load_or_store_fresh sm.size_store_fresh sm.ok_store)
    have none: "sm_Load ?m k = None" if "k \<in> {req_String a, req_String b}" for k
      using that all(3) assms(17) by (metis (no_types, lifting) not_None_eq)
    have l3: "length (rec_AdmissionMap r3) = Suc (length ?m)" "map_ok (rec_AdmissionMap r3)"
      using len [of r2 ra] all(1) none r2(4) q1(2) r3(2) by simp_all
    have "abs_adm r3 (req_String b) = None"
      using none r2(4) r3(2) q1(2) assms(6) by (simp add: sm.load_or_store_fresh sm.load_store)
    then have "length (rec_AdmissionMap r4) = Suc (Suc (length ?m))" using len [of r3 rb] l3 r2(2) r4(2) by simp
    then show ?thesis using all(2) assms(16) by (simp add: GetSyncMapLen_length)
  qed
  ultimately show ?thesis using \<open>a \<noteq> b\<close> by (intro exI [of _ r4] exI [of _ "[a \<mapsto> Rotating ra, b \<mapsto> Rotating rb]"]) simp
qed

section \<open>Properties\<close>

text \<open>C11: the concurrent workers refine the abstract admission, step by step: in every state that they reach,
  whatever the API lists, each step of a worker, of a goroutine or on a node event is one step of the
  specification. So the admissions change by one upgrade at a time: one is dropped only after the API
  reported it gone, deleted or finished; one is added only if the worker of its request saw, earlier in
  the same reconcile, first that no other upgrade of its group was admitted and then that the limit was
  not reached or the upgrade was admitted already; or if it was listed as running to a worker that had
  seen no admission at all.\<close>

theorem controller_refines_admission:
  assumes "started r0" and "api_names_ok e" and "(con_step e)\<^sup>*\<^sup>* (r0, Map.empty) s"
  shows "adm_of (r0, Map.empty) = (Map.empty, Map.empty) \<and>
    (\<forall>s'. con_step e s s' \<longrightarrow> adm_step (rec_maxParallel r0) (reported_ended e) (reported_running e) (adm_of s) (adm_of s'))"
proof -
  have "adm_of (r0, Map.empty) = (Map.empty, Map.empty)"
    using assms(1) by (simp add: adm_of_def started_def sm_Load_def phases_def fun_eq_iff)
  moreover obtain r ws where s: "s = (r, ws)" by fastforce
  then have "rec_maxParallel r = rec_maxParallel r0" "con_inv s" using con_reachable [OF assms(1,2)] assms(3) by simp_all
  ultimately show ?thesis using con_step_spec s by fastforce
qed

text \<open>A step that admits an upgrade.\<close>

theorem controller_refines_admission_witness:
  "\<exists>s s'. (con_step race_env)\<^sup>*\<^sup>* (race_reconciler, Map.empty) s \<and> con_step race_env s s' \<and>
     fst (adm_of s) = Map.empty \<and> fst (adm_of s') = [''ns/ru'' \<mapsto> ''asg''] \<and>
     adm_step 2 (reported_ended race_env) (reported_running race_env) (adm_of s) (adm_of s')"
proof -
  let ?q = sample_request
  have n: "req_String ?q = ''ns/ru''" "ScalingGroupName sample_RollingUpgrade = ''asg''"
    by (simp_all add: req_String_def ScalingGroupName_def sample_RollingUpgrade_def)
  have "sm_Load (rec_ReconcileMap race_reconciler) (NamespacedName sample_RollingUpgrade) = None" "rec_AdmissionMap race_reconciler = []"
    by (simp_all add: race_reconciler_def sample_reconciler_def sm_Load_def)
  then obtain ru r where r: "works race_env ?q (Getting, race_reconciler) (Admitting ru, r)" "NamespacedName ru = ''ns/ru''"
      "ScalingGroupName ru = ''asg''" "rec_AdmissionMap r = []"
    using works_to_Admitting [of race_env ?q sample_RollingUpgrade race_reconciler] race_sample(2,6,8,10) race_ready(1) n by auto
  let ?s = "(r, [?q \<mapsto> Admitting ru])" and ?s' = "(admit ru r, [?q \<mapsto> Admitting ru, ?q \<mapsto> Attaching ru])"
  have "con_step race_env (race_reconciler, Map.empty) (race_reconciler, [?q \<mapsto> Getting])"
    by (rule con_step.Dequeue) (simp_all add: MaxConcurrentReconciles_def race_sample(2,4))
  from converse_rtranclp_into_rtranclp [of "con_step race_env", OF this] works_lift [OF r(1), of "[?q \<mapsto> Getting]"]
  have reach: "(con_step race_env)\<^sup>*\<^sup>* (race_reconciler, Map.empty) ?s" by simp
  moreover have step: "con_step race_env ?s ?s'" by (rule con_step.Work [where st = "Admitting ru" and sched = "[]" and choice = DoneCase]) simp_all
  moreover have "adm_step 2 (reported_ended race_env) (reported_running race_env) (adm_of ?s) (adm_of ?s')"
    using controller_refines_admission [OF race_sample(1) race_api(1) reach] step race_sample(2) by simp
  moreover have "fst (adm_of ?s) = Map.empty" "fst (adm_of ?s') = [''ns/ru'' \<mapsto> ''asg'']"
    using r(2-4) by (simp_all add: adm_of_def sync_map_defs fun_eq_iff)
  ultimately show ?thesis by blast
qed

text \<open>C35: the limit can be passed. Let one upgrade less than \<open>max-parallel\<close> be running when the controller
  starts, and let requests come for two further upgrades, of other groups. Two workers can both see room
  for one more upgrade before either is admitted; both are admitted and rotate nodes at the same time,
  so that one more upgrade than \<open>max-parallel\<close> is admitted.\<close>

theorem concurrent_limit_race:
  assumes "started r0" and "2 \<le> rec_maxParallel r0" and "rec_ClusterNodesMap r0 \<noteq> []"
    and "request_name_ok a" and "request_name_ok b" and "req_String a \<noteq> req_String b"
    and "\<forall>h. env_GetRollingUpgrade e h (req_String a) = Inr ua" and "\<forall>h. env_GetRollingUpgrade e h (req_String b) = Inr ub"
    and "NamespacedName ua = req_String a" and "NamespacedName ub = req_String b" and "ready_to_run ua" and "ready_to_run ub"
    and "\<forall>h. env_ListRollingUpgrades e h = Inr items" and "\<forall>cr \<in> set items. CurrentStatus cr = StatusRunning"
    and "distinct (map NamespacedName items)" and "int (length items) = rec_maxParallel r0 - 1"
    and "\<forall>cr \<in> set items. NamespacedName cr \<notin> {req_String a, req_String b} \<and>
      \<not> EqualFold (ScalingGroupName cr) (ScalingGroupName ua) \<and> \<not> EqualFold (ScalingGroupName cr) (ScalingGroupName ub)"
  shows "\<exists>r ws ra rb. (con_step e)\<^sup>*\<^sup>* (r0, Map.empty) (r, ws) \<and> ws a = Some (Rotating ra) \<and> ws b = Some (Rotating rb) \<and>
    GetSyncMapLen (rec_AdmissionMap r) = rec_maxParallel r0 + 1"
  by (rule limit_race) (fact assms)+

text \<open>The upgrade of another group that is running already.\<close>

definition running_RollingUpgrade :: RollingUpgrade where
  "running_RollingUpgrade = SetCurrentStatus StatusRunning (sample_RollingUpgrade\<lparr>meta_Name := ''running'',
     ru_Spec := (ru_Spec sample_RollingUpgrade)\<lparr>spec_AsgName := ''second''\<rparr>\<rparr>)"

theorem concurrent_limit_race_witness:
  "\<exists>r ws. (con_step (race_env\<lparr>env_ListRollingUpgrades := \<lambda>h. Inr [running_RollingUpgrade]\<rparr>))\<^sup>*\<^sup>* (race_reconciler, Map.empty) (r, ws) \<and>
     rec_maxParallel race_reconciler = 2 \<and> GetSyncMapLen (rec_AdmissionMap r) = 3"
proof -
  let ?e = "race_env\<lparr>env_ListRollingUpgrades := \<lambda>h. Inr [running_RollingUpgrade]\<rparr>" and ?a = sample_request and ?b = other_request
  have two: "2 \<le> rec_maxParallel race_reconciler" by (simp add: race_sample(2))
  have ab: "req_String ?a \<noteq> req_String ?b" by (simp add: req_String_def)
  have get: "\<forall>h. env_GetRollingUpgrade ?e h (req_String ?a) = Inr sample_RollingUpgrade"
    "\<forall>h. env_GetRollingUpgrade ?e h (req_String ?b) = Inr other_RollingUpgrade" using race_sample(6,7) by simp_all
  have "CurrentStatus running_RollingUpgrade = StatusRunning" "NamespacedName running_RollingUpgrade = ''ns/running''"
    "ScalingGroupName running_RollingUpgrade = ''second''"
    by (simp_all add: running_RollingUpgrade_def SetCurrentStatus_def CurrentStatus_def NamespacedName_def ScalingGroupName_def sample_RollingUpgrade_def)
  moreover have "ScalingGroupName sample_RollingUpgrade = ''asg''" by (simp add: ScalingGroupName_def sample_RollingUpgrade_def)
  ultimately show ?thesis
    using concurrent_limit_race [OF race_sample(1) two race_sample(3-5) ab get race_sample(8,9) race_ready, of "[running_RollingUpgrade]"]
      race_sample(2,11) by (auto simp: req_String_def EqualFold_def fold_char_def)
qed

section \<open>A limit of zero\<close>

text \<open>With a limit of zero and no running upgrade to recover no worker comes further than the check of the
  limit.\<close>

fun held_back :: "stage \<Rightarrow> bool" where
  "held_back (Readmitting ru items) = (running items = 0)"
| "held_back (Admitting ru) = False"
| "held_back (Attaching ru) = False"
| "held_back (Populating ru) = False"
| "held_back (Rotating ru) = False"
| "held_back _ = True"

definition all_held_back :: "reconciler \<times> workers \<Rightarrow> bool" where
  "all_held_back s \<longleftrightarrow> rec_AdmissionMap (fst s) = [] \<and> rec_maxParallel (fst s) \<le> 0 \<and> list_all not_termination (hist (fst s)) \<and>
     (\<forall>st \<in> ran (snd s). held_back st)"

lemma worker_step_held_back:
  assumes "worker_step e sched choice req st r = Some (st', r')" and "held_back st" and "lists_at_most 0 e"
    and "rec_AdmissionMap r = []" and "rec_maxParallel r \<le> 0"
  shows "held_back st'" and "stage_admissions st [] = []"
proof -
  have "held_back (after_get ru)" for ru by (simp add: after_get_def case_prod_beta Let_def)
  then show "held_back st'" and "stage_admissions st [] = []"
    using assms
    by (cases rule: worker_step.cases [of "(e, sched, choice, req, st, r)"];
        auto simp: lists_at_most_def running_def case_prod_beta Let_def GetSyncMapLen_length sm_Load_def sm_Delete_def
          split: sum.splits if_splits)+
qed

lemma con_step_held_back:
  assumes "con_step e (r, ws) (r', ws')" and "lists_at_most 0 e" and "all_held_back (r, ws)"
  shows "all_held_back (r', ws')"
proof -
  note held = assms(3) [unfolded all_held_back_def fst_conv snd_conv]
  have "emits not_termination r r'"
  proof (rule ccontr)
    assume "\<not> emits not_termination r r'"
    with assms(1) obtain req ru where "ws req = Some (Rotating ru)" by (rule con_step_terminates)
    then have "Rotating ru \<in> ran ws" by (rule ranI)
    then show False using held by fastforce
  qed
  then have calm: "list_all not_termination (hist r')" using held by (auto simp: emits_def)
  from assms(1) show ?thesis
  proof cases
    case (Work req st sched choice st')
    have st: "held_back st" using held Work(2) by (auto simp: ran_def)
    note moved = worker_step_held_back [OF Work(3) st assms(2)]
    have "\<forall>st \<in> ran ws'. held_back st" using held moved Work(1) by (auto simp: ran_def split: if_splits)
    then show ?thesis using held moved calm worker_step_maps [OF Work(3)] by (simp add: all_held_back_def)
  next
    case (Node obj reqs)
    then show ?thesis using held calm node_requests_frame [OF Node(2)] by (simp add: all_held_back_def)
  qed (use held calm in \<open>auto simp: all_held_back_def ran_def split: if_splits\<close>)
qed

interpretation closed: invariant_system "\<lambda>s. started (fst s) \<and> hist (fst s) = [] \<and> rec_maxParallel (fst s) \<le> 0 \<and> snd s = Map.empty"
  "\<lambda>s s'. lists_at_most 0 e \<and> con_step e s s'" all_held_back for e
proof
  fix s :: "reconciler \<times> workers" assume "started (fst s) \<and> hist (fst s) = [] \<and> rec_maxParallel (fst s) \<le> 0 \<and> snd s = Map.empty"
  then show "all_held_back s" by (simp add: all_held_back_def started_def)
next
  fix s s' assume "all_held_back s" "lists_at_most 0 e \<and> con_step e s s'"
  then show "all_held_back s'" using con_step_held_back [of e "fst s" "snd s" "fst s'" "snd s'"] by simp
qed

lemma works_waits:
  assumes "env_ListRollingUpgrades e (hist r) = Inr items" and "running items = 0" and "rec_AdmissionMap r = []" and "rec_maxParallel r \<le> 0"
  shows "works e req (Restoring ru, r) (Unlocking ru (requeue, None), log_event EvListRollingUpgrades r)"
proof -
  let ?r = "log_event EvListRollingUpgrades r"
  have "readmit items [] = []" using assms(2) by (induction items) (auto simp: readmit_def running_def split: if_splits)
  then have "?r\<lparr>rec_AdmissionMap := readmit items (rec_AdmissionMap ?r)\<rparr> = ?r" using assms(3) by (simp add: log_event_def)
  then have "works e req (Readmitting ru items, ?r) (CheckingGroup ru, ?r)"
    using works_Readmitting [of e req ru items ?r] by (rule subst)
  moreover have "works e req (CheckingGroup ru, ?r) (Unlocking ru (requeue, None), ?r)"
    using assms(3,4) by (intro works_step [of _ _ "CheckingGroup ru" _ "(CheckingLimit ru, ?r)"]
        works_step [of _ _ "CheckingLimit ru" _ "(CheckingAdmitted ru, ?r)"]
        works_step [of _ _ "CheckingAdmitted ru" _ "(Unlocking ru (requeue, None), ?r)"])
      (simp_all add: GetSyncMapLen_length group_taken_def sm_Range_any_def sm_Load_def)
  ultimately have "works e req (Readmitting ru items, ?r) (Unlocking ru (requeue, None), ?r)" by (rule works_trans)
  then show ?thesis
    using assms(1,3) by (intro works_step [of _ _ "Restoring ru" _ "(Listing ru, r)"]
        works_step [of _ _ "Listing ru" _ "(Readmitting ru items, ?r)"]) (simp_all add: GetSyncMapLen_length)
qed

end
