(* ===== verification/Logging.thy ===== *)
theory Logging
  imports World
begin

text \<open>
  \<^verbatim>\<open>controllers/common/log\<close>: the default logger with its level and formatter, the methods of the package,
  the fields of an entry, and the logger of retries of AWS requests. \<^verbatim>\<open>logrus\<close>, which writes the lines,
  is a parameter. Shown: what is written at which level, and that logging a retry keeps its delay.
\<close>

section \<open>The default logger\<close>

datatype log_level = DebugLevel | InfoLevel | WarnLevel

record logger =
  log_Level :: log_level
  log_JSON :: bool

definition newLogrusLogger :: logger where
  "newLogrusLogger = \<lparr>log_Level = InfoLevel, log_JSON = False\<rparr>"

definition SetLevel :: "string \<Rightarrow> logger \<Rightarrow> logger" where
  "SetLevel logLevel l =
     l\<lparr>log_Level := (if logLevel = ''debug'' then DebugLevel
                     else if logLevel = ''warning'' then WarnLevel
                     else if logLevel = ''info'' then InfoLevel
                     else InfoLevel)\<rparr>"

definition SetJSONFormatter :: "logger \<Rightarrow> logger" where
  "SetJSONFormatter l = l\<lparr>log_JSON := True\<rparr>"

text \<open>\<^verbatim>\<open>Fields.With\<close> and \<^verbatim>\<open>Fields.WithFields\<close>; ranging over the second map in any order gives the same map.\<close>

definition With :: "string \<Rightarrow> 'v \<Rightarrow> (string \<rightharpoonup> 'v) \<Rightarrow> (string \<rightharpoonup> 'v)" where
  "With k v f = f(k \<mapsto> v)"

definition WithFields :: "(string, 'v) gomap \<Rightarrow> (string \<rightharpoonup> 'v) \<Rightarrow> (string \<rightharpoonup> 'v)" where
  "WithFields f2 f = fold (\<lambda>(k, v) m. m(k \<mapsto> v)) f2 f"

lemma WithFields_order:
  assumes "map_ok f2" and "mset f2' = mset f2"
  shows "WithFields f2' f = f ++ map_of f2"
proof -
  have "WithFields g f = f ++ map_of (rev g)" for g
    by (induction g arbitrary: f) (auto simp: WithFields_def map_add_def fun_eq_iff split: option.splits)
  moreover have "distinct (map fst f2')"
    using assms unfolding map_ok_def by (metis mset_eq_imp_distinct_iff mset_map)
  then have "map_of (rev f2') = map_of f2"
    using assms mset_eq_setD [OF assms(2)] unfolding map_ok_def
    by (metis (no_types, lifting) distinct_rev map_of_inject_set rev_map set_rev)
  ultimately show ?thesis by simp
qed

section \<open>The methods of the package\<close>

text \<open>
  The methods of the interface \<^verbatim>\<open>Logger\<close>. The type \<open>logrus\<close> is what the library does for a method on a logger with
  a format, which is empty for the methods without one, and arguments: the lines that are written, and how it ends.
\<close>

datatype log_method =
  LogDebug | LogDebugf | LogDebugln | LogError | LogErrorf | LogErrorln | LogFatal | LogFatalf |
  LogFatalln | LogInfo | LogInfof | LogInfoln | LogPanic | LogPanicf | LogPanicln | LogPrint |
  LogPrintf | LogPrintln | LogWarn | LogWarnf | LogWarning | LogWarningf | LogWarningln | LogWarnln

datatype log_end = Returns | Panics | Exits

type_synonym 'a logrus = "logger \<Rightarrow> log_method \<Rightarrow> string \<Rightarrow> 'a list \<Rightarrow> string list \<times> log_end"

definition Debug :: "'a logrus \<Rightarrow> 'a list \<Rightarrow> logger \<Rightarrow> string list \<times> log_end" where
  "Debug lib args l = lib l LogDebug '''' args"

definition Debugf :: "'a logrus \<Rightarrow> string \<Rightarrow> 'a list \<Rightarrow> logger \<Rightarrow> string list \<times> log_end" where
  "Debugf lib format args l = lib l LogDebugf format args"

definition Debugln :: "'a logrus \<Rightarrow> 'a list \<Rightarrow> logger \<Rightarrow> string list \<times> log_end" where
  "Debugln lib args l = lib l LogDebugln '''' args"

definition Error :: "'a logrus \<Rightarrow> 'a list \<Rightarrow> logger \<Rightarrow> string list \<times> log_end" where
  "Error lib args l = lib l LogError '''' args"

definition Errorf_log :: "'a logrus \<Rightarrow> string \<Rightarrow> 'a list \<Rightarrow> logger \<Rightarrow> string list \<times> log_end" where
  "Errorf_log lib format args l = lib l LogErrorf format args"

definition Errorln :: "'a logrus \<Rightarrow> 'a list \<Rightarrow> logger \<Rightarrow> string list \<times> log_end" where
  "Errorln lib args l = lib l LogErrorln '''' args"

definition Fatal :: "'a logrus \<Rightarrow> 'a list \<Rightarrow> logger \<Rightarrow> string list \<times> log_end" where
  "Fatal lib args l = lib l LogFatal '''' args"

definition Fatalf :: "'a logrus \<Rightarrow> string \<Rightarrow> 'a list \<Rightarrow> logger \<Rightarrow> string list \<times> log_end" where
  "Fatalf lib format args l = lib l LogFatalf format args"

definition Fatalln :: "'a logrus \<Rightarrow> 'a list \<Rightarrow> logger \<Rightarrow> string list \<times> log_end" where
  "Fatalln lib args l = lib l LogFatalln '''' args"

definition Info :: "'a logrus \<Rightarrow> 'a list \<Rightarrow> logger \<Rightarrow> string list \<times> log_end" where
  "Info lib args l = lib l LogInfo '''' args"

definition Infof :: "'a logrus \<Rightarrow> string \<Rightarrow> 'a list \<Rightarrow> logger \<Rightarrow> string list \<times> log_end" where
  "Infof lib format args l = lib l LogInfof format args"

definition Infoln :: "'a logrus \<Rightarrow> 'a list \<Rightarrow> logger \<Rightarrow> string list \<times> log_end" where
  "Infoln lib args l = lib l LogInfoln '''' args"

definition Panic :: "'a logrus \<Rightarrow> 'a list \<Rightarrow> logger \<Rightarrow> string list \<times> log_end" where
  "Panic lib args l = lib l LogPanic '''' args"

definition Panicf :: "'a logrus \<Rightarrow> string \<Rightarrow> 'a list \<Rightarrow> logger \<Rightarrow> string list \<times> log_end" where
  "Panicf lib format args l = lib l LogPanicf format args"

definition Panicln :: "'a logrus \<Rightarrow> 'a list \<Rightarrow> logger \<Rightarrow> string list \<times> log_end" where
  "Panicln lib args l = lib l LogPanicln '''' args"

definition Print :: "'a logrus \<Rightarrow> 'a list \<Rightarrow> logger \<Rightarrow> string list \<times> log_end" where
  "Print lib args l = lib l LogPrint '''' args"

definition Printf :: "'a logrus \<Rightarrow> string \<Rightarrow> 'a list \<Rightarrow> logger \<Rightarrow> string list \<times> log_end" where
  "Printf lib format args l = lib l LogPrintf format args"

definition Println :: "'a logrus \<Rightarrow> 'a list \<Rightarrow> logger \<Rightarrow> string list \<times> log_end" where
  "Println lib args l = lib l LogPrintln '''' args"

definition Warn :: "'a logrus \<Rightarrow> 'a list \<Rightarrow> logger \<Rightarrow> string list \<times> log_end" where
  "Warn lib args l = lib l LogWarn '''' args"

definition Warnf :: "'a logrus \<Rightarrow> string \<Rightarrow> 'a list \<Rightarrow> logger \<Rightarrow> string list \<times> log_end" where
  "Warnf lib format args l = lib l LogWarnf format args"

definition Warning :: "'a logrus \<Rightarrow> 'a list \<Rightarrow> logger \<Rightarrow> string list \<times> log_end" where
  "Warning lib args l = lib l LogWarning '''' args"

definition Warningf :: "'a logrus \<Rightarrow> string \<Rightarrow> 'a list \<Rightarrow> logger \<Rightarrow> string list \<times> log_end" where
  "Warningf lib format args l = lib l LogWarningf format args"

definition Warningln :: "'a logrus \<Rightarrow> 'a list \<Rightarrow> logger \<Rightarrow> string list \<times> log_end" where
  "Warningln lib args l = lib l LogWarningln '''' args"

definition Warnln :: "'a logrus \<Rightarrow> 'a list \<Rightarrow> logger \<Rightarrow> string list \<times> log_end" where
  "Warnln lib args l = lib l LogWarnln '''' args"

text \<open>The package function \<^verbatim>\<open>WithFields\<close>: an entry of the default logger.\<close>

record 'v log_entry =
  entry_logger :: logger
  entry_fields :: "string \<rightharpoonup> 'v"

definition WithFields_Logger :: "(string \<rightharpoonup> 'v) \<Rightarrow> logger \<Rightarrow> 'v log_entry" where
  "WithFields_Logger fs l = \<lparr>entry_logger = l, entry_fields = fs\<rparr>"

text \<open>
  What is documented of \<^verbatim>\<open>logrus\<close>: a line is written if the logger has the severity of the method or a less
  severe one; \<^verbatim>\<open>Fatal\<close> methods then exit and \<^verbatim>\<open>Panic\<close> methods panic, whether or not a line is written.
\<close>

fun severity :: "log_method \<Rightarrow> nat" where
  "severity LogDebug = 5"
| "severity LogDebugf = 5"
| "severity LogDebugln = 5"
| "severity LogError = 2"
| "severity LogErrorf = 2"
| "severity LogErrorln = 2"
| "severity LogFatal = 1"
| "severity LogFatalf = 1"
| "severity LogFatalln = 1"
| "severity LogInfo = 4"
| "severity LogInfof = 4"
| "severity LogInfoln = 4"
| "severity LogPrint = 4"
| "severity LogPrintf = 4"
| "severity LogPrintln = 4"
| "severity LogPanic = 0"
| "severity LogPanicf = 0"
| "severity LogPanicln = 0"
| "severity LogWarn = 3"
| "severity LogWarnf = 3"
| "severity LogWarning = 3"
| "severity LogWarningf = 3"
| "severity LogWarningln = 3"
| "severity LogWarnln = 3"

fun level_severity :: "log_level \<Rightarrow> nat" where
  "level_severity WarnLevel = 3"
| "level_severity InfoLevel = 4"
| "level_severity DebugLevel = 5"

definition logrus_ok :: "'a logrus \<Rightarrow> bool" where
  "logrus_ok lib \<longleftrightarrow> (\<forall>l m format args. (fst (lib l m format args) \<noteq> [] \<longleftrightarrow> severity m \<le> level_severity (log_Level l)) \<and>
     snd (lib l m format args) = (if severity m = 0 then Panics else if severity m = 1 then Exits else Returns))"

lemma logrus_okD:
  assumes "logrus_ok lib"
  shows "fst (lib l m format args) = [] \<longleftrightarrow> \<not> severity m \<le> level_severity (log_Level l)"
    and "snd (lib l m format args) = (if severity m = 0 then Panics else if severity m = 1 then Exits else Returns)"
  using assms unfolding logrus_ok_def by blast+

lemmas log_methods =
  Debug_def Debugf_def Debugln_def Error_def Errorf_log_def Errorln_def Fatal_def Fatalf_def Fatalln_def Info_def
  Infof_def Infoln_def Panic_def Panicf_def Panicln_def Print_def Printf_def Println_def Warn_def Warnf_def
  Warning_def Warningf_def Warningln_def Warnln_def

text \<open>Each level and what it shows; only the methods for it end the program.\<close>

lemma SetLevel_shows:
  assumes "logrus_ok lib"
  shows "fst (Debugf lib format args (SetLevel s l)) \<noteq> [] \<longleftrightarrow> s = ''debug''"
    and "fst (Infof lib format args (SetLevel s l)) \<noteq> [] \<longleftrightarrow> s \<noteq> ''warning''"
    and "fst (Println lib args (SetLevel s l)) \<noteq> [] \<longleftrightarrow> s \<noteq> ''warning''"
    and "fst (Warnf lib format args l) \<noteq> []" "fst (Errorf_log lib format args l) \<noteq> []"
    and "snd (Errorf_log lib format args l) = Returns" "snd (Fatalf lib format args l) = Exits" "snd (Panicf lib format args l) = Panics"
  by (cases "log_Level l"; simp add: log_methods logrus_okD [OF assms] SetLevel_def)+

section \<open>Retries\<close>

text \<open>A request of the AWS SDK, as far as the retry logger reads it.\<close>

record aws_request =
  awsr_ServiceName :: string
  awsr_Operation :: "string option"
  awsr_Error :: "error option"
  awsr_HTTPResponse :: "(int \<times> string) option"

text \<open>
  \<^verbatim>\<open>RetryRules\<close> with the rules of the SDK's retryer: the delay and what logging it does. Without an error and
  without a response it is a nil dereference.
\<close>

datatype log_arg = StringArg string | DurationArg duration

definition RetryRules ::
  "log_arg logrus \<Rightarrow> (aws_request \<Rightarrow> duration) \<Rightarrow> aws_request \<Rightarrow> logger \<Rightarrow> (duration \<times> string list \<times> log_end) option" where
  "RetryRules lib rules r l =
     (let duration = rules r;
          name = (case awsr_Operation r of Some n \<Rightarrow> n | None \<Rightarrow> '''');
          method = awsr_ServiceName r @ ''/'' @ name
      in do {
        err \<leftarrow> (case awsr_Error r of
                  Some er \<Rightarrow> Some (error_msg er)
                | None \<Rightarrow> map_option (\<lambda>(code, status). Itoa code @ '' '' @ status) (awsr_HTTPResponse r));
        Some (duration,
          Infof lib ''retryable: %v -- %v, will retry after %v'' [StringArg err, StringArg method, DurationArg duration] l) })"

text \<open>Logging does not change the delay and does not end the program; there is no line at level warning.\<close>

lemma RetryRules_transparent:
  assumes "RetryRules lib rules r l = Some (d, out)" and "logrus_ok lib"
  shows "d = rules r" and "snd out = Returns" and "fst out = [] \<longleftrightarrow> log_Level l = WarnLevel"
proof -
  obtain format args where "d = rules r" and out: "out = lib l LogInfof format args"
    using assms(1) by (auto simp: RetryRules_def Let_def log_methods Option.bind_eq_Some_conv)
  then show "d = rules r" by simp
  show "snd out = Returns" "fst out = [] \<longleftrightarrow> log_Level l = WarnLevel"
    by (cases "log_Level l"; simp add: out logrus_okD [OF assms(2)])+
qed

end
