(* ===== verification/Manager_Startup.thy ===== *)
theory Manager_Startup
  imports Concurrent_Admission Logging
begin

text \<open>
  The start of the manager: \<^verbatim>\<open>main.go\<close> with its flags, the region of \<^verbatim>\<open>controllers/providers/aws/utils.go\<close> and
  the level of the default logger. What
  controller-runtime and the AWS SDK answer while the manager is set up is the record \<open>boot\<close>. \<open>None\<close> is a
  panic, \<open>Exited\<close> an exit with status 1 after the message was logged, and \<open>Served\<close> the controller that was
  run until the manager stopped without an error. The properties follow the flags into what the
  concurrent workers of that controller do.
\<close>

section \<open>Start-up\<close>

record flags =
  flag_debugMode :: bool
  flag_logMode :: string
  flag_metricsAddr :: string
  flag_probeAddr :: string
  flag_enableLeaderElection :: bool
  flag_namespace :: string
  flag_maxParallel :: int
  flag_maxAPIRetries :: int
  flag_drainTimeout :: int
  flag_ignoreDrainFailures :: bool
  flag_maxReplacementNodes :: int
  flag_earlyCordonNodes :: bool

definition default_flags :: flags where
  "default_flags = \<lparr>flag_debugMode = False, flag_logMode = ''text'', flag_metricsAddr = '':8080'', flag_probeAddr = '':8081'',
     flag_enableLeaderElection = False, flag_namespace = '''', flag_maxParallel = 10, flag_maxAPIRetries = 12,
     flag_drainTimeout = 900, flag_ignoreDrainFailures = False, flag_maxReplacementNodes = 0,
     flag_earlyCordonNodes = False\<rparr>"

text \<open>\<^verbatim>\<open>ctrl.Options\<close>; without default namespaces the manager watches all namespaces.\<close>

record ctrl_options =
  opt_MetricsBindAddress :: string
  opt_WebhookPort :: int
  opt_HealthProbeBindAddress :: string
  opt_LeaderElection :: bool
  opt_LeaderElectionID :: string
  opt_DefaultNamespaces :: "string list option"

definition ctrlOpts :: "flags \<Rightarrow> ctrl_options" where
  "ctrlOpts f =
     (let opts = \<lparr>opt_MetricsBindAddress = flag_metricsAddr f, opt_WebhookPort = 9443, opt_HealthProbeBindAddress = flag_probeAddr f,
            opt_LeaderElection = flag_enableLeaderElection f, opt_LeaderElectionID = ''d6edb06e.keikoproj.io'',
            opt_DefaultNamespaces = None\<rparr>
      in if flag_namespace f \<noteq> '''' then opts\<lparr>opt_DefaultNamespaces := Some [flag_namespace f]\<rparr> else opts)"

text \<open>The retryer of the AWS session, and the configuration of the cache of its answers, with the
  times to live that are set for a service and a call, in this order.\<close>

record DefaultRetryer =
  NumMaxRetries :: int
  MinThrottleDelay :: duration
  MaxThrottleDelay :: duration
  MinRetryDelay :: duration
  MaxRetryDelay :: duration

definition retryer :: "flags \<Rightarrow> DefaultRetryer" where
  "retryer f = \<lparr>NumMaxRetries = flag_maxAPIRetries f, MinThrottleDelay = Second * 5, MaxThrottleDelay = Second * 60,
     MinRetryDelay = Second * 1, MaxRetryDelay = Second * 5\<rparr>"

record cache_config =
  cache_DefaultTTL :: duration
  cache_PruneInterval :: duration
  cache_MaxItems :: int
  cache_ItemsToPrune :: int
  cache_TTLs :: "(string \<times> string \<times> duration) list"

definition cacheCfg :: cache_config where
  "cacheCfg = \<lparr>cache_DefaultTTL = Second * 0, cache_PruneInterval = 3600 * Second, cache_MaxItems = 5000, cache_ItemsToPrune = 500,
     cache_TTLs = [(''autoscaling'', ''DescribeAutoScalingGroups'', 60 * Second), (''ec2'', ''DescribeLaunchTemplates'', 60 * Second)]\<rparr>"

text \<open>The answers of controller-runtime and the AWS SDK during the start, errors as \<open>Some\<close>.\<close>

record boot =
  boot_GetConfig :: "error option"
  boot_NewManager :: "ctrl_options \<Rightarrow> error option"
  boot_MetadataSession :: "error option"
  boot_MetadataRegion :: "error + string"
  boot_NewSession :: "string \<Rightarrow> DefaultRetryer \<Rightarrow> error option"
  boot_SetupController :: "error option"
  boot_AddHealthzCheck :: "error option"
  boot_AddReadyzCheck :: "error option"
  boot_Start :: "error option"

definition DeriveRegion :: "env \<Rightarrow> boot \<Rightarrow> (error + string) option" where
  "DeriveRegion e b =
     (if env_Getenv e ''AWS_REGION'' \<noteq> '''' then Some (Inr (env_Getenv e ''AWS_REGION''))
      else if boot_MetadataSession b \<noteq> None then None
      else Some (case boot_MetadataRegion b of
                   Inl err \<Rightarrow> Inl (Wrap ''cannot reach ec2metadata, if running locally export AWS_REGION'' err)
                 | Inr region \<Rightarrow> Inr region))"

definition main_logger :: "flags \<Rightarrow> logger" where
  "main_logger f =
     (let l = (if flag_logMode f = ''json'' then SetJSONFormatter newLogrusLogger else newLogrusLogger)
      in if flag_debugMode f then SetLevel ''debug'' l else l)"

definition new_reconciler :: "flags \<Rightarrow> metrics \<Rightarrow> reconciler" where
  "new_reconciler f m = \<lparr>hist = [], registry = m, rec_AdmissionMap = [], rec_maxParallel = 0, rec_DrainMapper = [],
     rec_ClusterNodesMap = [], rec_ReconcileMap = [], rec_DrainTimeout = flag_drainTimeout f,
     rec_IgnoreDrainFailures = flag_ignoreDrainFailures f, rec_ReplacementNodesMap = [], rec_MaxReplacementNodes = 0,
     rec_EarlyCordonNodes = flag_earlyCordonNodes f\<rparr>"

datatype startup = Exited string | Served logger cache_config reconciler

text \<open>\<open>GetConfigOrDie\<close> exits; everything after the client is built only reads the flags.\<close>

definition serve :: "boot \<Rightarrow> flags \<Rightarrow> metrics \<Rightarrow> startup" where
  "serve b f m =
     (let r = SetMaxReplacementNodes (flag_maxReplacementNodes f) (SetMaxParallel (flag_maxParallel f) (new_reconciler f m))
      in if boot_SetupController b \<noteq> None then Exited ''unable to create controller''
         else if boot_AddHealthzCheck b \<noteq> None then Exited ''unable to set up health check''
         else if boot_AddReadyzCheck b \<noteq> None then Exited ''unable to set up ready check''
         else if boot_Start b \<noteq> None then Exited ''problem running manager''
         else Served (main_logger f) cacheCfg r)"

definition main :: "env \<Rightarrow> boot \<Rightarrow> flags \<Rightarrow> metrics \<Rightarrow> startup option" where
  "main e b f m =
     (if boot_GetConfig b \<noteq> None then Some (Exited ''unable to get kubeconfig'')
      else if boot_NewManager b (ctrlOpts f) \<noteq> None then Some (Exited ''unable to start manager'')
      else do {
        region \<leftarrow> DeriveRegion e b;
        (case region of
           Inl _ \<Rightarrow> Some (Exited ''unable to get region'')
         | Inr region \<Rightarrow>
             if boot_NewSession b region (retryer f) \<noteq> None then Some (Exited ''failed to create an AWS session'')
             else if snd (GetKubernetesClient e) \<noteq> None then Some (Exited ''unable to create kubernetes client'')
             else Some (serve b f m)) })"

section \<open>Properties\<close>

text \<open>The steps of the start that can fail.\<close>

definition boots :: "env \<Rightarrow> boot \<Rightarrow> flags \<Rightarrow> bool" where
  "boots e b f \<longleftrightarrow> boot_GetConfig b = None \<and> boot_NewManager b (ctrlOpts f) = None \<and>
     (\<exists>region. DeriveRegion e b = Some (Inr region) \<and> boot_NewSession b region (retryer f) = None) \<and>
     snd (GetKubernetesClient e) = None \<and> boot_SetupController b = None \<and> boot_AddHealthzCheck b = None \<and>
     boot_AddReadyzCheck b = None \<and> boot_Start b = None"

abbreviation configured :: "flags \<Rightarrow> metrics \<Rightarrow> reconciler" where
  "configured f m \<equiv> SetMaxReplacementNodes (flag_maxReplacementNodes f) (SetMaxParallel (flag_maxParallel f) (new_reconciler f m))"

lemma serve_iff:
  "serve b f m = Served l c r \<longleftrightarrow> boot_SetupController b = None \<and> boot_AddHealthzCheck b = None \<and>
     boot_AddReadyzCheck b = None \<and> boot_Start b = None \<and> l = main_logger f \<and> c = cacheCfg \<and> r = configured f m"
  unfolding serve_def Let_def by (auto split: if_split_asm)

lemma main_iff: "main e b f m = Some (Served l c r) \<longleftrightarrow> boots e b f \<and> l = main_logger f \<and> c = cacheCfg \<and> r = configured f m"
proof (cases "DeriveRegion e b")
  case None
  then show ?thesis by (simp add: main_def boots_def)
next
  case (Some res)
  show ?thesis
  proof (cases res)
    case (Inl er)
    then show ?thesis using Some by (simp add: main_def boots_def)
  next
    case (Inr region)
    then show ?thesis using Some serve_iff [of b f m l c r] by (auto simp: main_def boots_def)
  qed
qed

lemma main_serves: "(\<exists>l c r. main e b f m = Some (Served l c r)) = boots e b f"
  by (simp add: main_iff)

lemma main_controller:
  assumes "main e b f m = Some (Served l c r)"
  shows "started r" "rec_maxParallel r = (if flag_maxParallel f \<ge> 1 then flag_maxParallel f else 0)"
    "rec_MaxReplacementNodes r = (if flag_maxReplacementNodes f \<ge> 1 then flag_maxReplacementNodes f else 0)"
    "rec_DrainTimeout r = flag_drainTimeout f" "rec_IgnoreDrainFailures r = flag_ignoreDrainFailures f"
    "rec_EarlyCordonNodes r = flag_earlyCordonNodes f" "rec_ClusterNodesMap r = []"
  using assms by (simp_all add: main_iff started_def new_reconciler_def SetMaxParallel_def SetMaxReplacementNodes_def)

definition sample_boot :: boot where
  "sample_boot = \<lparr>boot_GetConfig = None, boot_NewManager = (\<lambda>opts. None), boot_MetadataSession = None, boot_MetadataRegion = Inr ''us-west-2'',
     boot_NewSession = (\<lambda>region n. None), boot_SetupController = None, boot_AddHealthzCheck = None, boot_AddReadyzCheck = None,
     boot_Start = None\<rparr>"

lemma sample_boots: "boots rotation_env sample_boot f"
  by (simp add: boots_def sample_boot_def DeriveRegion_def GetKubernetesClient_def GetKubernetesConfig_def rotation_env_def
      sample_api_env_def sample_cloud_env_def sample_env_def)

lemma sample_served: "main rotation_env sample_boot f m = Some (Served (main_logger f) cacheCfg (configured f m))"
  by (simp add: main_iff sample_boots)

text \<open>C15: the flags reach the drains. Of the workers of a manager that serves, at most \<open>max-parallel\<close> (at
  least one) run at a time, and an instance that one of them terminates belongs to an upgrade that is
  admitted; if no drain of an earlier pass of that upgrade is outstanding, its node was cordoned and
  drained before by the same pass, with the timeout of the upgrade or else of the flag
  \<open>drain-timeout\<close> in seconds, where failures count as drained only if the upgrade, or else the flag
  \<open>ignore-drain-failures\<close>, says so.\<close>

theorem served_terminations_follow_flags:
  assumes "main e b f m = Some (Served l c r0)" and "api_names_ok e" and "api_states_ok e"
    and "(con_step e)\<^sup>*\<^sup>* (r0, Map.empty) (r, ws)" and "con_step e (r, ws) (r', ws')"
    and "EvTerminateInstance i er \<in> set (new_events r r')"
  shows "card (dom ws) \<le> nat (max 1 (flag_maxParallel f)) \<and>
    (\<exists>req ru. ws req = Some (Rotating ru) \<and> sm_Load (rec_AdmissionMap r) (NamespacedName ru) \<noteq> None \<and>
       (idle (NamespacedName ru) r \<longrightarrow> (\<exists>pre post n. new_events r r' = pre @ post \<and> list_all not_termination pre \<and>
          EvTerminateInstance i er \<in> set post \<and> EqualFold i (GetNodeInstanceID (Some n)) \<and>
          drain_tried (case IsIgnoreDrainFailures ru of None \<Rightarrow> flag_ignoreDrainFailures f | Some ign \<Rightarrow> ign) (node_Name n)
            (wrap64 ((case DrainTimeout ru of None \<Rightarrow> flag_drainTimeout f | Some t \<Rightarrow> t) * Second)) pre)))"
proof -
  note ctl = main_controller [OF assms(1)]
  have "workers_ok r ws" "rec_maxParallel r = rec_maxParallel r0"
    using con_reachable [OF ctl(1) assms(2,4)] by (simp_all add: con_inv_simp)
  then have "card (dom ws) \<le> nat (max 1 (flag_maxParallel f))"
    using ctl(2) by (auto simp: workers_ok_def MaxConcurrentReconciles_def split: if_splits)
  moreover obtain req ru where "ws req = Some (Rotating ru)" "sm_Load (rec_AdmissionMap r) (NamespacedName ru) \<noteq> None"
    "idle (NamespacedName ru) r \<longrightarrow> (\<exists>pre post. new_events r r' = pre @ post \<and> list_all not_termination pre \<and>
       EvTerminateInstance i er \<in> set post \<and> drained_node ru r pre i)"
    using terminations_safe [OF ctl(1) assms(2-6)] by blast
  moreover have flags: "timeout_of ru r = (case DrainTimeout ru of None \<Rightarrow> flag_drainTimeout f | Some t \<Rightarrow> t)"
    "ignores_of ru r = (case IsIgnoreDrainFailures ru of None \<Rightarrow> flag_ignoreDrainFailures f | Some ign \<Rightarrow> ign)"
    unfolding con_settings [OF assms(4)] by (simp_all add: timeout_of_def ignores_of_def ctl(4,5) cong: option.case_cong)
  ultimately show ?thesis unfolding drained_node_def flags by blast
qed

theorem served_terminations_follow_flags_witness:
  "\<exists>r0 r ws r' ws' i pre post req ru n.
     main rotation_env sample_boot default_flags sample_metrics = Some (Served (main_logger default_flags) cacheCfg r0) \<and>
     (con_step rotation_env)\<^sup>*\<^sup>* (r0, Map.empty) (r, ws) \<and> con_step rotation_env (r, ws) (r', ws') \<and> card (dom ws) \<le> 10 \<and>
     ws req = Some (Rotating ru) \<and> new_events r r' = pre @ post \<and> EvTerminateInstance i None \<in> set post \<and>
     EqualFold i (GetNodeInstanceID (Some n)) \<and>
     drain_tried (case IsIgnoreDrainFailures ru of None \<Rightarrow> False | Some ign \<Rightarrow> ign) (node_Name n)
       (wrap64 ((case DrainTimeout ru of None \<Rightarrow> 900 | Some t \<Rightarrow> t) * Second)) pre"
proof -
  let ?r0 = "configured default_flags sample_metrics"
  have flags: "flag_maxParallel default_flags = 10" "flag_drainTimeout default_flags = 900" "flag_ignoreDrainFailures default_flags = False"
    by (simp_all add: default_flags_def)
  have "sample_controller ?r0"
    by (simp add: sample_controller_def new_reconciler_def SetMaxParallel_def SetMaxReplacementNodes_def default_flags_def)
  from sample_pass_reached [OF this] obtain r ws r' ws' i where run: "(con_step rotation_env)\<^sup>*\<^sup>* (?r0, Map.empty) (r, ws)"
    "con_step rotation_env (r, ws) (r', ws')" "EvTerminateInstance i None \<in> set (new_events r r')" "\<forall>name. idle name r" by blast
  from served_terminations_follow_flags [OF sample_served sample_api_ok run(1-3), unfolded flags] run(4)
  have "card (dom ws) \<le> 10 \<and> (\<exists>req ru. ws req = Some (Rotating ru) \<and> (\<exists>pre post n. new_events r r' = pre @ post \<and>
      EvTerminateInstance i None \<in> set post \<and> EqualFold i (GetNodeInstanceID (Some n)) \<and>
      drain_tried (case IsIgnoreDrainFailures ru of None \<Rightarrow> False | Some ign \<Rightarrow> ign) (node_Name n)
        (wrap64 ((case DrainTimeout ru of None \<Rightarrow> 900 | Some t \<Rightarrow> t) * Second)) pre))" by (simp; blast)
  then show ?thesis using sample_served run(1,2) by blast
qed

text \<open>C36: a limit of zero. The manager started with a \<open>max-parallel\<close> below one serves, with a limit of zero
  upgrades; if no running upgrade is listed for it to recover, then whatever its workers do no upgrade
  is ever admitted, no nodes are rotated and no instance is terminated.\<close>

theorem zero_limit_upgrades_nothing:
  assumes "main e b f m = Some (Served l c r0)" and "flag_maxParallel f < 1" and "lists_at_most 0 e"
    and "(con_step e)\<^sup>*\<^sup>* (r0, Map.empty) (r, ws)"
  shows "rec_AdmissionMap r = [] \<and> (\<forall>req ru. ws req \<noteq> Some (Rotating ru)) \<and> (\<forall>i er. EvTerminateInstance i er \<notin> set (hist r))"
proof -
  note ctl = main_controller [OF assms(1)]
  have "hist r0 = []"
    using assms(1) by (simp add: main_iff new_reconciler_def SetMaxParallel_def SetMaxReplacementNodes_def)
  moreover have "(\<lambda>s s'. lists_at_most 0 e \<and> con_step e s s')\<^sup>*\<^sup>* (r0, Map.empty) (r, ws)" using assms(3,4) by simp
  ultimately have held: "all_held_back (r, ws)"
    using closed.inv_reachable [of "(r0, Map.empty)" e "(r, ws)"] ctl(1,2) assms(2) by simp
  then have "ws req \<noteq> Some (Rotating ru)" for req ru by (auto simp: all_held_back_def ran_def)
  with held show ?thesis by (auto simp: all_held_back_def list_all_iff not_termination_def)
qed

theorem zero_limit_upgrades_nothing_witness:
  "\<exists>r ru. (con_step rotation_env)\<^sup>*\<^sup>* (configured (default_flags\<lparr>flag_maxParallel := 0\<rparr>) sample_metrics, Map.empty)
       (r, [sample_request \<mapsto> Unlocking ru (requeue, None)]) \<and>
     rec_AdmissionMap r = [] \<and> (\<forall>i er. EvTerminateInstance i er \<notin> set (hist r))"
proof -
  let ?f = "default_flags\<lparr>flag_maxParallel := 0\<rparr>" and ?q = sample_request
  let ?r0 = "configured ?f sample_metrics"
  have r0: "rec_AdmissionMap ?r0 = []" "rec_maxParallel ?r0 = 0" "rec_ReconcileMap ?r0 = []"
    by (simp_all add: new_reconciler_def SetMaxParallel_def SetMaxReplacementNodes_def)
  obtain ru r1 where w: "works rotation_env ?q (Getting, ?r0) (Restoring ru, r1)" "rec_AdmissionMap r1 = []" "rec_maxParallel r1 = 0"
    using works_to_Restoring [of rotation_env ?q sample_RollingUpgrade ?r0] rotation_env_api(1) race_ready(1) r0
    by (auto simp: sm_Load_def)
  have idle: "running [sample_RollingUpgrade] = 0" by (simp add: running_def sample_RollingUpgrade_def CurrentStatus_def)
  then have listed: "lists_at_most 0 rotation_env" by (simp add: lists_at_most_def rotation_env_api(2))
  let ?r2 = "log_event EvListRollingUpgrades r1"
  have "works rotation_env ?q (Restoring ru, r1) (Unlocking ru (requeue, None), ?r2)"
    using w(2,3) idle by (intro works_waits [OF rotation_env_api(2)]) simp_all
  from works_lift [OF works_trans [OF w(1) this], of "[?q \<mapsto> Getting]"]
  have "(con_step rotation_env)\<^sup>*\<^sup>* (?r0, [?q \<mapsto> Getting]) (?r2, [?q \<mapsto> Unlocking ru (requeue, None)])" by simp
  moreover have "con_step rotation_env (?r0, Map.empty) (?r0, [?q \<mapsto> Getting])"
    by (rule con_step.Dequeue) (simp_all add: MaxConcurrentReconciles_def r0(2) request_name_ok_def)
  ultimately have run: "(con_step rotation_env)\<^sup>*\<^sup>* (?r0, Map.empty) (?r2, [?q \<mapsto> Unlocking ru (requeue, None)])"
    by (rule converse_rtranclp_into_rtranclp [rotated])
  from zero_limit_upgrades_nothing [OF sample_served _ listed run] run show ?thesis
    by (intro exI [of _ ?r2] exI [of _ ru]) simp
qed

end
