(* ===== verification/Go_Json.thy ===== *)
theory Go_Json
  imports Go_Strings
begin

text \<open>
  \<^verbatim>\<open>json.Marshal\<close> of Go's standard library on a map of strings, the only use the sources make of it. The
  keys are sorted bytewise; in strings, the characters that JSON or HTML reserve are escaped, the bytes of a
  character in UTF-8 are copied, and a byte that belongs to none becomes the replacement character.
  Shown: a reader of such objects, written after the grammar of JSON, gives back the map, and the text
  does not depend on the order in which the map is visited.
\<close>

section \<open>Strings\<close>

abbreviation byte :: "char \<Rightarrow> nat" where
  "byte \<equiv> of_char"

definition hex_digit :: "nat \<Rightarrow> char" where
  "hex_digit d = (if d < 10 then char_of (48 + d) else char_of (87 + d))"

text \<open>The escape of a byte below 128.\<close>

definition escape_ascii :: "char \<Rightarrow> string" where
  "escape_ascii c =
     (let n = byte c
      in if n = 34 \<or> n = 92 then [CHR 92, c]
         else if n = 8 then [CHR 92, CHR ''b'']
         else if n = 12 then [CHR 92, CHR ''f'']
         else if n = 10 then [CHR 92, CHR ''n'']
         else if n = 13 then [CHR 92, CHR ''r'']
         else if n = 9 then [CHR 92, CHR ''t'']
         else if n < 32 \<or> c \<in> {CHR ''<'', CHR ''>'', CHR ''&''} then
           [CHR 92, CHR ''u'', CHR ''0'', CHR ''0'', hex_digit (n div 16), hex_digit (n mod 16)]
         else [c])"

text \<open>The number of bytes of the character that a string of bytes from 128 on starts with, 0 if there is none.\<close>

definition between :: "nat \<Rightarrow> nat \<Rightarrow> char \<Rightarrow> bool" where
  "between a b c \<longleftrightarrow> a \<le> byte c \<and> byte c \<le> b"

fun rune_len :: "string \<Rightarrow> nat" where
  "rune_len (b0 # b1 # b2 # b3 # _) =
     (if between 194 223 b0 \<and> between 128 191 b1 then 2
      else if (byte b0 = 224 \<and> between 160 191 b1 \<or> byte b0 = 237 \<and> between 128 159 b1 \<or>
               (between 225 236 b0 \<or> between 238 239 b0) \<and> between 128 191 b1) \<and> between 128 191 b2 then 3
      else if (byte b0 = 240 \<and> between 144 191 b1 \<or> between 241 243 b0 \<and> between 128 191 b1 \<or>
               byte b0 = 244 \<and> between 128 143 b1) \<and> between 128 191 b2 \<and> between 128 191 b3 then 4
      else 0)"
| "rune_len [b0, b1, b2] =
     (if between 194 223 b0 \<and> between 128 191 b1 then 2
      else if (byte b0 = 224 \<and> between 160 191 b1 \<or> byte b0 = 237 \<and> between 128 159 b1 \<or>
               (between 225 236 b0 \<or> between 238 239 b0) \<and> between 128 191 b1) \<and> between 128 191 b2 then 3
      else 0)"
| "rune_len [b0, b1] = (if between 194 223 b0 \<and> between 128 191 b1 then 2 else 0)"
| "rune_len _ = 0"

text \<open>U+2028 and U+2029, which JavaScript reads as ends of lines, are escaped.\<close>

definition line_separator :: "string \<Rightarrow> bool" where
  "line_separator s \<longleftrightarrow> (case s of b0 # b1 # b2 # _ \<Rightarrow> byte b0 = 226 \<and> byte b1 = 128 \<and> byte b2 \<in> {168, 169} | _ \<Rightarrow> False)"

lemma rune_len_le: "rune_len s \<le> length s"
  by (cases s rule: rune_len.cases) auto

function escape :: "string \<Rightarrow> string" where
  "escape [] = []"
| "escape (c # s) =
     (if byte c < 128 then escape_ascii c @ escape s
      else (let n = rune_len (c # s)
            in if n = 0 then CHR 92 # ''ufffd'' @ escape s
               else if line_separator (c # s) then CHR 92 # ''u202'' @ [hex_digit (byte ((c # s) ! 2) mod 16)] @ escape (drop n (c # s))
               else take n (c # s) @ escape (drop n (c # s))))"
  by pat_completeness auto
termination
  by (relation "measure length") auto

definition quote :: "string \<Rightarrow> string" where
  "quote s = CHR 34 # escape s @ [CHR 34]"

section \<open>Objects\<close>

definition json_member :: "string \<times> string \<Rightarrow> string" where
  "json_member kv = quote (fst kv) @ CHR '':'' # quote (snd kv)"

fun members :: "(string \<times> string) list \<Rightarrow> string" where
  "members [] = []"
| "members [kv] = json_member kv"
| "members (kv # kvs) = json_member kv @ CHR '','' # members kvs"

text \<open>A nil map is \<open>None\<close>.\<close>

definition Marshal :: "(string, string) gomap option \<Rightarrow> string" where
  "Marshal m = (case m of None \<Rightarrow> ''null'' | Some kvs \<Rightarrow> CHR ''{'' # members (sort_key fst kvs) @ ''}'')"

section \<open>A reader\<close>

text \<open>After the grammar of JSON, for objects whose members are strings and that have no white space.\<close>

definition hex_value :: "char \<Rightarrow> nat option" where
  "hex_value c =
     (let n = byte c
      in if 48 \<le> n \<and> n \<le> 57 then Some (n - 48) else if 97 \<le> n \<and> n \<le> 102 then Some (n - 87)
         else if 65 \<le> n \<and> n \<le> 70 then Some (n - 55) else None)"

definition utf8 :: "nat \<Rightarrow> string" where
  "utf8 n =
     (if n < 128 then [char_of n]
      else if n < 2048 then [char_of (192 + n div 64), char_of (128 + n mod 64)]
      else [char_of (224 + n div 4096), char_of (128 + n div 64 mod 64), char_of (128 + n mod 64)])"

definition code_point :: "char \<Rightarrow> char \<Rightarrow> char \<Rightarrow> char \<Rightarrow> nat option" where
  "code_point a b c d =
     do { w \<leftarrow> hex_value a; x \<leftarrow> hex_value b; y \<leftarrow> hex_value c; z \<leftarrow> hex_value d; Some (4096 * w + 256 * x + 16 * y + z) }"

definition simple_escape :: "char \<Rightarrow> string option" where
  "simple_escape c =
     (if c \<in> {CHR 34, CHR 92, CHR ''/''} then Some [c] else if c = CHR ''b'' then Some [CHR 8] else if c = CHR ''f'' then Some [CHR 12]
      else if c = CHR ''n'' then Some [CHR 10] else if c = CHR ''r'' then Some [CHR 13] else if c = CHR ''t'' then Some [CHR 9] else None)"

text \<open>A string up to its closing quote, and what follows.\<close>

abbreviation prepend :: "string \<Rightarrow> (string \<times> string) option \<Rightarrow> (string \<times> string) option" where
  "prepend p \<equiv> map_option (map_prod ((@) p) id)"

fun read_string :: "string \<Rightarrow> (string \<times> string) option" where
  "read_string [] = None"
| "read_string (c # s) =
     (if c = CHR 34 then Some ([], s)
      else if c = CHR 92 then
        (case s of
           [] \<Rightarrow> None
         | x # s1 \<Rightarrow>
             if x = CHR ''u'' then
               (case s1 of
                  h1 # h2 # h3 # h4 # s2 \<Rightarrow> (case code_point h1 h2 h3 h4 of None \<Rightarrow> None | Some n \<Rightarrow> prepend (utf8 n) (read_string s2))
                | _ \<Rightarrow> None)
             else (case simple_escape x of None \<Rightarrow> None | Some p \<Rightarrow> prepend p (read_string s1)))
      else prepend [c] (read_string s))"

lemma read_string_shorter: "read_string s = Some (t, rest) \<Longrightarrow> length rest < length s"
  by (induction s arbitrary: t rest rule: read_string.induct)
    (fastforce split: if_splits list.splits option.splits)+

function read_members :: "string \<Rightarrow> (string \<times> string) list option" where
  "read_members s =
     (case s of
        q # s1 \<Rightarrow>
          if q \<noteq> CHR 34 then None
          else (case read_string s1 of
                  Some (k, c # q' # s2) \<Rightarrow>
                    if c \<noteq> CHR '':'' \<or> q' \<noteq> CHR 34 then None
                    else (case read_string s2 of
                            Some (v, c' # s3) \<Rightarrow>
                              if c' = CHR ''}'' \<and> s3 = [] then Some [(k, v)]
                              else if c' = CHR '','' then map_option (Cons (k, v)) (read_members s3)
                              else None
                          | _ \<Rightarrow> None)
                | _ \<Rightarrow> None)
      | [] \<Rightarrow> None)"
  by pat_completeness auto
termination
  by (relation "measure length") (auto dest!: read_string_shorter)

declare read_members.simps [simp del]

definition read_object :: "string \<Rightarrow> (string, string) gomap option option" where
  "read_object s =
     (if s = ''null'' then Some None
      else if s = ''{}'' then Some (Some [])
      else if s \<noteq> [] \<and> hd s = CHR ''{'' then map_option Some (read_members (tl s)) else None)"

section \<open>Reading back\<close>

function valid_utf8 :: "string \<Rightarrow> bool" where
  "valid_utf8 [] = True"
| "valid_utf8 (c # s) =
     (if byte c < 128 then valid_utf8 s
      else if rune_len (c # s) = 0 then False else valid_utf8 (drop (rune_len (c # s)) (c # s)))"
  by pat_completeness auto
termination
  by (relation "measure length") auto

lemma hex_value_digit: "d < 16 \<Longrightarrow> hex_value (hex_digit d) = Some d"
  by (auto simp: hex_value_def hex_digit_def Let_def)

lemma hex_value_literals: "hex_value CHR ''0'' = Some 0" "hex_value CHR ''2'' = Some 2"
  by (simp_all add: hex_value_def)

lemma byte_literals:
  "c = CHR 34 \<longleftrightarrow> byte c = 34" "c = CHR 92 \<longleftrightarrow> byte c = 92" "c = CHR 8 \<longleftrightarrow> byte c = 8" "c = CHR 9 \<longleftrightarrow> byte c = 9"
  "c = CHR 10 \<longleftrightarrow> byte c = 10" "c = CHR 12 \<longleftrightarrow> byte c = 12" "c = CHR 13 \<longleftrightarrow> byte c = 13"
proof -
  have "c = d \<longleftrightarrow> byte c = byte d" for d by simp
  note this [of "CHR 34"] this [of "CHR 92"] this [of "CHR 8"] this [of "CHR 9"] this [of "CHR 10"] this [of "CHR 12"] this [of "CHR 13"]
  then show "c = CHR 34 \<longleftrightarrow> byte c = 34" "c = CHR 92 \<longleftrightarrow> byte c = 92" "c = CHR 8 \<longleftrightarrow> byte c = 8" "c = CHR 9 \<longleftrightarrow> byte c = 9"
    "c = CHR 10 \<longleftrightarrow> byte c = 10" "c = CHR 12 \<longleftrightarrow> byte c = 12" "c = CHR 13 \<longleftrightarrow> byte c = 13" by (simp_all del: of_char_eq_iff)
qed

lemma read_escape_ascii:
  assumes "byte c < 128"
  shows "read_string (escape_ascii c @ t) = prepend [c] (read_string t)"
proof -
  let ?n = "byte c"
  consider "?n = 34 \<or> ?n = 92" | "?n = 8" | "?n = 12" | "?n = 10" | "?n = 13" | "?n = 9"
    | "?n \<notin> {34, 92, 8, 12, 10, 13, 9}" "?n < 32 \<or> c \<in> {CHR ''<'', CHR ''>'', CHR ''&''}"
    | "?n \<notin> {34, 92, 8, 12, 10, 13, 9}" "\<not> (?n < 32 \<or> c \<in> {CHR ''<'', CHR ''>'', CHR ''&''})" by blast
  then show ?thesis
  proof cases
    case 7
    have "code_point CHR ''0'' CHR ''0'' (hex_digit (?n div 16)) (hex_digit (?n mod 16)) = Some ?n"
      using assms by (simp add: code_point_def hex_value_digit hex_value_literals div_less_iff_less_mult)
    moreover have "utf8 ?n = [c]" using assms by (simp add: utf8_def)
    ultimately show ?thesis using 7 by (auto simp: escape_ascii_def Let_def)
  next
    case 8
    then show ?thesis by (auto simp: escape_ascii_def Let_def byte_literals)
  qed (auto simp: escape_ascii_def Let_def simple_escape_def byte_literals [symmetric])
qed

lemma read_raw: "\<forall>b \<in> set p. 128 \<le> byte b \<Longrightarrow> read_string (p @ t) = prepend p (read_string t)"
proof (induction p)
  case Nil
  show ?case by (cases "read_string t") (simp_all add: map_prod_def)
next
  case (Cons b p)
  then have "b \<noteq> CHR 34" "b \<noteq> CHR 92" by (auto simp: byte_literals)
  then show ?case using Cons by (simp add: option.map_comp comp_def prod.map_comp)
qed

lemma rune_bytes: "128 \<le> byte c \<Longrightarrow> \<forall>b \<in> set (take (rune_len (c # s)) (c # s)). 128 \<le> byte b"
  by (cases "c # s" rule: rune_len.cases) (auto simp: between_def)

lemma line_separator_rune:
  assumes "line_separator (c # s)"
  obtains b1 b2 s' where "s = b1 # b2 # s'" "byte c = 226" "byte b1 = 128" "byte b2 = 168 \<or> byte b2 = 169" "rune_len (c # s) = 3"
proof -
  from assms obtain b1 b2 s' where s: "s = b1 # b2 # s'" "byte c = 226" "byte b1 = 128" "byte b2 = 168 \<or> byte b2 = 169"
    by (auto simp: line_separator_def split: list.splits)
  moreover have "rune_len (c # s) = 3" using s by (cases s') (auto simp: between_def)
  ultimately show ?thesis using that by blast
qed

lemma read_line_separator:
  assumes "byte c = 226" "byte b1 = 128" "byte b2 = 168 \<or> byte b2 = 169"
  shows "read_string (CHR 92 # ''u202'' @ [hex_digit (byte b2 mod 16)] @ t) = prepend [c, b1, b2] (read_string t)"
proof -
  have "code_point CHR ''2'' CHR ''0'' CHR ''2'' (hex_digit (byte b2 mod 16)) = Some (8224 + byte b2 mod 16)"
    by (simp add: code_point_def hex_value_digit hex_value_literals)
  moreover have "utf8 (8224 + byte b2 mod 16) = [c, b1, b2]"
  proof -
    have "byte b = n \<Longrightarrow> char_of n = b" for b n by (drule sym) simp
    from this [OF assms(1)] this [OF assms(2)] this [of b2 168] this [of b2 169] show ?thesis using assms(3) by (auto simp: utf8_def)
  qed
  ultimately show ?thesis by simp
qed

lemma read_escape: "valid_utf8 s \<Longrightarrow> read_string (escape s @ CHR 34 # t) = Some (s, t)"
proof (induction s rule: escape.induct)
  case (2 c s)
  show ?case
  proof (cases "byte c < 128")
    case True
    then show ?thesis using 2 by (simp add: read_escape_ascii)
  next
    case False
    let ?n = "rune_len (c # s)"
    have n: "?n \<noteq> 0" and rest: "valid_utf8 (drop ?n (c # s))" using "2.prems" False by (auto split: if_splits)
    show ?thesis
    proof (cases "line_separator (c # s)")
      case True
      then obtain b1 b2 s' where s: "s = b1 # b2 # s'" "byte c = 226" "byte b1 = 128" "byte b2 = 168 \<or> byte b2 = 169" "?n = 3"
        by (rule line_separator_rune)
      have esc: "escape (c # s) = CHR 92 # ''u202'' @ [hex_digit (byte b2 mod 16)] @ escape s'"
        using s True by (subst escape.simps) (simp add: Let_def)
      have "read_string (escape s' @ CHR 34 # t) = Some (s', t)"
        using "2.IH"(3) [OF False refl n True] rest s(1,5) by simp
      then show ?thesis using read_line_separator [OF s(2-4), of "escape s' @ CHR 34 # t"] s(1) unfolding esc by simp
    next
      case 3: False
      have esc: "escape (c # s) = take ?n (c # s) @ escape (drop ?n (c # s))"
        using False n 3 by (subst escape.simps) (simp add: Let_def)
      have "read_string (escape (drop ?n (c # s)) @ CHR 34 # t) = Some (drop ?n (c # s), t)"
        using "2.IH"(4) [OF False refl n 3] rest by simp
      moreover have "\<forall>b \<in> set (take ?n (c # s)). 128 \<le> byte b" using rune_bytes [of c s] False by simp
      ultimately show ?thesis unfolding esc by (simp add: read_raw)
    qed
  qed
qed simp

lemma read_quote: "valid_utf8 s \<Longrightarrow> read_string (escape s @ [CHR 34] @ t) = Some (s, t)"
  using read_escape by simp

abbreviation valid_entries :: "(string \<times> string) list \<Rightarrow> bool" where
  "valid_entries kvs \<equiv> \<forall>(k, v) \<in> set kvs. valid_utf8 k \<and> valid_utf8 v"

lemma read_members_member:
  assumes "valid_utf8 k" and "valid_utf8 v"
  shows "read_members (json_member (k, v) @ c # t) =
    (if c = CHR ''}'' \<and> t = [] then Some [(k, v)]
     else if c = CHR '','' then map_option (Cons (k, v)) (read_members t) else None)"
  using read_escape [OF assms(1), of "CHR '':'' # CHR 34 # escape v @ CHR 34 # c # t"] read_escape [OF assms(2), of "c # t"]
  by (subst read_members.simps) (simp add: json_member_def quote_def)

lemma read_members_back: "kvs \<noteq> [] \<Longrightarrow> valid_entries kvs \<Longrightarrow> read_members (members kvs @ ''}'') = Some kvs"
proof (induction kvs rule: members.induct)
  case (2 kv)
  then show ?case by (cases kv) (simp add: read_members_member)
next
  case (3 kv kv' kvs)
  obtain k v where kv: "kv = (k, v)" by fastforce
  then have "read_members (members (kv # kv' # kvs) @ ''}'') = map_option (Cons (k, v)) (read_members (members (kv' # kvs) @ ''}''))"
    using "3.prems"(2) by (simp add: read_members_member)
  then show ?case using 3 kv by simp
qed simp

lemma member_nonempty: "members (kv # kvs) \<noteq> []"
  by (cases kvs) (simp_all add: json_member_def quote_def)

lemma Marshal_read:
  assumes "\<forall>kvs. m = Some kvs \<longrightarrow> valid_entries kvs"
  shows "read_object (Marshal m) = Some (map_option (sort_key fst) m)"
proof (cases m)
  case (Some kvs)
  show ?thesis
  proof (cases "sort_key fst kvs")
    case Nil
    then show ?thesis using Some by (simp add: Marshal_def read_object_def)
  next
    case (Cons kv rest)
    have "valid_entries (sort_key fst kvs)" using assms Some by auto
    then have "read_members (members (sort_key fst kvs) @ ''}'') = Some (sort_key fst kvs)"
      using Cons by (intro read_members_back) simp_all
    then show ?thesis using Some Cons member_nonempty [of kv rest] by (auto simp: Marshal_def read_object_def)
  qed
qed (simp add: Marshal_def read_object_def)

lemma sort_key_map_of:
  assumes "map_ok m"
  shows "map_of (sort_key fst m) = map_of m"
proof -
  have "distinct (map fst (sort_key fst m))"
    using assms mset_eq_imp_distinct_iff [of "map fst (sort_key fst m)" "map fst m"] by (simp add: map_ok_def)
  then show ?thesis using assms map_of_inject_set [of "sort_key fst m" m] by (simp add: map_ok_def)
qed

lemma Marshal_order:
  assumes "map_ok m" and "mset m' = mset m"
  shows "Marshal (Some m') = Marshal (Some m)"
proof -
  have "distinct (map fst m)" using assms(1) by (simp add: map_ok_def)
  then have "inj_on fst (set m)" by (simp add: distinct_map)
  moreover have "set m' = set m" using assms(2) by (rule mset_eq_setD)
  ultimately have "sort_key fst m' = sort_key fst m" using assms(2) by (intro sort_key_inj_key_eq) simp_all
  then show ?thesis by (simp add: Marshal_def)
qed

end
