(* ===== verification/Event_Writer.thy ===== *)
theory Event_Writer
  imports World Go_Json
begin

text \<open>
  \<^verbatim>\<open>controllers/providers/kubernetes/events.go\<close>: the event that is published for a rolling upgrade. The main
  program creates an \<open>EventWriter\<close>, which holds the client and the logger; no file of the sources calls
  \<open>CreateEvent\<close>. The random number and the API server are parameters; the events that were
  published, with the outcome, are a field of the world.
\<close>

section \<open>Events\<close>

abbreviation EventLevelNormal :: string where
  "EventLevelNormal \<equiv> ''Normal''"
abbreviation EventLevelWarning :: string where
  "EventLevelWarning \<equiv> ''Warning''"
abbreviation EventReasonRUStarted :: string where
  "EventReasonRUStarted \<equiv> ''RollingUpgradeStarted''"
abbreviation EventReasonRUInstanceStarted :: string where
  "EventReasonRUInstanceStarted \<equiv> ''RollingUpgradeInstanceStarted''"
abbreviation EventReasonRUInstanceFinished :: string where
  "EventReasonRUInstanceFinished \<equiv> ''RollingUpgradeInstanceFinished''"
abbreviation EventReasonRUFinished :: string where
  "EventReasonRUFinished \<equiv> ''RollingUpgradeFinished''"

record ObjectReference =
  ref_Kind :: string
  ref_Name :: string
  ref_Namespace :: string
  ref_ResourceVersion :: string
  ref_APIVersion :: string
  ref_UID :: string

record Event =
  ev_Name :: string
  ev_Component :: string
  ev_InvolvedObject :: ObjectReference
  ev_Reason :: string
  ev_Message :: string
  ev_Type :: string
  ev_Count :: int
  ev_FirstTimestamp :: time
  ev_LastTimestamp :: time

record event_api =
  api_Int :: "event list \<Rightarrow> int"
  api_CreateEvent :: "event list \<Rightarrow> string \<Rightarrow> Event \<Rightarrow> error option"

record event_world = world +
  published :: "(string \<times> Event \<times> error option) list"

text \<open>\<^verbatim>\<open>Time.Unix\<close>: the seconds since the epoch.\<close>

definition Unix :: "time \<Rightarrow> int" where
  "Unix t = t div Second"

definition CreateEvent ::
  "env \<Rightarrow> event_api \<Rightarrow> RollingUpgrade \<Rightarrow> string \<Rightarrow> string \<Rightarrow> (string, string) gomap option \<Rightarrow> event_world \<Rightarrow> event_world" where
  "CreateEvent e api rollingUpgrade reason level msgFields w =
     (let msgPayload = Marshal msgFields;
          (t, w1) = Now e w;
          (now, w2) = Now e w1;
          event = \<lparr>ev_Name = meta_Name rollingUpgrade @ ''-'' @ Itoa (Unix now) @ ''.'' @ Itoa (api_Int api (hist w2)),
            ev_Component = ''upgrade-manager'',
            ev_InvolvedObject = \<lparr>ref_Kind = ''RollingUpgrade'', ref_Name = meta_Name rollingUpgrade,
              ref_Namespace = meta_Namespace rollingUpgrade, ref_ResourceVersion = meta_ResourceVersion rollingUpgrade,
              ref_APIVersion = ''v1alpha1'', ref_UID = meta_UID rollingUpgrade\<rparr>,
            ev_Reason = reason, ev_Message = msgPayload, ev_Type = level, ev_Count = 1,
            ev_FirstTimestamp = t, ev_LastTimestamp = t\<rparr>;
          err = api_CreateEvent api (hist w2) (meta_Namespace rollingUpgrade) event
      in w2\<lparr>published := published w2 @ [(meta_Namespace rollingUpgrade, event, err)]\<rparr>)"

section \<open>Properties\<close>

text \<open>C31: an event with a map of fields that is not \<^verbatim>\<open>nil\<close> and whose texts are valid UTF-8 is published once, whether or not the API accepts it, in the namespace of its upgrade and
  about that upgrade, and it says what it was told: its message, read as JSON, is the given map of
  fields, and is the same text in whatever order the map is visited.\<close>

theorem CreateEvent_correct:
  assumes "map_ok msg" and "\<forall>(k, v) \<in> set msg. valid_utf8 k \<and> valid_utf8 v" and "mset msg' = mset msg"
  shows "\<exists>ev err m. published (CreateEvent e api ru reason level (Some msg) w) = published w @ [(meta_Namespace ru, ev, err)] \<and>
    ref_Name (ev_InvolvedObject ev) = meta_Name ru \<and> ref_Namespace (ev_InvolvedObject ev) = meta_Namespace ru \<and>
    ref_UID (ev_InvolvedObject ev) = meta_UID ru \<and> ev_Reason ev = reason \<and> ev_Type ev = level \<and>
    ev_FirstTimestamp ev = ev_LastTimestamp ev \<and> read_object (ev_Message ev) = Some (Some m) \<and> map_of m = map_of msg \<and>
    CreateEvent e api ru reason level (Some msg') w = CreateEvent e api ru reason level (Some msg) w"
proof -
  have "CreateEvent e api ru reason level (Some msg') w = CreateEvent e api ru reason level (Some msg) w"
    using Marshal_order [OF assms(1,3)] by (simp add: CreateEvent_def)
  moreover have "read_object (Marshal (Some msg)) = Some (Some (sort_key fst msg))"
    using assms(2) Marshal_read [of "Some msg"] by simp
  moreover have "map_of (sort_key fst msg) = map_of msg" by (rule sort_key_map_of [OF assms(1)])
  ultimately show ?thesis by (simp add: CreateEvent_def Let_def Now_def log_event_def)
qed

definition sample_event_api :: event_api where
  "sample_event_api = \<lparr>api_Int = \<lambda>h. 42, api_CreateEvent = \<lambda>h ns ev. None\<rparr>"

theorem CreateEvent_correct_witness:
  "\<exists>ev err m. published (CreateEvent sample_env sample_event_api sample_RollingUpgrade EventReasonRUStarted EventLevelNormal
       (Some [(''status'', ''running''), (''asg'', ''a<b'')])
       \<lparr>hist = [], registry = sample_metrics, published = []\<rparr>) = [(''ns'', ev, err)] \<and>
     read_object (ev_Message ev) = Some (Some m) \<and> map_of m ''asg'' = Some ''a<b''"
proof -
  let ?f = "[(''status'', ''running''), (''asg'', ''a<b'')]" and ?w = "\<lparr>hist = [], registry = sample_metrics, published = []\<rparr>"
  have ok: "map_ok ?f" "\<forall>(k, v) \<in> set ?f. valid_utf8 k \<and> valid_utf8 v" by (simp_all add: map_ok_def)
  have ns: "meta_Namespace sample_RollingUpgrade = ''ns''" by (simp add: sample_RollingUpgrade_def)
  from CreateEvent_correct [OF ok refl, of sample_env sample_event_api sample_RollingUpgrade EventReasonRUStarted EventLevelNormal ?w]
  obtain ev err m where "published (CreateEvent sample_env sample_event_api sample_RollingUpgrade EventReasonRUStarted EventLevelNormal (Some ?f) ?w) =
      [(''ns'', ev, err)]" "read_object (ev_Message ev) = Some (Some m)" "map_of m = map_of ?f" unfolding ns by auto
  then show ?thesis by simp
qed

end
