(* ===== verification/Upgrade_Completion.thy ===== *)
theory Upgrade_Completion
  imports Upgrade_Controller
begin

text \<open>
  An upgrade completes: reconciles of it follow each other, each with a pass of \<open>RotateNodes\<close> in lazy
  mode, until one finds no drifted instance and writes that the upgrade is complete. Each pass before
  that one terminates an instance that is still to be replaced, so there are no more of them than such
  instances at the start, provided that the cloud takes terminated instances out of service and
  launches replacements from what the group wants. The first two sections are about passes, the third
  lifts them to reconciles.
\<close>

section \<open>A pass under good conditions\<close>

text \<open>The instances a pass may choose: in progress or drifted.\<close>

definition pending :: "env \<Rightarrow> ctx \<Rightarrow> string set" where
  "pending e r = (let r4 = snd (discovered e r)
     in inst_id ` set (filter (rotates r4 (ctx_group r4)) (group_Instances (ctx_group r4))))"

lemma finite_pending [simp]: "finite (pending e r)"
  by (simp add: pending_def Let_def)

lemma pendingI: "rotates (snd (discovered e r)) (ctx_group (snd (discovered e r))) u \<Longrightarrow> inst_id u \<in> pending e r"
  by (auto simp: pending_def Let_def rotates_def)

text \<open>
  The group is found, its instances have different identifiers and nodes, EC2 lists those that drift,
  what the pass asks of the cloud and the cluster succeeds, and the goroutines get to run.
\<close>

definition good_pass :: "env \<Rightarrow> nat list \<Rightarrow> ctx \<Rightarrow> bool" where
  "good_pass e sched r \<longleftrightarrow> rotation_ok e r \<and> pass_ready e r \<and> fst (discovered e r) = None \<and>
     (let r4 = snd (discovered e r); g = ctx_group r4
      in g \<noteq> empty_Group \<and>
         (\<forall>t \<in> set (group_Instances g). SelectScalingGroupInstance (inst_id t) g = t \<and> t \<noteq> empty_Instance \<and>
            SelectNodeByInstanceID (inst_id t) (ctx_nodes r) \<noteq> None \<and>
            (IsInstanceDrifted r4 t = Some True \<longrightarrow> listed e r (inst_id t))) \<and>
         (\<forall>i < length (jobs r) + nat (max 1 (Int64Value (group_DesiredCapacity g))). 5 \<le> count_list sched i))"

abbreviation up_to_date :: "env \<Rightarrow> ctx \<Rightarrow> bool" where
  "up_to_date e r \<equiv> \<forall>t \<in> set (group_Instances (ctx_group (snd (discovered e r)))).
     IsInstanceDrifted (snd (discovered e r)) t = Some False"

lemma good_pass_outcome:
  assumes "good_pass e sched r"
  obtains (complete) r' where "RotateNodes e sched DoneCase r = Some (None, r')" "up_to_date e r"
      "CurrentStatus (ctx_RollingUpgrade r') = StatusComplete"
  | (running) r' i where "RotateNodes e sched DoneCase r = Some (None, r')"
      "CurrentStatus (ctx_RollingUpgrade r') = StatusRunning" "i \<in> pending e r"
      "EvTerminateInstance i None \<in> set (new_events r r')"
proof -
  obtain derr r4 where d0: "discovered e r = (derr, r4)" by fastforce
  then have d: "discovered e r = (None, r4)" using assms by (simp add: good_pass_def)
  define g where "g = ctx_group r4"
  have good: "rotation_ok e r" "pass_ready e r" "g \<noteq> empty_Group"
    "\<And>t. t \<in> set (group_Instances g) \<Longrightarrow> SelectScalingGroupInstance (inst_id t) g = t \<and> t \<noteq> empty_Instance \<and>
       SelectNodeByInstanceID (inst_id t) (ctx_nodes r) \<noteq> None \<and> (IsInstanceDrifted r4 t = Some True \<longrightarrow> listed e r (inst_id t))"
    "\<forall>i < length (jobs r) + nat (max 1 (Int64Value (group_DesiredCapacity g))). 5 \<le> count_list sched i"
    using assms unfolding good_pass_def d Let_def fst_conv snd_conv g_def by blast+
  obtain err r' where run: "RotateNodes e sched DoneCase r = Some (err, r')" using RotateNodes_total [OF good(1)] by blast
  note status = RotateNodes_status_cases [OF run d]
  show ?thesis
  proof (cases "\<forall>t \<in> set (group_Instances g). IsInstanceDrifted r4 t = Some False")
    case True
    then show ?thesis using complete run status(1,4) good(3) by (simp add: d g_def)
  next
    case False
    have "group_complete g" using good(1) by (simp add: rotation_ok_def group_wf_def d g_def)
    with False obtain t where t: "t \<in> set (group_Instances g)" "IsInstanceDrifted r4 t = Some True"
      using IsInstanceDrifted_eq [of r4] unfolding g_def by (metis (full_types))
    obtain r'' u where p: "RotateNodes e sched DoneCase r = Some (None, r'')" "rotates r4 g u"
      "EvTerminateInstance (inst_id u) None \<in> set (new_events r r'')"
      using rotation_progress [OF good(1,2) d, of t] good(4,5) t unfolding g_def by blast
    then have "CurrentStatus (ctx_RollingUpgrade r'') = StatusRunning"
      using status(1) run False by (auto simp: g_def)
    then show ?thesis using running p pendingI [of e r u] by (simp add: d g_def)
  qed
qed

section \<open>Passes that follow each other\<close>

text \<open>
  What the cloud promises: a terminated instance is not chosen again, since it has left the group or is
  terminating; and what is to be replaced later was to be replaced before, since the instances that are
  launched do not drift and are not tagged.
\<close>

definition terminated_gone :: "env \<Rightarrow> ctx \<Rightarrow> bool" where
  "terminated_gone e r \<longleftrightarrow> (\<forall>i \<in> pending e r. EvTerminateInstance i None \<notin> set (hist r))"

definition launched_fresh :: "env \<Rightarrow> ctx \<Rightarrow> ctx \<Rightarrow> bool" where
  "launched_fresh e r r' \<longleftrightarrow> pending e r' \<subseteq> pending e r"

text \<open>
  A pass that does not complete the upgrade, and the context of the next pass: of that only the history
  is known, to which other reconciles and goroutines may have added.
\<close>

inductive next_pass :: "env \<Rightarrow> ctx \<Rightarrow> ctx \<Rightarrow> bool" for e where
  "good_pass e sched r \<Longrightarrow> RotateNodes e sched DoneCase r = Some (err, r1) \<Longrightarrow>
     CurrentStatus (ctx_RollingUpgrade r1) \<noteq> StatusComplete \<Longrightarrow> extends r1 r' \<Longrightarrow> terminated_gone e r' \<Longrightarrow>
     launched_fresh e r r' \<Longrightarrow> next_pass e r r'"

inductive_cases next_passE: "next_pass e r r'"

lemma next_pass_decreases:
  assumes "next_pass e r r'"
  shows "pending e r' \<subset> pending e r"
  using assms
proof (rule next_passE)
  fix sched err r1
  assume a: "good_pass e sched r" "RotateNodes e sched DoneCase r = Some (err, r1)"
    "CurrentStatus (ctx_RollingUpgrade r1) \<noteq> StatusComplete" "extends r1 r'" "terminated_gone e r'" "launched_fresh e r r'"
  from a(1) show ?thesis
  proof (cases rule: good_pass_outcome)
    case (complete r2)
    then show ?thesis using a(2,3) by simp
  next
    case (running r2 i)
    have "EvTerminateInstance i None \<in> set (hist r')"
      using running(1,4) a(2,4) by (auto simp: extends_def new_events_def dest: in_set_dropD)
    then have "i \<notin> pending e r'" using a(5) by (auto simp: terminated_gone_def)
    then show ?thesis using running(3) a(6) by (auto simp: launched_fresh_def)
  qed
qed

lemma passes_bounded:
  assumes "(next_pass e ^^ n) r r'"
  shows "n + card (pending e r') \<le> card (pending e r)"
  using assms
proof (induction n arbitrary: r')
  case (Suc n)
  then obtain r1 where r1: "(next_pass e ^^ n) r r1" "next_pass e r1 r'" by auto
  have "card (pending e r') < card (pending e r1)" by (rule psubset_card_mono [OF finite_pending next_pass_decreases [OF r1(2)]])
  then show ?case using Suc.IH [OF r1(1)] by simp
qed simp

lemma passes_complete:
  assumes "(next_pass e ^^ n) r r'" and "good_pass e sched r'"
  shows "n \<le> card (pending e r) \<and> (\<exists>r''. RotateNodes e sched DoneCase r' = Some (None, r'') \<and>
    (up_to_date e r' \<and> CurrentStatus (ctx_RollingUpgrade r'') = StatusComplete \<or>
     n < card (pending e r) \<and> CurrentStatus (ctx_RollingUpgrade r'') = StatusRunning \<and>
     (\<exists>i \<in> pending e r'. EvTerminateInstance i None \<in> set (new_events r' r''))))"
proof -
  note bound = passes_bounded [OF assms(1)]
  from assms(2) show ?thesis
  proof (cases rule: good_pass_outcome)
    case (running r2 i)
    then have "0 < card (pending e r')" by (metis card_gt_0_iff empty_iff finite_pending)
    then show ?thesis using running bound by auto
  qed (use bound in simp)
qed

section \<open>Reconciles that follow each other\<close>

text \<open>The context with which a reconcile comes to \<open>RotateNodes\<close>, if it does.\<close>

definition pass_of :: "env \<Rightarrow> Request \<Rightarrow> reconciler \<Rightarrow> ctx option" where
  "pass_of e req r =
     (case Get e req r of
        (Inl _, _) \<Rightarrow> None
      | (Inr ru0, r1) \<Rightarrow>
          (let ((ok, _), ru1) = Validate ru0;
               ru = ready_ru ru1 r1;
               (lerr, r2) = restore_admissions e (locked ru1 r1);
               (dm, _, m) = sm_LoadOrStore (NamespacedName ru) NewDrainManager (rec_DrainMapper r2);
               (nerr, r3) = ensureClusterNodesMapPopulated e ((admit ru r2)\<lparr>rec_DrainMapper := m\<rparr>);
               (entries, r4) = getClusterNodes e r3
           in if being_deleted ru0 \<or> ContainsEqualFold FiniteStates (CurrentStatus ru0) \<or> \<not> ok \<or>
                 sm_Load (rec_ReconcileMap r1) (NamespacedName ru1) \<noteq> None \<or> lerr \<noteq> None \<or> must_wait ru r2 \<or> nerr \<noteq> None
              then None else Some (rollup_ctx ru dm (map snd entries) r4)))"

lemma admit_DrainMapper [simp]: "rec_DrainMapper (admit ru r) = rec_DrainMapper r"
  by (simp add: admit_def Let_def case_prod_beta)

text \<open>Such a reconcile is the pass, its result kept in the controller, and the update of the resource.\<close>

lemma pass_of_Reconcile:
  assumes "pass_of e req r = Some c"
  obtains keep where "\<And>sched choice. Reconcile e sched choice req r =
      map_option (\<lambda>(res, c1). (res, Update e (ctx_RollingUpgrade c1) (keep c1))) (rotate e sched choice c)"
    "\<And>c1. hist (keep c1) = hist c1" "emits not_termination r c"
proof -
  obtain g r1 where g0: "Get e req r = (g, r1)" by fastforce
  with assms obtain ru0 where g: "Get e req r = (Inr ru0, r1)" by (cases g) (auto simp: pass_of_def)
  obtain ok verr ru1 where v: "Validate ru0 = ((ok, verr), ru1)" by (metis prod.exhaust)
  obtain lerr r2 where l: "restore_admissions e (locked ru1 r1) = (lerr, r2)" by fastforce
  define ru where "ru = ready_ru ru1 r1"
  define d where "d = sm_LoadOrStore (NamespacedName ru) NewDrainManager (rec_DrainMapper r2)"
  obtain nerr r3 where p: "ensureClusterNodesMapPopulated e ((admit ru r2)\<lparr>rec_DrainMapper := snd (snd d)\<rparr>) = (nerr, r3)" by fastforce
  let ?n = "getClusterNodes e r3"
  have conds: "\<not> being_deleted ru0" "\<not> ContainsEqualFold FiniteStates (CurrentStatus ru0)" "ok"
    "sm_Load (rec_ReconcileMap r1) (NamespacedName ru1) = None" "lerr = None" "\<not> must_wait ru r2" "nerr = None"
    and c: "c = rollup_ctx ru (fst d) (map snd (fst ?n)) (snd ?n)"
    using assms unfolding pass_of_def g v l Let_def case_prod_beta fst_conv snd_conv sum.case ru_def [symmetric] d_def [symmetric] p
    by (simp_all split: if_splits)
  let ?keep = "\<lambda>c1. keep_ctx (NamespacedName ru) (map fst (fst ?n)) c1 (snd ?n)"
  have up: "process_upgrade e sched choice ru r2 = map_option (\<lambda>(res, c1). (res, ctx_RollingUpgrade c1, ?keep c1)) (rotate e sched choice c)"
    for sched choice
    using p conds(7) by (simp add: process_upgrade_def case_prod_beta Let_def d_def c map_option_case split: option.splits)
  have "Reconcile e sched choice req r =
      map_option (\<lambda>(res, c1). (res, Update e (ctx_RollingUpgrade c1) (?keep c1))) (rotate e sched choice c)" for sched choice
    using conds(1-6) by (simp add: Reconcile_def g v reconcile_upgrade_eq l ru_def [symmetric] up map_option_case case_prod_beta split: option.splits)
  moreover have "hist (?keep c1) = hist c1" for c1 by (simp add: keep_ctx_def)
  moreover have "emits not_termination r c"
  proof -
    let ?a = "(admit ru r2)\<lparr>rec_DrainMapper := snd (snd d)\<rparr>"
    have "emits not_termination r (locked ru1 r1)" using phases_emit(6) [of r e req] by (simp add: g emits_def)
    also have "emits not_termination (locked ru1 r1) r2" using phases_emit(2) [of "locked ru1 r1" e] by (simp add: l)
    also have "emits not_termination r2 ?a" using phases_emit(1) [of r2 ru] by (simp add: emits_def)
    also have "emits not_termination ?a r3" using phases_emit(3) [of ?a e] by (simp add: p)
    also have "emits not_termination r3 (snd ?n)" by (rule phases_emit(4))
    finally show ?thesis by (simp add: c emits_def rollup_ctx_def)
  qed
  ultimately show ?thesis by (rule that)
qed

text \<open>The status that a reconcile wrote: that of the last update.\<close>

definition status_written :: "event list \<Rightarrow> string option" where
  "status_written evs = fold (\<lambda>ev s. case ev of EvStatusUpdate ru _ \<Rightarrow> Some (CurrentStatus ru) | _ \<Rightarrow> s) evs None"

abbreviation wrote_status :: "string \<Rightarrow> reconciler \<Rightarrow> reconciler \<Rightarrow> bool" where
  "wrote_status s r r' \<equiv> status_written (new_events r r') = Some s"

lemma good_reconcile:
  assumes "pass_of e req r = Some c" and "good_pass e sched c" and "RotateNodes e sched DoneCase c = Some (None, c1)"
  obtains r1 where "Reconcile e sched DoneCase req r = Some ((requeue, None), r1)" "extends c1 r1"
    "wrote_status (CurrentStatus (ctx_RollingUpgrade c1)) r r1" "set (new_events c c1) \<subseteq> set (new_events r r1)"
proof -
  obtain keep where k: "\<And>sched choice. Reconcile e sched choice req r =
      map_option (\<lambda>(res, c1). (res, Update e (ctx_RollingUpgrade c1) (keep c1))) (rotate e sched choice c)"
    "\<And>c1. hist (keep c1) = hist c1" "emits not_termination r c" using pass_of_Reconcile [OF assms(1)] by blast
  let ?r1 = "Update e (ctx_RollingUpgrade c1) (keep c1)"
  obtain derr r4 where d: "discovered e c = (derr, r4)" by fastforce
  have "pool_ok c" "dm_DrainGroup (ctx_DrainManager c) = 0" using assms(2) by (simp_all add: good_pass_def pass_ready_def)
  from rotation_terminations [OF assms(3) d this] obtain evs where evs: "hist c1 = hist c @ evs" by auto
  obtain evs0 where evs0: "hist c = hist r @ evs0" using k(3) by (auto simp: emits_def)
  obtain uerr tail where u: "hist ?r1 = hist c1 @ EvStatusUpdate (ctx_RollingUpgrade c1) uerr # tail"
    "tail = [] \<or> (\<exists>n k v perr. tail = [EvPatchLabel n k v perr])"
    using Update_events [of e "ctx_RollingUpgrade c1" "keep c1"] k(2) by (metis (no_types, lifting))
  show ?thesis
  proof (rule that [of ?r1])
    show "Reconcile e sched DoneCase req r = Some ((requeue, None), ?r1)" by (simp add: k(1) rotate_def assms(3))
    show "extends c1 ?r1" by (simp add: extends_def u(1))
    show "wrote_status (CurrentStatus (ctx_RollingUpgrade c1)) r ?r1"
      using u(2) by (auto simp: status_written_def new_events_def u(1) evs evs0)
    show "set (new_events c c1) \<subseteq> set (new_events r ?r1)" by (auto simp: new_events_def u(1) evs evs0)
  qed
qed

text \<open>
  A reconcile whose pass goes well and that does not write that the upgrade is complete, and the
  controller at the next reconcile of the upgrade that comes to a pass: of that controller only the
  history is known, since other reconciles, goroutines or a restart may have changed it.
\<close>

inductive next_reconcile :: "env \<Rightarrow> Request \<Rightarrow> reconciler \<Rightarrow> reconciler \<Rightarrow> bool" for e req where
  "pass_of e req r = Some c \<Longrightarrow> good_pass e sched c \<Longrightarrow> Reconcile e sched DoneCase req r = Some (res, r1) \<Longrightarrow>
     \<not> wrote_status StatusComplete r r1 \<Longrightarrow> extends r1 r' \<Longrightarrow> pass_of e req r' = Some c' \<Longrightarrow> terminated_gone e c' \<Longrightarrow>
     launched_fresh e c c' \<Longrightarrow> next_reconcile e req r r'"

inductive_cases next_reconcileE: "next_reconcile e req r r'"

lemma next_reconcile_pass:
  assumes "next_reconcile e req r r'" and "pass_of e req r = Some c"
  obtains c' where "pass_of e req r' = Some c'" "next_pass e c c'"
  using assms(1)
proof (rule next_reconcileE)
  fix c0 sched res r1 c'
  assume a: "pass_of e req r = Some c0" "good_pass e sched c0" "Reconcile e sched DoneCase req r = Some (res, r1)"
    "\<not> wrote_status StatusComplete r r1" "extends r1 r'" "pass_of e req r' = Some c'" "terminated_gone e c'" "launched_fresh e c0 c'"
  have [simp]: "c0 = c" using a(1) assms(2) by simp
  obtain c1 where c1: "RotateNodes e sched DoneCase c = Some (None, c1)" using a(2) by (cases rule: good_pass_outcome) auto
  have g: "good_pass e sched c" using a(2) by simp
  obtain r2 where r2: "Reconcile e sched DoneCase req r = Some ((requeue, None), r2)" "extends c1 r2"
    "wrote_status (CurrentStatus (ctx_RollingUpgrade c1)) r r2" using good_reconcile [OF assms(2) g c1] by blast
  have [simp]: "r2 = r1" using r2(1) a(3) by simp
  have "CurrentStatus (ctx_RollingUpgrade c1) \<noteq> StatusComplete" using r2(3) a(4) by auto
  moreover have "extends r' c'" using pass_of_Reconcile [OF a(6)] emits_extends by blast
  then have "extends c1 c'" using r2(2) a(5) extends_trans by (metis \<open>r2 = r1\<close>)
  ultimately have "next_pass e c c'" using next_pass.intros a(2,7,8) c1 by simp
  then show ?thesis using that a(6) by blast
qed

lemma next_reconcile_passes:
  assumes "(next_reconcile e req ^^ n) r r'" and "pass_of e req r = Some c" and "pass_of e req r' = Some c'"
  shows "(next_pass e ^^ n) c c'"
  using assms
proof (induction n arbitrary: r' c')
  case (Suc n)
  then obtain r1 where r1: "(next_reconcile e req ^^ n) r r1" "next_reconcile e req r1 r'" by auto
  then obtain c1 where c1: "pass_of e req r1 = Some c1" by (auto elim: next_reconcileE)
  obtain c2 where "pass_of e req r' = Some c2" "next_pass e c1 c2" by (rule next_reconcile_pass [OF r1(2) c1])
  then show ?case using Suc.IH [OF r1(1) Suc.prems(2) c1] Suc.prems(3) by auto
qed simp

section \<open>Properties\<close>

text \<open>C12: an upgrade completes. Let reconciles of it in lazy mode follow each other, each of them coming to a
  pass under good conditions. Then at most as many of them do not complete the upgrade as there were
  instances to be replaced at the start, and the next reconcile succeeds and is repeated: it either
  finds every instance of the group up to date and writes that the upgrade is complete, or there have
  been fewer reconciles than that, it terminates an instance that is still to be replaced and writes
  that the upgrade is running.\<close>

theorem upgrade_completes:
  assumes "(next_reconcile e req ^^ n) r r'" and "pass_of e req r = Some c" and "pass_of e req r' = Some c'"
    and "good_pass e sched c'"
  shows "n \<le> card (pending e c) \<and> (\<exists>r''. Reconcile e sched DoneCase req r' = Some ((requeue, None), r'') \<and>
    (up_to_date e c' \<and> wrote_status StatusComplete r' r'' \<or>
     n < card (pending e c) \<and> wrote_status StatusRunning r' r'' \<and>
     (\<exists>i \<in> pending e c'. EvTerminateInstance i None \<in> set (new_events r' r''))))"
proof -
  obtain c1 where c1: "n \<le> card (pending e c)" "RotateNodes e sched DoneCase c' = Some (None, c1)"
    "up_to_date e c' \<and> CurrentStatus (ctx_RollingUpgrade c1) = StatusComplete \<or>
     n < card (pending e c) \<and> CurrentStatus (ctx_RollingUpgrade c1) = StatusRunning \<and>
     (\<exists>i \<in> pending e c'. EvTerminateInstance i None \<in> set (new_events c' c1))"
    using passes_complete [OF next_reconcile_passes [OF assms(1-3)] assms(4)] by blast
  obtain r'' where r'': "Reconcile e sched DoneCase req r' = Some ((requeue, None), r'')"
    "wrote_status (CurrentStatus (ctx_RollingUpgrade c1)) r' r''" "set (new_events c' c1) \<subseteq> set (new_events r' r'')"
    by (rule good_reconcile [OF assms(3,4) c1(2)])
  have "up_to_date e c' \<and> wrote_status StatusComplete r' r'' \<or>
     n < card (pending e c) \<and> wrote_status StatusRunning r' r'' \<and>
     (\<exists>i \<in> pending e c'. EvTerminateInstance i None \<in> set (new_events r' r''))"
    using c1(3) r''(2,3) by (elim disjE conjE bexE) (simp_all, blast)
  with c1(1) r''(1) show ?thesis by blast
qed

text \<open>A cloud that replaces the old instance once it is terminated.\<close>

definition replaced_group :: Group where
  "replaced_group = sample_group\<lparr>group_Instances := [sample_instance ''i2'' ''b'' ''new'', sample_instance ''i3'' ''a'' ''new'']\<rparr>"

definition group_after :: "event list \<Rightarrow> Group" where
  "group_after h = (if EvTerminateInstance ''i1'' None \<in> set h then replaced_group else sample_group)"

definition replacing_env :: env where
  "replacing_env = rotation_env\<lparr>env_DescribeAutoScalingGroupsPages := \<lambda>h. ([([group_after h], False)], None)\<rparr>"

text \<open>The instances of the group, and which of them are of the old launch configuration.\<close>

definition replacing_instances :: "Instance set" where
  "replacing_instances = {sample_instance ''i1'' ''a'' ''old'', sample_instance ''i2'' ''b'' ''new'', sample_instance ''i3'' ''a'' ''new''}"

text \<open>The contexts of the passes of the sample upgrade, by what they have in common.\<close>

definition replacing :: "ctx \<Rightarrow> bool" where
  "replacing c \<longleftrightarrow> ru_Spec (ctx_RollingUpgrade c) = ru_Spec (ctx_RollingUpgrade sample_ctx) \<and>
     batch_settings c = (False, None, None) \<and> ctx_DrainManager c = NewDrainManager \<and> budget c = ([], 0) \<and>
     (\<forall>t \<in> replacing_instances. SelectNodeByInstanceID (inst_id t) (ctx_nodes c) \<noteq> None)"

lemma group_after_emits: "emits not_termination r w \<Longrightarrow> group_after (hist w) = group_after (hist r)"
  by (fastforce simp: group_after_def emits_def list_all_iff not_termination_def)

lemma replacing_Discover:
  "fst (Discover replacing_env d w) =
     (None, d\<lparr>cloud_LaunchTemplates := [], cloud_ScalingGroups := [group_after (hist w)], cloud_InProgressInstances := []\<rparr>)"
  by (simp add: Discover_def DescribeLaunchTemplates_def DescribeScalingGroups_def DescribeTaggedInstanceIDs_def group_after_def
      log_event_def replacing_env_def rotation_env_def sample_api_env_def sample_cloud_env_def sample_env_def Let_def)

lemma replacing_discovers:
  assumes "ScalingGroupName (ctx_RollingUpgrade r) = ''asg''"
  shows "fst (discovered replacing_env r) = None" "ctx_group (snd (discovered replacing_env r)) = group_after (hist r)"
    "cloud_InProgressInstances (ctx_Cloud (snd (discovered replacing_env r))) = []"
proof -
  let ?r2 = "begin_rotation replacing_env (snd (DescribeTaggedInstanceIDs replacing_env instanceStateTagKey failedDrainTagValue r))"
  have "emits not_termination r ?r2"
    using emits_trans [OF _ begin_rotation_frame(2)] DescribeTagged_quiet unfolding quiet_def by blast
  then have g: "group_after (hist ?r2) = group_after (hist r)" by (rule group_after_emits)
  have "ScalingGroupName (ctx_RollingUpgrade (snd (discovered replacing_env r))) = ''asg''"
    using assms discovered_quiet(1) [of r replacing_env] by (simp add: quiet_def same_job_inputs_def ScalingGroupName_def)
  moreover have "cloud_ScalingGroups (ctx_Cloud (snd (discovered replacing_env r))) = [group_after (hist r)]"
    by (simp add: discovered_eq Let_def replacing_Discover g)
  ultimately show "ctx_group (snd (discovered replacing_env r)) = group_after (hist r)"
    by (simp add: group_after_def replaced_group_def sample_group_def)
  show "fst (discovered replacing_env r) = None"
    "cloud_InProgressInstances (ctx_Cloud (snd (discovered replacing_env r))) = []"
    by (simp_all add: discovered_eq Let_def replacing_Discover)
qed

lemma group_after_wf: "group_wf (group_after h)" "group_after h \<noteq> empty_Group" "Int64Value (group_DesiredCapacity (group_after h)) = 2"
  by (simp_all add: group_after_def replaced_group_def group_wf_def group_complete_def sample_group_def sample_instance_def empty_Group_def)

lemma replacing_asg: "replacing c \<Longrightarrow> ScalingGroupName (ctx_RollingUpgrade c) = ''asg''"
  by (simp add: replacing_def sample_defs ScalingGroupName_def)

lemma group_after_instances: "set (group_Instances (group_after h)) \<subseteq> replacing_instances"
  by (simp add: group_after_def replaced_group_def sample_group_def replacing_instances_def)

lemma group_after_source: "desired_source ts (group_after h) = FromConfig ''new''"
  by (simp add: group_after_def replaced_group_def sample_group_def desired_source_def)

lemma replacing_instances_in_service:
  assumes "t \<in> replacing_instances"
  shows "\<not> terminating t" "launched_from t (FromConfig ''new'') \<longleftrightarrow> inst_id t \<noteq> ''i1''"
proof -
  have "\<not> terminating (sample_instance i az lc)" for i az lc
    by (simp add: sample_instance_def terminating_def EqualFold_def fold_char_def TerminatingInstanceStates_def)
  with assms show "\<not> terminating t" unfolding replacing_instances_def by blast
  show "launched_from t (FromConfig ''new'') \<longleftrightarrow> inst_id t \<noteq> ''i1''"
    using assms unfolding replacing_instances_def by (elim insertE) (simp_all add: sample_instance_def EqualFold_def fold_char_def)
qed

lemma replacing_drift:
  assumes "replacing c" and "t \<in> set (group_Instances (group_after (hist c)))"
  shows "IsInstanceDrifted (snd (discovered replacing_env c)) t = Some (inst_id t = ''i1'')"
proof -
  define r4 where "r4 = snd (discovered replacing_env c)"
  have g: "ctx_group r4 = group_after (hist c)" using replacing_discovers(2) [OF replacing_asg [OF assms(1)]] by (simp add: r4_def)
  then have "group_complete (ctx_group r4)" using group_after_wf(1) [of "hist c"] by (simp add: group_wf_def)
  note eq = IsInstanceDrifted_eq [OF this]
  have "\<not> IsForceRefresh (ctx_RollingUpgrade r4)"
    using discovered_quiet(1) [of c replacing_env] assms(1)
    by (simp add: r4_def quiet_def same_job_inputs_def IsForceRefresh_def replacing_def sample_defs)
  then show ?thesis
    unfolding r4_def [symmetric] eq
    using replacing_instances_in_service [OF subsetD [OF group_after_instances assms(2)]] by (simp add: drifted_def g group_after_source)
qed

lemma replacing_pending:
  assumes "replacing c"
  shows "pending replacing_env c = (if EvTerminateInstance ''i1'' None \<in> set (hist c) then {} else {''i1''})"
proof -
  let ?r4 = "snd (discovered replacing_env c)" and ?g = "group_after (hist c)"
  have g: "ctx_group ?r4 = ?g" by (rule replacing_discovers(2) [OF replacing_asg [OF assms]])
  have "in_progress_targets ?r4 ?g = []"
    using replacing_discovers(3) [OF replacing_asg [OF assms]] by (simp add: in_progress_targets_def)
  moreover have "\<not> terminating t" if "t \<in> set (group_Instances ?g)" for t
    using replacing_instances_in_service(1) group_after_instances that by blast
  ultimately have "rotates ?r4 ?g t \<longleftrightarrow> inst_id t = ''i1''" if "t \<in> set (group_Instances ?g)" for t
    using that unfolding rotates_def by (simp add: replacing_drift [OF assms])
  then have "filter (rotates ?r4 ?g) (group_Instances ?g) = filter (\<lambda>t. inst_id t = ''i1'') (group_Instances ?g)"
    by (rule filter_cong [OF refl])
  then have "pending replacing_env c = inst_id ` set (filter (\<lambda>t. inst_id t = ''i1'') (group_Instances ?g))"
    unfolding pending_def Let_def g by (rule arg_cong)
  also have "\<dots> = (if EvTerminateInstance ''i1'' None \<in> set (hist c) then {} else {''i1''})"
    by (cases "EvTerminateInstance ''i1'' None \<in> set (hist c)") (simp_all add: group_after_def replaced_group_def sample_group_def sample_instance_def)
  finally show ?thesis .
qed

lemma replacing_calls: "calls_succeed replacing_env" "termination_succeeds replacing_env" "env_CreateTags replacing_env h ids k v = None"
  "listed replacing_env r ''i1''"
  using rotation_env_calls unfolding replacing_env_def calls_succeed_def termination_succeeds_def listed_def DescribeInstancesWithoutTagValue_def
  by simp_all

lemma replacing_ready: "replacing c \<Longrightarrow> pass_ready replacing_env c"
  using rotation_env_ready [of c] replacing_calls
  by (simp add: replacing_def pass_ready_def wait_over_def still_waiting_def batch_settings_def)

lemma replacing_ok:
  assumes "replacing c"
  shows "rotation_ok replacing_env c"
proof -
  have "rotation_ok rotation_env sample_ctx" by (rule rotation_env_ok)
  then have "api_names replacing_env" "tags_complete replacing_env" "percent_nonneg replacing_env"
    "size_ok (MaxUnavailable (ctx_RollingUpgrade c))"
    using assms by (simp_all add: rotation_ok_def api_names_def tags_complete_def percent_nonneg_def replacing_env_def replacing_def MaxUnavailable_def)
  moreover have "capacity_ok 2 c" using assms by (simp add: capacity_ok_def replacement_count_def sm_Load_def replacing_def)
  ultimately show ?thesis
    using replacing_discovers(2) [OF replacing_asg [OF assms]] group_after_wf [of "hist c"] by (simp add: rotation_ok_def)
qed

lemma replacing_good:
  assumes "replacing c"
  shows "good_pass replacing_env sample_sched c"
proof -
  let ?g = "group_after (hist c)"
  have g: "ctx_group (snd (discovered replacing_env c)) = ?g" by (rule replacing_discovers(2) [OF replacing_asg [OF assms]])
  have "SelectScalingGroupInstance (inst_id t) ?g = t \<and> t \<noteq> empty_Instance" if "t \<in> set (group_Instances ?g)" for t
    using that by (cases "EvTerminateInstance ''i1'' None \<in> set (hist c)")
      (auto simp: group_after_def replaced_group_def sample_group_def sample_instance_def empty_Instance_def EqualFold_def fold_char_def SelectScalingGroupInstance_def)
  moreover have "SelectNodeByInstanceID (inst_id t) (ctx_nodes c) \<noteq> None" if "t \<in> set (group_Instances ?g)" for t
    using that group_after_instances assms unfolding replacing_def by blast
  moreover have "\<forall>i < length (jobs c) + nat (max 1 (Int64Value (group_DesiredCapacity ?g))). 5 \<le> count_list sample_sched i"
    using sample_schedule group_after_wf(3) [of "hist c"] assms by (simp add: replacing_def NewDrainManager_def sample_group_def)
  ultimately show ?thesis
    using replacing_ok [OF assms] replacing_ready [OF assms] replacing_discovers(1) [OF replacing_asg [OF assms]] group_after_wf(2) [of "hist c"]
      replacing_calls(4) replacing_drift [OF assms]
    unfolding good_pass_def Let_def g by simp
qed

text \<open>The controller after a restart, with the three nodes, and the pass of its first reconcile.\<close>

definition restarted :: "event list \<Rightarrow> reconciler" where
  "restarted h = sample_reconciler\<lparr>hist := h, rec_ClusterNodesMap :=
     [(''n1'', sample_node ''n1'' ''i1''), (''n2'', sample_node ''n2'' ''i2''), (''n3'', sample_node ''n3'' ''i3'')]\<rparr>"

lemma replacing_env_api:
  "env_GetRollingUpgrade replacing_env h (req_String sample_request) = Inr sample_RollingUpgrade"
  "env_ListRollingUpgrades replacing_env h = Inr [sample_RollingUpgrade]"
  "env_range_order replacing_env = env_range_order rotation_env"
  using rotation_env_api by (simp_all add: replacing_env_def)

lemma rollup_replacing:
  assumes "ru_Spec ru = ru_Spec (ctx_RollingUpgrade sample_ctx)" and "LastNodeTerminationTime ru = None" and "LastNodeDrainTime ru = None"
    and "rec_ReplacementNodesMap r = []" and "rec_MaxReplacementNodes r = 0" and "\<not> rec_EarlyCordonNodes r"
    and "rec_ClusterNodesMap r = rec_ClusterNodesMap (restarted h)"
  shows "replacing (rollup_ctx ru NewDrainManager (map snd (fst (getClusterNodes replacing_env r))) (snd (getClusterNodes replacing_env r)))"
proof -
  let ?n = "getClusterNodes replacing_env r"
  have "rec_ReplacementNodesMap (snd ?n) = []" "rec_MaxReplacementNodes (snd ?n) = 0" "\<not> rec_EarlyCordonNodes (snd ?n)"
    using assms(4-6) by (simp_all add: getClusterNodes_def range_keys_def Let_def log_event_def)
  moreover have "map snd (fst ?n) = [sample_node ''n3'' ''i3'', sample_node ''n2'' ''i2'', sample_node ''n1'' ''i1'']"
    by (simp add: getClusterNodes_def range_keys_def assms(7) restarted_def replacing_env_def rotation_env_def sample_api_env_def
        sample_cloud_env_def sample_env_def sm_Load_def List.map_filter_simps Let_def)
  ultimately show ?thesis
    using assms(1-3) by (auto simp: replacing_def rollup_ctx_def batch_settings_def replacing_instances_def sample_instance_def
        sample_node_def GetNodeInstanceID_def EqualFold_def fold_char_def)
qed

lemma restarted_pass:
  obtains c where "pass_of replacing_env sample_request (restarted h) = Some c" "replacing c"
proof -
  define r1 where "r1 = snd (Get replacing_env sample_request (restarted h))"
  define ru1 where "ru1 = upd_strategy complete_strategy sample_RollingUpgrade"
  have get: "Get replacing_env sample_request (restarted h) = (Inr sample_RollingUpgrade, r1)"
    using Get_eq(1) [of replacing_env sample_request "restarted h"] by (simp add: replacing_env_api r1_def prod_eq_iff)
  have val: "Validate sample_RollingUpgrade = ((True, None), ru1)" by (simp add: sample_validates ru1_def)
  have r1f: "rec_AdmissionMap r1 = []" "rec_ReconcileMap r1 = []" "rec_maxParallel r1 = 1" "rec_DrainMapper r1 = []"
    "rec_ClusterNodesMap r1 = rec_ClusterNodesMap (restarted h)" "rec_ReplacementNodesMap r1 = []"
    "rec_MaxReplacementNodes r1 = 0" "\<not> rec_EarlyCordonNodes r1"
    by (simp_all add: r1_def Get_def Let_def restarted_def sample_reconciler_def log_event_def)
  let ?ru = "ready_ru ru1 r1"
  define l where "l = (log_event EvListRollingUpgrades (locked ru1 r1))\<lparr>rec_AdmissionMap := []\<rparr>"
  have rest: "restore_admissions replacing_env (locked ru1 r1) = (None, l)"
    by (simp add: l_def restore_admissions_def r1f GetSyncMapLen_def replacing_env_api Let_def readmit_def sample_RollingUpgrade_def CurrentStatus_def)
  have nw: "\<not> must_wait ?ru l" by (simp add: must_wait_def group_taken_def sm_Range_any_def GetSyncMapLen_def l_def r1f)
  define d where "d = sm_LoadOrStore (NamespacedName ?ru) NewDrainManager (rec_DrainMapper l)"
  have dm: "fst d = NewDrainManager" by (simp add: d_def l_def r1f sm_LoadOrStore_def sm_Load_def)
  define p where "p = (admit ?ru l)\<lparr>rec_DrainMapper := snd (snd d)\<rparr>"
  have p: "rec_ClusterNodesMap p = rec_ClusterNodesMap (restarted h)" "rec_ReplacementNodesMap p = []"
    "rec_MaxReplacementNodes p = 0" "\<not> rec_EarlyCordonNodes p"
    using r1f by (simp_all add: p_def admit_def case_prod_beta Let_def l_def locked_def init_status_def log_event_def
        SetMetricRollupInitOrRunning_def)
  have pop: "ensureClusterNodesMapPopulated replacing_env p = (None, p)"
    by (simp add: ensureClusterNodesMapPopulated_def sm_Range_any_def p(1) restarted_def)
  let ?n = "getClusterNodes replacing_env p"
  let ?c = "rollup_ctx ?ru NewDrainManager (map snd (fst ?n)) (snd ?n)"
  have "pass_of replacing_env sample_request (restarted h) = Some ?c"
    unfolding pass_of_def get val rest Let_def case_prod_beta fst_conv snd_conv sum.case d_def [symmetric] p_def [symmetric] pop dm
    using sample_unfinished nw r1f(2) by (simp add: sm_Load_def)
  moreover have "replacing ?c"
    by (rule rollup_replacing) (use p in \<open>simp_all add: ru1_def sample_ctx_def init_status_def relabel_def SetLabel_def
        SetCurrentStatus_def LastNodeTerminationTime_def LastNodeDrainTime_def sample_RollingUpgrade_def\<close>)
  ultimately show ?thesis by (rule that)
qed

lemma restarted_pending:
  assumes "pass_of replacing_env sample_request (restarted h) = Some c"
  shows "good_pass replacing_env sample_sched c" "pending replacing_env c = (if EvTerminateInstance ''i1'' None \<in> set h then {} else {''i1''})"
    "terminated_gone replacing_env c" "up_to_date replacing_env c \<longleftrightarrow> EvTerminateInstance ''i1'' None \<in> set h"
proof -
  have c: "replacing c" using restarted_pass [of h] assms by (metis option.inject)
  have "emits not_termination (restarted h) c" by (rule pass_of_Reconcile [OF assms])
  then have h: "EvTerminateInstance i None \<in> set (hist c) \<longleftrightarrow> EvTerminateInstance i None \<in> set h" for i
    by (fastforce simp: emits_def restarted_def list_all_iff not_termination_def)
  show "good_pass replacing_env sample_sched c" by (rule replacing_good [OF c])
  show "pending replacing_env c = (if EvTerminateInstance ''i1'' None \<in> set h then {} else {''i1''})"
    using replacing_pending [OF c] h by simp
  then show "terminated_gone replacing_env c" by (simp add: terminated_gone_def h)
  have "up_to_date replacing_env c \<longleftrightarrow> (\<forall>t \<in> set (group_Instances (group_after (hist c))). inst_id t \<noteq> ''i1'')"
    using replacing_drift [OF c] by (simp add: replacing_discovers(2) [OF replacing_asg [OF c]])
  then show "up_to_date replacing_env c \<longleftrightarrow> EvTerminateInstance ''i1'' None \<in> set h"
    by (simp add: group_after_def h replaced_group_def sample_group_def sample_instance_def)
qed

text \<open>The first reconcile terminates the old instance, the second writes that the upgrade is complete.\<close>

theorem upgrade_completes_witness:
  "\<exists>r r'. next_reconcile replacing_env sample_request (restarted []) r \<and>
     Reconcile replacing_env sample_sched DoneCase sample_request r = Some ((requeue, None), r') \<and> wrote_status StatusComplete r r'"
proof -
  let ?e = replacing_env and ?q = sample_request and ?r = "restarted []"
  obtain c where c: "pass_of ?e ?q ?r = Some c" by (rule restarted_pass)
  note c' = restarted_pending [OF c]
  have one: "card (pending ?e c) = 1" using c'(2) by simp
  have "(next_reconcile ?e ?q ^^ 0) ?r ?r" by simp
  from upgrade_completes [OF this c c c'(1)] obtain r1 where r1: "Reconcile ?e sample_sched DoneCase ?q ?r = Some ((requeue, None), r1)"
    "wrote_status StatusRunning ?r r1" "EvTerminateInstance ''i1'' None \<in> set (new_events ?r r1)" using c'(2,4) by auto
  have ev: "EvTerminateInstance ''i1'' None \<in> set (hist r1)" using r1(3) by (auto simp: new_events_def dest: in_set_dropD)
  let ?r' = "restarted (hist r1)"
  obtain d where d: "pass_of ?e ?q ?r' = Some d" by (rule restarted_pass)
  note d' = restarted_pending [OF d]
  have step: "next_reconcile ?e ?q ?r ?r'"
  proof (rule next_reconcile.intros [OF c c'(1) r1(1) _ _ d d'(3)])
    show "\<not> wrote_status StatusComplete ?r r1" using r1(2) by simp
    show "extends r1 ?r'" by (simp add: extends_def restarted_def)
    show "launched_fresh ?e c d" using d'(2) ev by (simp add: launched_fresh_def)
  qed
  then have "(next_reconcile ?e ?q ^^ 1) ?r ?r'" by (simp only: relpowp_1)
  from upgrade_completes [OF this c d d'(1)] step show ?thesis by (auto simp: one)
qed

end
