(* ===== verification/Go_Heap.thy ===== *)
theory Go_Heap
  imports Prelude
begin

text \<open>
  A heap of Go objects: cells that pointers, slices and maps refer to, allocated and never freed. An
  interface (a locale) says what it is to copy a value with everything it refers to, and the ways in
  which Go code builds such copies implement it: assignment, the fields of a struct one after the
  other, \<^verbatim>\<open>new\<close>, and \<^verbatim>\<open>make\<close> with a loop over a slice or a map.
\<close>

section \<open>Cells\<close>

type_synonym addr = nat

record 'c heap =
  cells :: "addr \<rightharpoonup> 'c"
  next_addr :: addr

definition heap_ok :: "'c heap \<Rightarrow> bool" where
  "heap_ok h \<longleftrightarrow> (\<forall>a. cells h a \<noteq> None \<longrightarrow> a < next_addr h)"

definition alloc :: "'c \<Rightarrow> 'c heap \<Rightarrow> addr \<times> 'c heap" where
  "alloc c h = (next_addr h, h\<lparr>cells := (cells h)(next_addr h \<mapsto> c), next_addr := Suc (next_addr h)\<rparr>)"

definition put :: "addr \<Rightarrow> 'c \<Rightarrow> 'c heap \<Rightarrow> 'c heap" where
  "put a c h = h\<lparr>cells := (cells h)(a \<mapsto> c)\<rparr>"

text \<open>The objects that there were are as they were; what was added is fresh.\<close>

definition grows :: "'c heap \<Rightarrow> 'c heap \<Rightarrow> bool" where
  "grows h h' \<longleftrightarrow> next_addr h \<le> next_addr h' \<and> (\<forall>a < next_addr h. cells h' a = cells h a)"

definition fresh_in :: "'c heap \<Rightarrow> 'c heap \<Rightarrow> addr set" where
  "fresh_in h h' = {next_addr h ..< next_addr h'}"

lemma grows_refl [simp, intro]: "grows h h"
  by (simp add: grows_def)

lemma grows_trans [trans]: "grows h h1 \<Longrightarrow> grows h1 h2 \<Longrightarrow> grows h h2"
  by (auto simp: grows_def)

lemma fresh_in_mono: "grows h h1 \<Longrightarrow> grows h1 h2 \<Longrightarrow> fresh_in h h1 \<subseteq> fresh_in h h2 \<and> fresh_in h1 h2 \<subseteq> fresh_in h h2"
  by (auto simp: fresh_in_def grows_def)

lemma alloc_fields [simp]:
  "fst (alloc c h) = next_addr h" "cells (snd (alloc c h)) = (cells h)(next_addr h \<mapsto> c)"
  "next_addr (snd (alloc c h)) = Suc (next_addr h)"
  by (simp_all add: alloc_def)

lemma put_fields [simp]: "cells (put a c h) = (cells h)(a \<mapsto> c)" "next_addr (put a c h) = next_addr h"
  by (simp_all add: put_def)

lemma alloc_grows [simp, intro]: "grows h (snd (alloc c h))"
  by (simp add: grows_def)

lemma alloc_ok [simp, intro]: "heap_ok h \<Longrightarrow> heap_ok (snd (alloc c h))"
  by (auto simp: heap_ok_def less_Suc_eq)

lemma put_ok: "heap_ok h \<Longrightarrow> a < next_addr h \<Longrightarrow> heap_ok (put a c h)"
  by (auto simp: heap_ok_def)

lemma put_grows: "grows h0 h \<Longrightarrow> next_addr h0 \<le> a \<Longrightarrow> grows h0 (put a c h)"
  by (auto simp: grows_def)

definition same_on :: "addr set \<Rightarrow> 'c heap \<Rightarrow> 'c heap \<Rightarrow> bool" where
  "same_on A h h' \<longleftrightarrow> (\<forall>a \<in> A. cells h' a = cells h a)"

lemma same_on_Un [simp]: "same_on (A \<union> B) h h' \<longleftrightarrow> same_on A h h' \<and> same_on B h h'"
  by (auto simp: same_on_def)

lemma same_on_UNION [simp]: "same_on (\<Union>x \<in> I. A x) h h' \<longleftrightarrow> (\<forall>x \<in> I. same_on (A x) h h')"
  by (auto simp: same_on_def)

lemma same_on_insert [simp]: "same_on (insert a A) h h' \<longleftrightarrow> cells h' a = cells h a \<and> same_on A h h'"
  by (simp add: same_on_def)

text \<open>
  Two references \<open>x\<close> and \<open>y\<close> to objects of the same content \<open>v\<close> that share nothing: whatever is done to the
  objects of one, the content of the other stays.
\<close>

definition unshared :: "('c heap \<Rightarrow> 'a \<Rightarrow> 'v option) \<Rightarrow> ('c heap \<Rightarrow> 'a \<Rightarrow> addr set) \<Rightarrow> 'v \<Rightarrow> 'c heap \<Rightarrow> 'a \<Rightarrow> 'a \<Rightarrow> bool" where
  "unshared view reach v h x y \<longleftrightarrow> view h x = Some v \<and> view h y = Some v \<and> reach h x \<inter> reach h y = {} \<and>
     (\<forall>h'. same_on (- reach h y) h h' \<longrightarrow> view h' x = Some v) \<and> (\<forall>h'. same_on (- reach h x) h h' \<longrightarrow> view h' y = Some v)"

section \<open>Deep copies\<close>

text \<open>
  \<open>view h x\<close> is the content of \<open>x\<close> with everything it refers to, if that is there; \<open>reach h x\<close> are the cells
  this depends on. A copy has the same content, leaves what there was as it was, and refers only to
  cells that were not there.
\<close>

locale viewer =
  fixes view :: "'c heap \<Rightarrow> 'a \<Rightarrow> 'v option"
    and reach :: "'c heap \<Rightarrow> 'a \<Rightarrow> addr set"
  assumes view_local: "view h x = Some v \<Longrightarrow> same_on (reach h x) h h' \<Longrightarrow> view h' x = Some v \<and> reach h' x = reach h x"
    and reach_present: "view h x = Some v \<Longrightarrow> reach h x \<subseteq> dom (cells h)"
begin

lemma reach_old: "heap_ok h \<Longrightarrow> view h x = Some v \<Longrightarrow> a \<in> reach h x \<Longrightarrow> a < next_addr h"
  using reach_present unfolding heap_ok_def by blast

lemma view_grows:
  assumes "heap_ok h" and "view h x = Some v" and "grows h h'"
  shows "view h' x = Some v" and "reach h' x = reach h x"
  using view_local [OF assms(2), of h'] reach_old [OF assms(1,2)] assms(3) unfolding grows_def same_on_def by blast+

end

locale deep_copier = viewer view reach
  for view :: "'c heap \<Rightarrow> 'a \<Rightarrow> 'v option" and reach :: "'c heap \<Rightarrow> 'a \<Rightarrow> addr set" +
  fixes copy :: "'a \<Rightarrow> 'c heap \<Rightarrow> ('a \<times> 'c heap) option"
  assumes copy_copies: "heap_ok h \<Longrightarrow> view h x = Some v \<Longrightarrow>
      \<exists>y h'. copy x h = Some (y, h') \<and> heap_ok h' \<and> grows h h' \<and> view h' y = Some v \<and> reach h' y \<subseteq> fresh_in h h'"
begin

text \<open>What may later be done to one of the two does not concern the other.\<close>

lemma copy_independent:
  assumes "heap_ok h" and "view h x = Some v"
  shows "\<exists>y h'. copy x h = Some (y, h') \<and> heap_ok h' \<and> grows h h' \<and> unshared view reach v h' x y"
proof -
  obtain y h' where c: "copy x h = Some (y, h')" "heap_ok h'" "grows h h'" "view h' y = Some v" "reach h' y \<subseteq> fresh_in h h'"
    using copy_copies [OF assms] by blast
  note x = view_grows [OF assms c(3)]
  have disj: "reach h' x \<inter> reach h' y = {}"
    using reach_old [OF assms] c(5) x(2) by (fastforce simp: fresh_in_def)
  then have "view h'' x = Some v" if "same_on (- reach h' y) h' h''" for h''
    using view_local [OF x(1), of h''] that unfolding same_on_def by blast
  moreover have "view h'' y = Some v" if "same_on (- reach h' x) h' h''" for h''
    using view_local [OF c(4), of h''] that disj unfolding same_on_def by blast
  ultimately show ?thesis using c x(1) disj unfolding unshared_def by blast
qed

text \<open>
  What a loop has copied into the object at \<open>a\<close>: its content is that of the original, and the loop, which
  goes on to allocate and to write to \<open>a\<close>, does not disturb it.
\<close>

definition owned :: "'c heap \<Rightarrow> addr \<Rightarrow> 'c heap \<Rightarrow> 'a \<Rightarrow> 'v \<Rightarrow> bool" where
  "owned h0 a h y v \<longleftrightarrow> view h y = Some v \<and> reach h y \<subseteq> fresh_in h0 h - {a}"

lemma owned_keeps:
  assumes "owned h0 a h y v" and "heap_ok h" and "grows h0 h" and "grows h h1"
  shows "owned h0 a (put a c h1) y v"
proof -
  have y: "view h y = Some v" "reach h y \<subseteq> fresh_in h0 h - {a}" using assms(1) by (simp_all add: owned_def)
  have "same_on (reach h y) h (put a c h1)"
    using y(2) reach_old [OF assms(2) y(1)] assms(4) by (auto simp: grows_def same_on_def)
  from view_local [OF y(1) this] show ?thesis using y(2) fresh_in_mono [OF assms(3,4)] by (auto simp: owned_def fresh_in_def)
qed

lemma owned_next:
  assumes "heap_ok h0" and "view h0 x = Some v" and "heap_ok h" and "grows h0 h" and "next_addr h0 \<le> a" and "a < next_addr h"
  shows "\<exists>y h1. copy x h = Some (y, h1) \<and> grows h h1 \<and> (\<forall>c. heap_ok (put a c h1) \<and> grows h0 (put a c h1) \<and>
    a < next_addr (put a c h1) \<and> owned h0 a (put a c h1) y v)"
proof -
  obtain y h1 where c: "copy x h = Some (y, h1)" "heap_ok h1" "grows h h1" "view h1 y = Some v" "reach h1 y \<subseteq> fresh_in h h1"
    using copy_copies [OF assms(3) view_grows(1) [OF assms(1,2,4)]] by blast
  have "a \<notin> reach h1 y" using c(5) assms(6) by (auto simp: fresh_in_def)
  then have "same_on (reach h1 y) h1 (put a d h1)" for d by (auto simp: same_on_def)
  from view_local [OF c(4) this] have "owned h0 a (put a d h1) y v" for d
    using c(5) fresh_in_mono [OF assms(4) c(3)] \<open>a \<notin> reach h1 y\<close> by (auto simp: owned_def fresh_in_def)
  moreover have "a < next_addr h1" using assms(6) c(3) by (simp add: grows_def)
  moreover have "grows h0 h1" using grows_trans assms(4) c(3) by blast
  ultimately show ?thesis using c(1-3) put_ok put_grows assms(5) by fastforce
qed

end

section \<open>Assignment and structs\<close>

text \<open>A value without references is copied by assignment.\<close>

definition copy_plain :: "'a \<Rightarrow> 'c heap \<Rightarrow> ('a \<times> 'c heap) option" where
  "copy_plain x h = Some (x, h)"

abbreviation view_plain :: "'c heap \<Rightarrow> 'a \<Rightarrow> 'a option" where
  "view_plain h x \<equiv> Some x"

abbreviation reach_plain :: "'c heap \<Rightarrow> 'a \<Rightarrow> addr set" where
  "reach_plain h x \<equiv> {}"

lemma plain_copier: "deep_copier view_plain reach_plain copy_plain"
  by unfold_locales (auto simp: copy_plain_def)

lemmas copier_viewer = deep_copier.axioms(1)

lemma deep_copierI:
  assumes "viewer view reach"
    and "\<And>h x v. heap_ok h \<Longrightarrow> view h x = Some v \<Longrightarrow>
      \<exists>y h'. copy x h = Some (y, h') \<and> heap_ok h' \<and> grows h h' \<and> view h' y = Some v \<and> reach h' y \<subseteq> fresh_in h h'"
  shows "deep_copier view reach copy"
  using assms by (simp add: deep_copier_def deep_copier_axioms_def)

text \<open>Two fields are copied one after the other.\<close>

definition copy_fields :: "('a \<Rightarrow> 'c heap \<Rightarrow> ('a \<times> 'c heap) option) \<Rightarrow> ('b \<Rightarrow> 'c heap \<Rightarrow> ('b \<times> 'c heap) option) \<Rightarrow>
    'a \<times> 'b \<Rightarrow> 'c heap \<Rightarrow> (('a \<times> 'b) \<times> 'c heap) option" where
  "copy_fields f g p h = do { (x, h1) \<leftarrow> f (fst p) h; (y, h2) \<leftarrow> g (snd p) h1; Some ((x, y), h2) }"

definition view_fields :: "('c heap \<Rightarrow> 'a \<Rightarrow> 'v option) \<Rightarrow> ('c heap \<Rightarrow> 'b \<Rightarrow> 'w option) \<Rightarrow> 'c heap \<Rightarrow> 'a \<times> 'b \<Rightarrow> ('v \<times> 'w) option" where
  "view_fields f g h p = do { v \<leftarrow> f h (fst p); w \<leftarrow> g h (snd p); Some (v, w) }"

definition reach_fields :: "('c heap \<Rightarrow> 'a \<Rightarrow> addr set) \<Rightarrow> ('c heap \<Rightarrow> 'b \<Rightarrow> addr set) \<Rightarrow> 'c heap \<Rightarrow> 'a \<times> 'b \<Rightarrow> addr set" where
  "reach_fields f g h p = f h (fst p) \<union> g h (snd p)"

lemma view_fields_Some:
  "view_fields vf vg h p = Some v \<longleftrightarrow> vf h (fst p) = Some (fst v) \<and> vg h (snd p) = Some (snd v)"
  by (cases v) (auto simp: view_fields_def Option.bind_eq_Some_conv)

lemma fields_viewer:
  assumes "viewer vf rf" and "viewer vg rg"
  shows "viewer (view_fields vf vg) (reach_fields rf rg)"
proof
  fix h h' p v assume "view_fields vf vg h p = Some v" "same_on (reach_fields rf rg h p) h h'"
  then show "view_fields vf vg h' p = Some v \<and> reach_fields rf rg h' p = reach_fields rf rg h p"
    using viewer.view_local [OF assms(1), of h "fst p" "fst v" h'] viewer.view_local [OF assms(2), of h "snd p" "snd v" h']
    by (simp add: view_fields_Some reach_fields_def)
next
  fix h p v assume "view_fields vf vg h p = Some v"
  then show "reach_fields rf rg h p \<subseteq> dom (cells h)"
    using viewer.reach_present [OF assms(1), of h "fst p"] viewer.reach_present [OF assms(2), of h "snd p"]
    by (simp add: view_fields_Some reach_fields_def)
qed

lemma fields_copier:
  assumes "deep_copier vf rf f" and "deep_copier vg rg g"
  shows "deep_copier (view_fields vf vg) (reach_fields rf rg) (copy_fields f g)"
proof (rule deep_copierI [OF fields_viewer [OF copier_viewer [OF assms(1)] copier_viewer [OF assms(2)]]])
  fix h p v assume ok: "heap_ok h" and "view_fields vf vg h p = Some v"
  then have v: "vf h (fst p) = Some (fst v)" "vg h (snd p) = Some (snd v)" by (simp_all add: view_fields_Some)
  obtain x h1 where x: "f (fst p) h = Some (x, h1)" "heap_ok h1" "grows h h1" "vf h1 x = Some (fst v)" "rf h1 x \<subseteq> fresh_in h h1"
    using deep_copier.copy_copies [OF assms(1) ok v(1)] by blast
  obtain y h2 where y: "g (snd p) h1 = Some (y, h2)" "heap_ok h2" "grows h1 h2" "vg h2 y = Some (snd v)" "rg h2 y \<subseteq> fresh_in h1 h2"
    using deep_copier.copy_copies [OF assms(2) x(2) viewer.view_grows(1) [OF copier_viewer [OF assms(2)] ok v(2) x(3)]] by blast
  note x2 = viewer.view_grows [OF copier_viewer [OF assms(1)] x(2,4) y(3)]
  show "\<exists>q h'. copy_fields f g p h = Some (q, h') \<and> heap_ok h' \<and> grows h h' \<and> view_fields vf vg h' q = Some v \<and>
      reach_fields rf rg h' q \<subseteq> fresh_in h h'"
    using x(1,3,5) y(1-5) x2 grows_trans [OF x(3) y(3)] fresh_in_mono [OF x(3) y(3)]
    by (auto simp: copy_fields_def view_fields_Some reach_fields_def)
qed

text \<open>
  A struct is assigned and the fields \<open>get\<close> with references are then copied. Its content is the struct with
  these fields cleared, and their content.
\<close>

definition copy_struct :: "('s \<Rightarrow> 'a) \<Rightarrow> ('a \<Rightarrow> 's \<Rightarrow> 's) \<Rightarrow> ('a \<Rightarrow> 'c heap \<Rightarrow> ('a \<times> 'c heap) option) \<Rightarrow>
    's \<Rightarrow> 'c heap \<Rightarrow> ('s \<times> 'c heap) option" where
  "copy_struct get upd f s h = do { (x, h1) \<leftarrow> f (get s) h; Some (upd x s, h1) }"

definition view_struct :: "('s \<Rightarrow> 'a) \<Rightarrow> ('a \<Rightarrow> 's \<Rightarrow> 's) \<Rightarrow> 'a \<Rightarrow> ('c heap \<Rightarrow> 'a \<Rightarrow> 'v option) \<Rightarrow> 'c heap \<Rightarrow> 's \<Rightarrow> ('s \<times> 'v) option" where
  "view_struct get upd z vf h s = do { v \<leftarrow> vf h (get s); Some (upd z s, v) }"

definition reach_struct :: "('s \<Rightarrow> 'a) \<Rightarrow> ('c heap \<Rightarrow> 'a \<Rightarrow> addr set) \<Rightarrow> 'c heap \<Rightarrow> 's \<Rightarrow> addr set" where
  "reach_struct get rf h s = rf h (get s)"

lemma view_struct_Some:
  "view_struct get upd z vf h s = Some v \<longleftrightarrow> vf h (get s) = Some (snd v) \<and> fst v = upd z s"
  by (cases v) (auto simp: view_struct_def Option.bind_eq_Some_conv)

lemma struct_viewer:
  assumes "viewer vf rf"
  shows "viewer (view_struct get upd z vf) (reach_struct get rf)"
proof
  fix h h' s v assume "view_struct get upd z vf h s = Some v" "same_on (reach_struct get rf h s) h h'"
  then show "view_struct get upd z vf h' s = Some v \<and> reach_struct get rf h' s = reach_struct get rf h s"
    using viewer.view_local [OF assms, of h "get s" "snd v" h'] by (simp add: view_struct_Some reach_struct_def)
qed (use viewer.reach_present [OF assms] in \<open>simp add: view_struct_Some reach_struct_def\<close>)

lemma struct_copier:
  assumes "deep_copier vf rf f" and "\<And>x s. get (upd x s) = x" and "\<And>x y s. upd x (upd y s) = upd x s"
  shows "deep_copier (view_struct get upd z vf) (reach_struct get rf) (copy_struct get upd f)"
proof (rule deep_copierI [OF struct_viewer [OF copier_viewer [OF assms(1)]]])
  fix h s v assume ok: "heap_ok h" and "view_struct get upd z vf h s = Some v"
  then have v: "vf h (get s) = Some (snd v)" "fst v = upd z s" by (simp_all add: view_struct_Some)
  from deep_copier.copy_copies [OF assms(1) ok v(1)]
  show "\<exists>t h'. copy_struct get upd f s h = Some (t, h') \<and> heap_ok h' \<and> grows h h' \<and> view_struct get upd z vf h' t = Some v \<and>
      reach_struct get rf h' t \<subseteq> fresh_in h h'"
    by (auto simp: copy_struct_def view_struct_Some reach_struct_def assms(2,3) v(2))
qed

section \<open>Pointers\<close>

text \<open>\<open>sel\<close> reads a cell as an object of the type that the reference has.\<close>

definition view_ref :: "('c \<Rightarrow> 'a option) \<Rightarrow> ('c heap \<Rightarrow> 'a \<Rightarrow> 'v option) \<Rightarrow> 'c heap \<Rightarrow> addr option \<Rightarrow> 'v option option" where
  "view_ref sel vf h p = (case p of None \<Rightarrow> Some None
     | Some a \<Rightarrow> do { c \<leftarrow> cells h a; x \<leftarrow> sel c; v \<leftarrow> vf h x; Some (Some v) })"

definition reach_ref :: "('c \<Rightarrow> 'a option) \<Rightarrow> ('c heap \<Rightarrow> 'a \<Rightarrow> addr set) \<Rightarrow> 'c heap \<Rightarrow> addr option \<Rightarrow> addr set" where
  "reach_ref sel rf h p = (case p of None \<Rightarrow> {}
     | Some a \<Rightarrow> insert a (case Option.bind (cells h a) sel of None \<Rightarrow> {} | Some x \<Rightarrow> rf h x))"

lemma view_ref_Some:
  "view_ref sel vf h (Some a) = Some v \<longleftrightarrow> (\<exists>x w. Option.bind (cells h a) sel = Some x \<and> vf h x = Some w \<and> v = Some w)"
  by (auto simp: view_ref_def Option.bind_eq_Some_conv)

lemma view_ref_None [simp]: "view_ref sel vf h None = Some None" "reach_ref sel rf h None = {}"
  by (simp_all add: view_ref_def reach_ref_def)

lemma ref_viewer:
  assumes "viewer vf rf"
  shows "viewer (view_ref sel vf) (reach_ref sel rf)"
proof
  fix h h' p v assume v: "view_ref sel vf h p = Some v" and same: "same_on (reach_ref sel rf h p) h h'"
  show "view_ref sel vf h' p = Some v \<and> reach_ref sel rf h' p = reach_ref sel rf h p"
  proof (cases p)
    case None
    then show ?thesis using v by simp
  next
    case (Some a)
    then obtain x w where x: "Option.bind (cells h a) sel = Some x" "vf h x = Some w" "v = Some w"
      using v by (auto simp: view_ref_Some)
    then have "cells h' a = cells h a" "same_on (rf h x) h h'" using same Some by (simp_all add: reach_ref_def)
    then show ?thesis using viewer.view_local [OF assms x(2)] x Some by (auto simp: view_ref_Some reach_ref_def)
  qed
next
  fix h p v assume "view_ref sel vf h p = Some v"
  then show "reach_ref sel rf h p \<subseteq> dom (cells h)"
    using viewer.reach_present [OF assms] by (cases p) (fastforce simp: view_ref_Some reach_ref_def Option.bind_eq_Some_conv)+
qed

text \<open>An object that was allocated and filled.\<close>

lemma object_copied:
  assumes "cells h' b = Some c" and "sel c = Some y" and "vf h' y = Some w" and "rf h' y \<subseteq> fresh_in h h'" and "b \<in> fresh_in h h'"
  shows "view_ref sel vf h' (Some b) = Some (Some w)" and "reach_ref sel rf h' (Some b) \<subseteq> fresh_in h h'"
  using assms by (simp_all add: view_ref_Some reach_ref_def)

text \<open>
  \<^verbatim>\<open>if in != nil { out = new(T); copy *in into *out }\<close>, with \<open>z\<close> the zero value of the type and \<open>C\<close> its cell;
  also the body of every \<^verbatim>\<open>DeepCopy\<close>.
\<close>

definition copy_new :: "('a \<Rightarrow> 'c) \<Rightarrow> ('c \<Rightarrow> 'a option) \<Rightarrow> 'a \<Rightarrow> ('a \<Rightarrow> 'c heap \<Rightarrow> ('a \<times> 'c heap) option) \<Rightarrow>
    addr option \<Rightarrow> 'c heap \<Rightarrow> (addr option \<times> 'c heap) option" where
  "copy_new C sel z f p h = (case p of None \<Rightarrow> Some (None, h)
     | Some a \<Rightarrow> do {
         c \<leftarrow> cells h a;
         x \<leftarrow> sel c;
         let (b, h1) = alloc (C z) h;
         (y, h2) \<leftarrow> f x h1;
         Some (Some b, put b (C y) h2) })"

lemma new_copier:
  assumes "deep_copier vf rf f" and "\<And>x. sel (C x) = Some x"
  shows "deep_copier (view_ref sel vf) (reach_ref sel rf) (copy_new C sel z f)"
proof (rule deep_copierI [OF ref_viewer [OF copier_viewer [OF assms(1)]]])
  fix h p v assume ok: "heap_ok h" and v: "view_ref sel vf h p = Some v"
  show "\<exists>q h'. copy_new C sel z f p h = Some (q, h') \<and> heap_ok h' \<and> grows h h' \<and> view_ref sel vf h' q = Some v \<and>
      reach_ref sel rf h' q \<subseteq> fresh_in h h'"
  proof (cases p)
    case None
    then show ?thesis using ok v by (simp add: copy_new_def)
  next
    case (Some a)
    then obtain x w where x: "Option.bind (cells h a) sel = Some x" "vf h x = Some w" "v = Some w"
      using v by (auto simp: view_ref_Some)
    let ?b = "next_addr h" and ?h1 = "snd (alloc (C z) h)"
    have "?b < next_addr ?h1" by simp
    from deep_copier.owned_next [OF assms(1) ok x(2) alloc_ok [OF ok] alloc_grows order_refl this]
    obtain y h2 where y: "f x ?h1 = Some (y, h2)" "\<And>c. heap_ok (put ?b c h2) \<and> grows h (put ?b c h2) \<and>
        ?b < next_addr (put ?b c h2) \<and> deep_copier.owned vf rf h ?b (put ?b c h2) y w" by blast
    let ?h' = "put ?b (C y) h2"
    have "vf ?h' y = Some w" "rf ?h' y \<subseteq> fresh_in h ?h'"
      using y(2) [of "C y"] unfolding deep_copier.owned_def [OF assms(1)] by blast+
    moreover have "?b \<in> fresh_in h ?h'" using y(2) [of "C y"] by (simp add: fresh_in_def)
    ultimately have "view_ref sel vf ?h' (Some ?b) = Some v" "reach_ref sel rf ?h' (Some ?b) \<subseteq> fresh_in h ?h'"
      using object_copied [of ?h' ?b "C y" sel y vf w rf h] assms(2) x(3) by simp_all
    moreover have "copy_new C sel z f p h = Some (Some ?b, ?h')"
      using x(1) y(1) Some by (auto simp: copy_new_def alloc_def Option.bind_eq_Some_conv)
    ultimately show ?thesis using y(2) [of "C y"] by blast
  qed
qed

text \<open>A pointer that is copied by a call only if it is not \<^verbatim>\<open>nil\<close>.\<close>

definition copy_set :: "(addr option \<Rightarrow> 'c heap \<Rightarrow> (addr option \<times> 'c heap) option) \<Rightarrow> addr option \<Rightarrow> 'c heap \<Rightarrow> (addr option \<times> 'c heap) option" where
  "copy_set copy p h = (if p \<noteq> None then copy p h else Some (p, h))"

lemma set_copier:
  assumes "deep_copier (view_ref sel vf) (reach_ref sel rf) copy"
  shows "deep_copier (view_ref sel vf) (reach_ref sel rf) (copy_set copy)"
proof (rule deep_copierI [OF copier_viewer [OF assms]])
  fix h p v assume ok: "heap_ok h" "view_ref sel vf h p = Some v"
  from deep_copier.copy_copies [OF assms ok] ok
  show "\<exists>q h'. copy_set copy p h = Some (q, h') \<and> heap_ok h' \<and> grows h h' \<and> view_ref sel vf h' q = Some v \<and>
      reach_ref sel rf h' q \<subseteq> fresh_in h h'"
    by (cases p) (simp_all add: copy_set_def)
qed

section \<open>Slices\<close>

text \<open>A slice is a part of an array: where it starts and how many elements it has. The array is a cell.\<close>

type_synonym slice = "(addr \<times> nat \<times> nat) option"

definition sel_part :: "('c \<Rightarrow> 'a list option) \<Rightarrow> nat \<Rightarrow> nat \<Rightarrow> 'c \<Rightarrow> 'a list option" where
  "sel_part sel off n c = do { xs \<leftarrow> sel c; if off + n \<le> length xs then Some (take n (drop off xs)) else None }"

definition view_elems :: "('c heap \<Rightarrow> 'a \<Rightarrow> 'v option) \<Rightarrow> 'c heap \<Rightarrow> 'a list \<Rightarrow> 'v list option" where
  "view_elems vf h xs = those (map (vf h) xs)"

definition reach_elems :: "('c heap \<Rightarrow> 'a \<Rightarrow> addr set) \<Rightarrow> 'c heap \<Rightarrow> 'a list \<Rightarrow> addr set" where
  "reach_elems rf h xs = (\<Union>x \<in> set xs. rf h x)"

definition view_slice :: "('c \<Rightarrow> 'a list option) \<Rightarrow> ('c heap \<Rightarrow> 'a \<Rightarrow> 'v option) \<Rightarrow> 'c heap \<Rightarrow> slice \<Rightarrow> 'v list option option" where
  "view_slice sel vf h s = (case s of None \<Rightarrow> Some None | Some (a, off, n) \<Rightarrow> view_ref (sel_part sel off n) (view_elems vf) h (Some a))"

definition reach_slice :: "('c \<Rightarrow> 'a list option) \<Rightarrow> ('c heap \<Rightarrow> 'a \<Rightarrow> addr set) \<Rightarrow> 'c heap \<Rightarrow> slice \<Rightarrow> addr set" where
  "reach_slice sel rf h s = (case s of None \<Rightarrow> {} | Some (a, off, n) \<Rightarrow> reach_ref (sel_part sel off n) (reach_elems rf) h (Some a))"

lemma those_map_Some: "those (map g xs) = Some vs \<longleftrightarrow> list_all2 (\<lambda>x v. g x = Some v) xs vs"
proof (induction xs arbitrary: vs)
  case (Cons x xs)
  then show ?case by (cases vs) (auto split: option.splits)
qed auto

lemma elems_viewer:
  assumes "viewer vf rf"
  shows "viewer (view_elems vf) (reach_elems rf)"
proof
  fix h h' xs vs assume v: "view_elems vf h xs = Some vs" and same: "same_on (reach_elems rf h xs) h h'"
  have each: "vf h' x = Some v \<and> rf h' x = rf h x" if "x \<in> set xs" "vf h x = Some v" for x v
    using viewer.view_local [OF assms that(2)] same that(1) by (simp add: reach_elems_def)
  have "\<exists>v. vf h x = Some v" if "x \<in> set xs" for x
    using v that by (auto simp: view_elems_def those_map_Some list_all2_conv_all_nth in_set_conv_nth)
  then show "view_elems vf h' xs = Some vs \<and> reach_elems rf h' xs = reach_elems rf h xs"
    using v each unfolding view_elems_def those_map_Some reach_elems_def
    by (intro conjI SUP_cong) (auto simp: list_all2_conv_all_nth)
next
  fix h xs vs assume "view_elems vf h xs = Some vs"
  then have "\<exists>v. vf h x = Some v" if "x \<in> set xs" for x
    using that by (auto simp: view_elems_def those_map_Some list_all2_conv_all_nth in_set_conv_nth)
  then show "reach_elems rf h xs \<subseteq> dom (cells h)" using viewer.reach_present [OF assms] unfolding reach_elems_def by blast
qed

lemma slice_viewer:
  assumes "viewer vf rf"
  shows "viewer (view_slice sel vf) (reach_slice sel rf)"
proof
  fix h h' s v assume "view_slice sel vf h s = Some v" "same_on (reach_slice sel rf h s) h h'"
  then show "view_slice sel vf h' s = Some v \<and> reach_slice sel rf h' s = reach_slice sel rf h s"
    using viewer.view_local [OF ref_viewer [OF elems_viewer [OF assms]], of _ h "Some (fst (the s))" v h']
    by (cases s) (simp_all add: view_slice_def reach_slice_def split: prod.splits)
next
  fix h s v assume "view_slice sel vf h s = Some v"
  then show "reach_slice sel rf h s \<subseteq> dom (cells h)"
    using viewer.reach_present [OF ref_viewer [OF elems_viewer [OF assms]], of _ h "Some (fst (the s))" v]
    by (cases s) (simp_all add: view_slice_def reach_slice_def split: prod.splits)
qed

text \<open>
  \<^verbatim>\<open>out = make([]T, len(in)); for i := range in { copy in[i] into out[i] }\<close>: \<open>a\<close> is the new array, which
  has the elements \<open>ys\<close> when the loop comes to the index \<open>i\<close>.
\<close>

fun copy_loop :: "('a list \<Rightarrow> 'c) \<Rightarrow> ('a \<Rightarrow> 'c heap \<Rightarrow> ('a \<times> 'c heap) option) \<Rightarrow> addr \<Rightarrow> nat \<Rightarrow> 'a list \<Rightarrow> 'a list \<Rightarrow>
    'c heap \<Rightarrow> 'c heap option" where
  "copy_loop C f a i [] ys h = Some h"
| "copy_loop C f a i (x # xs) ys h = do {
     (y, h1) \<leftarrow> f x h;
     copy_loop C f a (Suc i) xs (ys[i := y]) (put a (C (ys[i := y])) h1) }"

definition copy_slice :: "('a list \<Rightarrow> 'c) \<Rightarrow> ('c \<Rightarrow> 'a list option) \<Rightarrow> 'a \<Rightarrow> ('a \<Rightarrow> 'c heap \<Rightarrow> ('a \<times> 'c heap) option) \<Rightarrow>
    slice \<Rightarrow> 'c heap \<Rightarrow> (slice \<times> 'c heap) option" where
  "copy_slice C sel z f s h = (case s of None \<Rightarrow> Some (None, h)
     | Some (a, off, n) \<Rightarrow> do {
         c \<leftarrow> cells h a;
         xs \<leftarrow> sel_part sel off n c;
         let (b, h1) = alloc (C (replicate n z)) h;
         h2 \<leftarrow> copy_loop C f b 0 xs (replicate n z) h1;
         Some (Some (b, 0, n), h2) })"

context deep_copier
begin

lemma copy_loop_copies:
  assumes "heap_ok h0" and "next_addr h0 \<le> a" and "list_all2 (\<lambda>x v. view h0 x = Some v) xs vs"
    and "heap_ok h" and "grows h0 h" and "a < next_addr h" and "length ys = i + length xs"
    and "list_all2 (owned h0 a h) (take i ys) ds" and "cells h a = Some (C ys)"
  shows "\<exists>h' ys'. copy_loop C copy a i xs ys h = Some h' \<and> heap_ok h' \<and> grows h0 h' \<and> a < next_addr h' \<and>
    cells h' a = Some (C ys') \<and> list_all2 (owned h0 a h') ys' (ds @ vs)"
  using assms(3-)
proof (induction xs arbitrary: vs h ys i ds)
  case Nil
  then show ?case by auto
next
  case (Cons x xs)
  then obtain v vs' where vs: "vs = v # vs'" "view h0 x = Some v" "list_all2 (\<lambda>x v. view h0 x = Some v) xs vs'"
    by (auto simp: list_all2_Cons1)
  obtain y h1 where y: "copy x h = Some (y, h1)" "grows h h1" "\<And>c. heap_ok (put a c h1) \<and> grows h0 (put a c h1) \<and>
      a < next_addr (put a c h1) \<and> owned h0 a (put a c h1) y v"
    using owned_next [OF assms(1) vs(2) Cons.prems(2,3) assms(2) Cons.prems(4)] by blast
  let ?ys = "ys[i := y]"
  let ?h = "put a (C ?ys) h1"
  have "take (Suc i) ?ys = take i ys @ [y]" using Cons.prems(5) by (simp add: take_Suc_conv_app_nth)
  moreover have "list_all2 (owned h0 a ?h) (take i ys) ds"
    using Cons.prems(6) by (rule list_all2_mono) (rule owned_keeps [OF _ Cons.prems(2,3) y(2)])
  ultimately have "list_all2 (owned h0 a ?h) (take (Suc i) ?ys) (ds @ [v])" using y(3) by (simp add: list_all2_appendI)
  from Cons.IH [OF vs(3) _ _ _ _ this] y show ?case using Cons.prems(5) vs(1) by simp
qed

end

lemma slice_copier:
  assumes "deep_copier vf rf f" and "\<And>xs. sel (C xs) = Some xs"
  shows "deep_copier (view_slice sel vf) (reach_slice sel rf) (copy_slice C sel z f)"
proof (rule deep_copierI [OF slice_viewer [OF copier_viewer [OF assms(1)]]])
  fix h s v assume ok: "heap_ok h" and v: "view_slice sel vf h s = Some v"
  show "\<exists>t h'. copy_slice C sel z f s h = Some (t, h') \<and> heap_ok h' \<and> grows h h' \<and> view_slice sel vf h' t = Some v \<and>
      reach_slice sel rf h' t \<subseteq> fresh_in h h'"
  proof (cases s)
    case None
    then show ?thesis using ok v by (simp add: copy_slice_def view_slice_def reach_slice_def)
  next
    case (Some p)
    then obtain a off n where s: "s = Some (a, off, n)" by (cases p) auto
    then obtain xs vs where x: "Option.bind (cells h a) (sel_part sel off n) = Some xs" "view_elems vf h xs = Some vs" "v = Some vs"
      using v by (auto simp: view_slice_def view_ref_Some)
    have n: "length xs = n" using x(1) by (auto simp: sel_part_def Option.bind_eq_Some_conv split: if_splits)
    let ?b = "next_addr h" and ?h1 = "snd (alloc (C (replicate n z)) h)"
    obtain h' ys where y: "copy_loop C f ?b 0 xs (replicate n z) ?h1 = Some h'" "heap_ok h'" "grows h h'" "?b < next_addr h'"
      "cells h' ?b = Some (C ys)" "list_all2 (deep_copier.owned vf rf h ?b h') ys vs"
      using deep_copier.copy_loop_copies [OF assms(1) ok order_refl x(2) [unfolded view_elems_def those_map_Some] alloc_ok [OF ok] alloc_grows,
          of "C (replicate n z)" "replicate n z" 0 "[]" C] n by auto
    have "view_elems vf h' ys = Some vs" "reach_elems rf h' ys \<subseteq> fresh_in h h'" "length ys = n"
      using y(6) n x(2) by (auto simp: view_elems_def those_map_Some reach_elems_def deep_copier.owned_def [OF assms(1)]
          list_all2_conv_all_nth in_set_conv_nth) blast
    moreover have "?b \<in> fresh_in h h'" using y(4) by (simp add: fresh_in_def)
    moreover have "sel_part sel 0 n (C ys) = Some ys" if "length ys = n" using that assms(2) by (simp add: sel_part_def)
    ultimately have "view_slice sel vf h' (Some (?b, 0, n)) = Some v" "reach_slice sel rf h' (Some (?b, 0, n)) \<subseteq> fresh_in h h'"
      using object_copied [OF y(5), of "sel_part sel 0 n" ys "view_elems vf" vs "reach_elems rf" h] x(3)
      by (simp_all add: view_slice_def reach_slice_def)
    moreover have "copy_slice C sel z f s h = Some (Some (?b, 0, n), h')"
      using x(1) y(1) s by (auto simp: copy_slice_def alloc_def Option.bind_eq_Some_conv)
    ultimately show ?thesis using y(2,3) by blast
  qed
qed

section \<open>Maps\<close>

text \<open>A map is a reference to its entries. Its content does not depend on their order.\<close>

definition view_entries :: "('c heap \<Rightarrow> 'a \<Rightarrow> 'v option) \<Rightarrow> 'c heap \<Rightarrow> ('k, 'a) gomap \<Rightarrow> ('k \<rightharpoonup> 'v) option" where
  "view_entries vf h m =
     (if list_all (\<lambda>k. Option.bind (map_of m k) (vf h) \<noteq> None) (map fst m) then Some (\<lambda>k. Option.bind (map_of m k) (vf h)) else None)"

definition reach_entries :: "('c heap \<Rightarrow> 'a \<Rightarrow> addr set) \<Rightarrow> 'c heap \<Rightarrow> ('k, 'a) gomap \<Rightarrow> addr set" where
  "reach_entries rf h m = (\<Union>x \<in> ran (map_of m). rf h x)"

lemma view_entries_Some:
  "view_entries vf h m = Some v \<longleftrightarrow>
     (\<forall>k x. map_of m k = Some x \<longrightarrow> vf h x \<noteq> None \<and> v k = vf h x) \<and> (\<forall>k. map_of m k = None \<longrightarrow> v k = None)"
proof -
  have "list_all (\<lambda>k. Option.bind (map_of m k) (vf h) \<noteq> None) (map fst m) \<longleftrightarrow> (\<forall>k x. map_of m k = Some x \<longrightarrow> vf h x \<noteq> None)"
  proof -
    have "set (map fst m) = dom (map_of m)" by (simp add: dom_map_of_conv_image_fst)
    then show ?thesis unfolding list_all_iff by (auto simp: dom_def)
  qed
  moreover have "(\<lambda>k. Option.bind (map_of m k) (vf h)) = v \<longleftrightarrow>
      (\<forall>k x. map_of m k = Some x \<longrightarrow> v k = vf h x) \<and> (\<forall>k. map_of m k = None \<longrightarrow> v k = None)"
  proof -
    have "Option.bind (map_of m k) (vf h) = v k \<longleftrightarrow>
        (\<forall>x. map_of m k = Some x \<longrightarrow> v k = vf h x) \<and> (map_of m k = None \<longrightarrow> v k = None)" for k
      by (cases "map_of m k") auto
    then show ?thesis unfolding fun_eq_iff by blast
  qed
  ultimately show ?thesis unfolding view_entries_def by auto
qed

lemma entries_viewer:
  assumes "viewer vf rf"
  shows "viewer (view_entries vf) (reach_entries rf)"
proof
  fix h h' m v assume v: "view_entries vf h m = Some v" and same: "same_on (reach_entries rf h m) h h'"
  have each: "vf h' x = vf h x \<and> rf h' x = rf h x" if "x \<in> ran (map_of m)" for x
  proof -
    obtain k where "map_of m k = Some x" using \<open>x \<in> ran (map_of m)\<close> by (auto simp: ran_def)
    then obtain w where "vf h x = Some w" using v unfolding view_entries_Some by blast
    moreover have "same_on (rf h x) h h'" using same that by (simp add: reach_entries_def)
    ultimately show ?thesis using viewer.view_local [OF assms, of h x w h'] by simp
  qed
  then have "view_entries vf h' m = Some v" using v unfolding view_entries_Some by (metis ranI)
  then show "view_entries vf h' m = Some v \<and> reach_entries rf h' m = reach_entries rf h m"
    using each by (simp add: reach_entries_def)
next
  fix h m v assume "view_entries vf h m = Some v"
  then have "\<exists>w. vf h x = Some w" if "x \<in> ran (map_of m)" for x using that unfolding view_entries_Some ran_def by blast
  then show "reach_entries rf h m \<subseteq> dom (cells h)" using viewer.reach_present [OF assms] unfolding reach_entries_def by blast
qed

text \<open>
  \<^verbatim>\<open>out = make(map[K]T, len(in)); for key, val := range in { out[key] = copy of val }\<close>: \<open>a\<close> is the new map, \<open>rng\<close>
  the order in which the keys are visited.
\<close>

fun copy_entries :: "(('k, 'a) gomap \<Rightarrow> 'c) \<Rightarrow> ('a \<Rightarrow> 'c heap \<Rightarrow> ('a \<times> 'c heap) option) \<Rightarrow> addr \<Rightarrow> ('k, 'a) gomap \<Rightarrow> 'k list \<Rightarrow>
    ('k, 'a) gomap \<Rightarrow> 'c heap \<Rightarrow> 'c heap option" where
  "copy_entries C f a m [] out h = Some h"
| "copy_entries C f a m (k # ks) out h = do {
     x \<leftarrow> map_of m k;
     (y, h1) \<leftarrow> f x h;
     copy_entries C f a m ks (AList.update k y out) (put a (C (AList.update k y out)) h1) }"

definition copy_map :: "(('k, 'a) gomap \<Rightarrow> 'c) \<Rightarrow> ('c \<Rightarrow> ('k, 'a) gomap option) \<Rightarrow> ('k list \<Rightarrow> 'k list) \<Rightarrow>
    ('a \<Rightarrow> 'c heap \<Rightarrow> ('a \<times> 'c heap) option) \<Rightarrow> addr option \<Rightarrow> 'c heap \<Rightarrow> (addr option \<times> 'c heap) option" where
  "copy_map C sel rng f p h = (case p of None \<Rightarrow> Some (None, h)
     | Some a \<Rightarrow> do {
         c \<leftarrow> cells h a;
         m \<leftarrow> sel c;
         let (b, h1) = alloc (C []) h;
         h2 \<leftarrow> copy_entries C f b m (rng (map fst m)) [] h1;
         Some (Some b, h2) })"

context deep_copier
begin

lemma copy_entries_copies:
  assumes "heap_ok h0" and "next_addr h0 \<le> a" and "view_entries view h0 m = Some v" and "set ks \<subseteq> dom (map_of m)"
    and "heap_ok h" and "grows h0 h" and "a < next_addr h" and "cells h a = Some (C out)"
    and "\<And>k y. map_of out k = Some y \<Longrightarrow> \<exists>w. v k = Some w \<and> owned h0 a h y w"
  shows "\<exists>h' out'. copy_entries C copy a m ks out h = Some h' \<and> heap_ok h' \<and> grows h0 h' \<and> a < next_addr h' \<and>
    cells h' a = Some (C out') \<and> dom (map_of out') = dom (map_of out) \<union> set ks \<and>
    (\<forall>k y. map_of out' k = Some y \<longrightarrow> (\<exists>w. v k = Some w \<and> owned h0 a h' y w))"
  using assms(4-)
proof (induction ks arbitrary: out h)
  case Nil
  then show ?case by auto
next
  case (Cons k ks)
  then obtain x where x: "map_of m k = Some x" by auto
  then obtain w where w: "view h0 x = Some w" "v k = Some w" using assms(3) unfolding view_entries_Some by fastforce
  obtain y h1 where y: "copy x h = Some (y, h1)" "grows h h1" "\<And>c. heap_ok (put a c h1) \<and> grows h0 (put a c h1) \<and>
      a < next_addr (put a c h1) \<and> owned h0 a (put a c h1) y w"
    using owned_next [OF assms(1) w(1) Cons.prems(2,3) assms(2) Cons.prems(4)] by blast
  let ?out = "AList.update k y out"
  let ?h = "put a (C ?out) h1"
  have "\<exists>w. v k' = Some w \<and> owned h0 a ?h y' w" if "map_of ?out k' = Some y'" for k' y'
    using that Cons.prems(6) [of k' y'] owned_keeps [OF _ Cons.prems(2,3) y(2)] y(3) w(2) by (cases "k' = k") auto
  moreover have "set ks \<subseteq> dom (map_of m)" "cells ?h a = Some (C ?out)" using Cons.prems(1) by simp_all
  moreover have "dom (map_of ?out) \<union> set ks = dom (map_of out) \<union> set (k # ks)" by simp
  moreover have "copy_entries C copy a m (k # ks) out h = copy_entries C copy a m ks ?out ?h" using x y(1) by simp
  ultimately show ?case using Cons.IH [of ?h ?out] y(3) [of "C ?out"] by presburger
qed

end

lemma map_copier:
  assumes "deep_copier vf rf f" and "\<And>m. sel (C m) = Some m" and "\<And>ks. set (rng ks) = set ks"
  shows "deep_copier (view_ref sel (view_entries vf)) (reach_ref sel (reach_entries rf)) (copy_map C sel rng f)"
proof (rule deep_copierI [OF ref_viewer [OF entries_viewer [OF copier_viewer [OF assms(1)]]]])
  fix h p v assume ok: "heap_ok h" and v: "view_ref sel (view_entries vf) h p = Some v"
  show "\<exists>q h'. copy_map C sel rng f p h = Some (q, h') \<and> heap_ok h' \<and> grows h h' \<and> view_ref sel (view_entries vf) h' q = Some v \<and>
      reach_ref sel (reach_entries rf) h' q \<subseteq> fresh_in h h'"
  proof (cases p)
    case None
    then show ?thesis using ok v by (simp add: copy_map_def)
  next
    case (Some a)
    then obtain m w where m: "Option.bind (cells h a) sel = Some m" "view_entries vf h m = Some w" "v = Some w"
      using v by (auto simp: view_ref_Some)
    let ?b = "next_addr h" and ?h1 = "snd (alloc (C []) h)"
    have dom: "set (rng (map fst m)) = dom (map_of m)" by (simp add: assms(3) dom_map_of_conv_image_fst)
    obtain h' out where y: "copy_entries C f ?b m (rng (map fst m)) [] ?h1 = Some h'" "heap_ok h'" "grows h h'" "?b < next_addr h'"
      "cells h' ?b = Some (C out)" "dom (map_of out) = dom (map_of m)"
      "\<And>k y. map_of out k = Some y \<Longrightarrow> \<exists>u. w k = Some u \<and> deep_copier.owned vf rf h ?b h' y u"
      using deep_copier.copy_entries_copies [OF assms(1) ok order_refl m(2) _ alloc_ok [OF ok] alloc_grows,
          of "rng (map fst m)" "C []" C "[]"] dom by auto
    have "view_entries vf h' out = Some w"
      unfolding view_entries_Some
    proof (intro conjI allI impI)
      fix k x assume "map_of out k = Some x"
      then obtain u where "w k = Some u" "vf h' x = Some u" using y(7) unfolding deep_copier.owned_def [OF assms(1)] by blast
      then show "vf h' x \<noteq> None" "w k = vf h' x" by simp_all
    next
      fix k assume "map_of out k = None"
      then have "map_of m k = None" using y(6) by (metis domIff)
      then show "w k = None" using m(2) by (simp add: view_entries_Some)
    qed
    moreover have "reach_entries rf h' out \<subseteq> fresh_in h h'"
      using y(7) by (fastforce simp: reach_entries_def ran_def deep_copier.owned_def [OF assms(1)])
    moreover have "?b \<in> fresh_in h h'" using y(4) by (simp add: fresh_in_def)
    ultimately have "view_ref sel (view_entries vf) h' (Some ?b) = Some v" "reach_ref sel (reach_entries rf) h' (Some ?b) \<subseteq> fresh_in h h'"
      using object_copied [OF y(5), of sel out "view_entries vf" w "reach_entries rf" h] assms(2) m(3) by simp_all
    moreover have "copy_map C sel rng f p h = Some (Some ?b, h')"
      using m(1) y(1) Some by (auto simp: copy_map_def alloc_def Option.bind_eq_Some_conv)
    ultimately show ?thesis using y(2,3) by blast
  qed
qed

end
