(* ===== verification/Deep_Copy.thy ===== *)
theory Deep_Copy
  imports Go_Heap Api_Types
begin

text \<open>
  \<^verbatim>\<open>api/v1alpha1/zz_generated.deepcopy.go\<close>: the copies of the resources, on a heap. Elsewhere in the
  development a resource is a value; here its structs have the pointers, slices and maps that the Go
  structs have. Shown: a copy has the content of the original, and neither can be changed through the other.
  \<^verbatim>\<open>metav1.Time\<close>, \<^verbatim>\<open>ObjectMeta\<close> and \<^verbatim>\<open>ListMeta\<close> are copied by code of the API machinery, a parameter.
\<close>

section \<open>Objects\<close>

text \<open>The structs with references; \<open>None\<close> is \<^verbatim>\<open>nil\<close>. The structs without are those of \<open>Api_Types\<close>.\<close>

record UpdateStrategy_obj =
  uo_Type :: string
  uo_Mode :: string
  uo_MaxUnavailable :: IntOrString
  uo_DrainTimeout :: "addr option"

record NodeReadinessGate_obj =
  go_MatchLabels :: "addr option"

record RollingUpgradeSpec_obj =
  po_PostDrainDelaySeconds :: int
  po_NodeIntervalSeconds :: int
  po_AsgName :: string
  po_PreDrain :: PreDrainSpec
  po_PostDrain :: PostDrainSpec
  po_PostTerminate :: PostTerminateSpec
  po_Strategy :: UpdateStrategy_obj
  po_IgnoreDrainFailures :: "addr option"
  po_ForceRefresh :: bool
  po_ReadinessGates :: slice

record RollingUpgradeStatus_obj =
  so_CurrentStatus :: string
  so_StartTime :: string
  so_EndTime :: string
  so_TotalProcessingTime :: string
  so_NodesProcessed :: int
  so_TotalNodes :: int
  so_CompletePercentage :: string
  so_Conditions :: slice
  so_LastNodeTerminationTime :: "addr option"
  so_LastNodeDrainTime :: "addr option"
  so_Statistics :: slice
  so_LastBatchNodes :: slice
  so_NodeInProcessing :: "addr option"

text \<open>Of the metadata, the fields the controllers use and those with references of the kinds above.\<close>

record TypeMeta =
  tm_Kind :: string
  tm_APIVersion :: string

record ObjectMeta_obj =
  mo_Name :: string
  mo_Namespace :: string
  mo_UID :: string
  mo_ResourceVersion :: string
  mo_CreationTimestamp :: time
  mo_Labels :: "addr option"
  mo_DeletionTimestamp :: "addr option"

record ListMeta_obj =
  lm_ResourceVersion :: string
  lm_Continue :: string
  lm_RemainingItemCount :: "addr option"

record RollingUpgrade_obj =
  ro_TypeMeta :: TypeMeta
  ro_ObjectMeta :: ObjectMeta_obj
  ro_Spec :: RollingUpgradeSpec_obj
  ro_Status :: RollingUpgradeStatus_obj

record RollingUpgradeList_obj =
  lo_TypeMeta :: TypeMeta
  lo_ListMeta :: ListMeta_obj
  lo_Items :: slice

text \<open>What a reference may refer to.\<close>

datatype cell =
    BoolCell bool | IntCell int | TimeCell time
  | LabelsCell "(string, string) gomap" | StringsCell "string list"
  | ConditionCell RollingUpgradeCondition | ConditionsCell "RollingUpgradeCondition list"
  | StatisticsCell RollingUpgradeStatistics | StatisticsRefsCell "addr option list"
  | NodeInProcessingCell NodeInProcessing | NodesInProcessingCell "(string, addr option) gomap"
  | GateCell NodeReadinessGate_obj | GatesCell "NodeReadinessGate_obj list"
  | StepDurationCell NodeStepDuration
  | PreDrainCell PreDrainSpec | PostDrainCell PostDrainSpec | PostTerminateCell PostTerminateSpec
  | StrategyCell UpdateStrategy_obj | SpecCell RollingUpgradeSpec_obj | StatusCell RollingUpgradeStatus_obj
  | RollingUpgradeCell RollingUpgrade_obj | RollingUpgradesCell "RollingUpgrade_obj list"
  | RollingUpgradeListCell RollingUpgradeList_obj

definition as_bool :: "cell \<Rightarrow> bool option" where
  "as_bool c = (case c of BoolCell x \<Rightarrow> Some x | _ \<Rightarrow> None)"

definition as_int :: "cell \<Rightarrow> int option" where
  "as_int c = (case c of IntCell x \<Rightarrow> Some x | _ \<Rightarrow> None)"

definition as_time :: "cell \<Rightarrow> time option" where
  "as_time c = (case c of TimeCell x \<Rightarrow> Some x | _ \<Rightarrow> None)"

definition as_labels :: "cell \<Rightarrow> (string, string) gomap option" where
  "as_labels c = (case c of LabelsCell x \<Rightarrow> Some x | _ \<Rightarrow> None)"

definition as_strings :: "cell \<Rightarrow> string list option" where
  "as_strings c = (case c of StringsCell x \<Rightarrow> Some x | _ \<Rightarrow> None)"

definition as_condition :: "cell \<Rightarrow> RollingUpgradeCondition option" where
  "as_condition c = (case c of ConditionCell x \<Rightarrow> Some x | _ \<Rightarrow> None)"

definition as_conditions :: "cell \<Rightarrow> RollingUpgradeCondition list option" where
  "as_conditions c = (case c of ConditionsCell x \<Rightarrow> Some x | _ \<Rightarrow> None)"

definition as_statistics :: "cell \<Rightarrow> RollingUpgradeStatistics option" where
  "as_statistics c = (case c of StatisticsCell x \<Rightarrow> Some x | _ \<Rightarrow> None)"

definition as_statistics_refs :: "cell \<Rightarrow> addr option list option" where
  "as_statistics_refs c = (case c of StatisticsRefsCell x \<Rightarrow> Some x | _ \<Rightarrow> None)"

definition as_node_in_processing :: "cell \<Rightarrow> NodeInProcessing option" where
  "as_node_in_processing c = (case c of NodeInProcessingCell x \<Rightarrow> Some x | _ \<Rightarrow> None)"

definition as_nodes_in_processing :: "cell \<Rightarrow> (string, addr option) gomap option" where
  "as_nodes_in_processing c = (case c of NodesInProcessingCell x \<Rightarrow> Some x | _ \<Rightarrow> None)"

definition as_gate :: "cell \<Rightarrow> NodeReadinessGate_obj option" where
  "as_gate c = (case c of GateCell x \<Rightarrow> Some x | _ \<Rightarrow> None)"

definition as_gates :: "cell \<Rightarrow> NodeReadinessGate_obj list option" where
  "as_gates c = (case c of GatesCell x \<Rightarrow> Some x | _ \<Rightarrow> None)"

definition as_step_duration :: "cell \<Rightarrow> NodeStepDuration option" where
  "as_step_duration c = (case c of StepDurationCell x \<Rightarrow> Some x | _ \<Rightarrow> None)"

definition as_pre_drain :: "cell \<Rightarrow> PreDrainSpec option" where
  "as_pre_drain c = (case c of PreDrainCell x \<Rightarrow> Some x | _ \<Rightarrow> None)"

definition as_post_drain :: "cell \<Rightarrow> PostDrainSpec option" where
  "as_post_drain c = (case c of PostDrainCell x \<Rightarrow> Some x | _ \<Rightarrow> None)"

definition as_post_terminate :: "cell \<Rightarrow> PostTerminateSpec option" where
  "as_post_terminate c = (case c of PostTerminateCell x \<Rightarrow> Some x | _ \<Rightarrow> None)"

definition as_strategy :: "cell \<Rightarrow> UpdateStrategy_obj option" where
  "as_strategy c = (case c of StrategyCell x \<Rightarrow> Some x | _ \<Rightarrow> None)"

definition as_spec :: "cell \<Rightarrow> RollingUpgradeSpec_obj option" where
  "as_spec c = (case c of SpecCell x \<Rightarrow> Some x | _ \<Rightarrow> None)"

definition as_status :: "cell \<Rightarrow> RollingUpgradeStatus_obj option" where
  "as_status c = (case c of StatusCell x \<Rightarrow> Some x | _ \<Rightarrow> None)"

definition as_RollingUpgrade :: "cell \<Rightarrow> RollingUpgrade_obj option" where
  "as_RollingUpgrade c = (case c of RollingUpgradeCell x \<Rightarrow> Some x | _ \<Rightarrow> None)"

definition as_RollingUpgrades :: "cell \<Rightarrow> RollingUpgrade_obj list option" where
  "as_RollingUpgrades c = (case c of RollingUpgradesCell x \<Rightarrow> Some x | _ \<Rightarrow> None)"

definition as_RollingUpgradeList :: "cell \<Rightarrow> RollingUpgradeList_obj option" where
  "as_RollingUpgradeList c = (case c of RollingUpgradeListCell x \<Rightarrow> Some x | _ \<Rightarrow> None)"

lemma as_cells [simp]:
  "as_bool (BoolCell b) = Some b" "as_int (IntCell n) = Some n" "as_time (TimeCell t) = Some t"
  "as_labels (LabelsCell m) = Some m" "as_strings (StringsCell ss) = Some ss"
  "as_condition (ConditionCell co) = Some co" "as_conditions (ConditionsCell cs) = Some cs"
  "as_statistics (StatisticsCell st) = Some st" "as_statistics_refs (StatisticsRefsCell ps) = Some ps"
  "as_node_in_processing (NodeInProcessingCell np) = Some np" "as_nodes_in_processing (NodesInProcessingCell nm) = Some nm"
  "as_gate (GateCell g) = Some g" "as_gates (GatesCell gs) = Some gs" "as_step_duration (StepDurationCell sd) = Some sd"
  "as_pre_drain (PreDrainCell e) = Some e" "as_post_drain (PostDrainCell pd) = Some pd"
  "as_post_terminate (PostTerminateCell pt) = Some pt" "as_strategy (StrategyCell u) = Some u"
  "as_spec (SpecCell sp) = Some sp" "as_status (StatusCell su) = Some su"
  "as_RollingUpgrade (RollingUpgradeCell r) = Some r" "as_RollingUpgrades (RollingUpgradesCell rs) = Some rs"
  "as_RollingUpgradeList (RollingUpgradeListCell l) = Some l"
  by (simp_all add: as_bool_def as_int_def as_time_def as_labels_def as_strings_def as_condition_def as_conditions_def
      as_statistics_def as_statistics_refs_def as_node_in_processing_def as_nodes_in_processing_def as_gate_def as_gates_def
      as_step_duration_def as_pre_drain_def as_post_drain_def as_post_terminate_def as_strategy_def as_spec_def as_status_def
      as_RollingUpgrade_def as_RollingUpgrades_def as_RollingUpgradeList_def)

section \<open>The code that is called\<close>

type_synonym 'a copier = "'a \<Rightarrow> cell heap \<Rightarrow> ('a \<times> cell heap) option"

text \<open>
  \<open>lib_range\<close> is the order in which a loop visits the keys of a map; the others are \<^verbatim>\<open>Time.DeepCopyInto\<close>,
  \<^verbatim>\<open>Time.DeepCopy\<close>, \<^verbatim>\<open>ObjectMeta.DeepCopyInto\<close> and \<^verbatim>\<open>ListMeta.DeepCopyInto\<close>.
\<close>

record copy_lib =
  lib_range :: "string list \<Rightarrow> string list"
  lib_Time :: "time copier"
  lib_Time_DeepCopy :: "addr option copier"
  lib_ObjectMeta :: "ObjectMeta_obj copier"
  lib_ListMeta :: "ListMeta_obj copier"

abbreviation meta_refs :: "ObjectMeta_obj \<Rightarrow> addr option \<times> addr option" where
  "meta_refs m \<equiv> (mo_Labels m, mo_DeletionTimestamp m)"

abbreviation set_meta_refs :: "addr option \<times> addr option \<Rightarrow> ObjectMeta_obj \<Rightarrow> ObjectMeta_obj" where
  "set_meta_refs p m \<equiv> m\<lparr>mo_Labels := fst p, mo_DeletionTimestamp := snd p\<rparr>"

abbreviation view_labels :: "cell heap \<Rightarrow> addr option \<Rightarrow> (string \<rightharpoonup> string) option option" where
  "view_labels \<equiv> view_ref as_labels (view_entries view_plain)"

abbreviation reach_labels :: "cell heap \<Rightarrow> addr option \<Rightarrow> addr set" where
  "reach_labels \<equiv> reach_ref as_labels (reach_entries reach_plain)"

abbreviation view_time :: "cell heap \<Rightarrow> addr option \<Rightarrow> time option option" where
  "view_time \<equiv> view_ref as_time view_plain"

abbreviation reach_time :: "cell heap \<Rightarrow> addr option \<Rightarrow> addr set" where
  "reach_time \<equiv> reach_ref as_time reach_plain"

definition view_ObjectMeta :: "cell heap \<Rightarrow> ObjectMeta_obj \<Rightarrow> (ObjectMeta_obj \<times> (string \<rightharpoonup> string) option \<times> time option) option" where
  "view_ObjectMeta = view_struct meta_refs set_meta_refs (None, None) (view_fields view_labels view_time)"

definition reach_ObjectMeta :: "cell heap \<Rightarrow> ObjectMeta_obj \<Rightarrow> addr set" where
  "reach_ObjectMeta = reach_struct meta_refs (reach_fields reach_labels reach_time)"

definition view_ListMeta :: "cell heap \<Rightarrow> ListMeta_obj \<Rightarrow> (ListMeta_obj \<times> int option) option" where
  "view_ListMeta = view_struct lm_RemainingItemCount (\<lambda>p m. m\<lparr>lm_RemainingItemCount := p\<rparr>) None (view_ref as_int view_plain)"

definition reach_ListMeta :: "cell heap \<Rightarrow> ListMeta_obj \<Rightarrow> addr set" where
  "reach_ListMeta = reach_struct lm_RemainingItemCount (reach_ref as_int reach_plain)"

text \<open>A loop visits every key of a map, and what the API machinery copies it copies deeply.\<close>

definition lib_ok :: "copy_lib \<Rightarrow> bool" where
  "lib_ok L \<longleftrightarrow> (\<forall>ks. set (lib_range L ks) = set ks) \<and>
     deep_copier view_plain reach_plain (lib_Time L) \<and> deep_copier view_time reach_time (lib_Time_DeepCopy L) \<and>
     deep_copier view_ObjectMeta reach_ObjectMeta (lib_ObjectMeta L) \<and>
     deep_copier view_ListMeta reach_ListMeta (lib_ListMeta L)"

section \<open>Zero values\<close>

definition zero_strategy :: UpdateStrategy_obj where
  "zero_strategy = \<lparr>uo_Type = '''', uo_Mode = '''', uo_MaxUnavailable = \<lparr>ios_Type = IntType, ios_IntVal = 0, ios_StrVal = ''''\<rparr>,
     uo_DrainTimeout = None\<rparr>"

definition zero_gate :: NodeReadinessGate_obj where
  "zero_gate = \<lparr>go_MatchLabels = None\<rparr>"

definition zero_condition :: RollingUpgradeCondition where
  "zero_condition = \<lparr>cond_Type = '''', cond_Status = ''''\<rparr>"

definition zero_statistics :: RollingUpgradeStatistics where
  "zero_statistics = \<lparr>stat_StepName = '''', stat_DurationSum = 0, stat_DurationCount = 0\<rparr>"

definition zero_step_duration :: NodeStepDuration where
  "zero_step_duration = \<lparr>nsd_GroupName = '''', nsd_NodeName = '''', nsd_StepName = '''', nsd_Duration = 0\<rparr>"

definition zero_node_in_processing :: NodeInProcessing where
  "zero_node_in_processing = \<lparr>nip_NodeName = '''', nip_StepName = '''', nip_UpgradeStartTime = zero_time,
     nip_StepStartTime = zero_time, nip_StepEndTime = zero_time\<rparr>"

definition zero_pre_drain :: PreDrainSpec where
  "zero_pre_drain = \<lparr>preDrain_Script = ''''\<rparr>"

definition zero_post_drain :: PostDrainSpec where
  "zero_post_drain = \<lparr>postDrain_Script = '''', postDrain_WaitSeconds = 0, postDrain_PostWaitScript = ''''\<rparr>"

definition zero_post_terminate :: PostTerminateSpec where
  "zero_post_terminate = \<lparr>postTerminate_Script = ''''\<rparr>"

definition zero_spec :: RollingUpgradeSpec_obj where
  "zero_spec = \<lparr>po_PostDrainDelaySeconds = 0, po_NodeIntervalSeconds = 0, po_AsgName = '''', po_PreDrain = zero_pre_drain,
     po_PostDrain = zero_post_drain, po_PostTerminate = zero_post_terminate, po_Strategy = zero_strategy,
     po_IgnoreDrainFailures = None, po_ForceRefresh = False, po_ReadinessGates = None\<rparr>"

definition zero_status :: RollingUpgradeStatus_obj where
  "zero_status = \<lparr>so_CurrentStatus = '''', so_StartTime = '''', so_EndTime = '''', so_TotalProcessingTime = '''',
     so_NodesProcessed = 0, so_TotalNodes = 0, so_CompletePercentage = '''', so_Conditions = None,
     so_LastNodeTerminationTime = None, so_LastNodeDrainTime = None, so_Statistics = None, so_LastBatchNodes = None,
     so_NodeInProcessing = None\<rparr>"

definition zero_type_meta :: TypeMeta where
  "zero_type_meta = \<lparr>tm_Kind = '''', tm_APIVersion = ''''\<rparr>"

definition zero_object_meta :: ObjectMeta_obj where
  "zero_object_meta = \<lparr>mo_Name = '''', mo_Namespace = '''', mo_UID = '''', mo_ResourceVersion = '''',
     mo_CreationTimestamp = zero_time, mo_Labels = None, mo_DeletionTimestamp = None\<rparr>"

definition zero_RollingUpgrade :: RollingUpgrade_obj where
  "zero_RollingUpgrade = \<lparr>ro_TypeMeta = zero_type_meta, ro_ObjectMeta = zero_object_meta, ro_Spec = zero_spec, ro_Status = zero_status\<rparr>"

definition zero_RollingUpgradeList :: RollingUpgradeList_obj where
  "zero_RollingUpgradeList = \<lparr>lo_TypeMeta = zero_type_meta,
     lo_ListMeta = \<lparr>lm_ResourceVersion = '''', lm_Continue = '''', lm_RemainingItemCount = None\<rparr>, lo_Items = None\<rparr>"

section \<open>DeepCopyInto\<close>

text \<open>
  Each \<^verbatim>\<open>in.DeepCopyInto(out)\<close> starts with \<^verbatim>\<open>*out = *in\<close>, so that it is a function from \<^verbatim>\<open>*in\<close> to \<^verbatim>\<open>*out\<close>.
\<close>

definition NodeInProcessing_DeepCopyInto :: "copy_lib \<Rightarrow> NodeInProcessing copier" where
  "NodeInProcessing_DeepCopyInto L n h = do {
     (t1, h1) \<leftarrow> lib_Time L (nip_UpgradeStartTime n) h;
     (t2, h2) \<leftarrow> lib_Time L (nip_StepStartTime n) h1;
     (t3, h3) \<leftarrow> lib_Time L (nip_StepEndTime n) h2;
     Some (n\<lparr>nip_UpgradeStartTime := t1, nip_StepStartTime := t2, nip_StepEndTime := t3\<rparr>, h3) }"

definition NodeReadinessGate_DeepCopyInto :: "copy_lib \<Rightarrow> NodeReadinessGate_obj copier" where
  "NodeReadinessGate_DeepCopyInto L g h = do {
     (m, h1) \<leftarrow> copy_map LabelsCell as_labels (lib_range L) copy_plain (go_MatchLabels g) h;
     Some (g\<lparr>go_MatchLabels := m\<rparr>, h1) }"

definition NodeStepDuration_DeepCopyInto :: "NodeStepDuration copier" where
  "NodeStepDuration_DeepCopyInto d h = Some (d\<lparr>nsd_Duration := nsd_Duration d\<rparr>, h)"

definition PostDrainSpec_DeepCopyInto :: "PostDrainSpec copier" where
  "PostDrainSpec_DeepCopyInto s h = Some (s, h)"

definition PostTerminateSpec_DeepCopyInto :: "PostTerminateSpec copier" where
  "PostTerminateSpec_DeepCopyInto s h = Some (s, h)"

definition PreDrainSpec_DeepCopyInto :: "PreDrainSpec copier" where
  "PreDrainSpec_DeepCopyInto s h = Some (s, h)"

definition RollingUpgradeCondition_DeepCopyInto :: "RollingUpgradeCondition copier" where
  "RollingUpgradeCondition_DeepCopyInto c h = Some (c, h)"

definition RollingUpgradeStatistics_DeepCopyInto :: "RollingUpgradeStatistics copier" where
  "RollingUpgradeStatistics_DeepCopyInto s h = Some (s\<lparr>stat_DurationSum := stat_DurationSum s\<rparr>, h)"

definition UpdateStrategy_DeepCopyInto :: "UpdateStrategy_obj copier" where
  "UpdateStrategy_DeepCopyInto s h = do {
     (t, h1) \<leftarrow> copy_new IntCell as_int 0 copy_plain (uo_DrainTimeout s) h;
     Some (s\<lparr>uo_MaxUnavailable := uo_MaxUnavailable s, uo_DrainTimeout := t\<rparr>, h1) }"

definition RollingUpgradeSpec_DeepCopyInto :: "copy_lib \<Rightarrow> RollingUpgradeSpec_obj copier" where
  "RollingUpgradeSpec_DeepCopyInto L s h = do {
     (st, h1) \<leftarrow> UpdateStrategy_DeepCopyInto (po_Strategy s) h;
     (ig, h2) \<leftarrow> copy_new BoolCell as_bool False copy_plain (po_IgnoreDrainFailures s) h1;
     (gs, h3) \<leftarrow> copy_slice GatesCell as_gates zero_gate (NodeReadinessGate_DeepCopyInto L) (po_ReadinessGates s) h2;
     Some (s\<lparr>po_PreDrain := po_PreDrain s, po_PostDrain := po_PostDrain s, po_PostTerminate := po_PostTerminate s,
       po_Strategy := st, po_IgnoreDrainFailures := ig, po_ReadinessGates := gs\<rparr>, h3) }"

text \<open>An element of the statistics and an entry of the nodes in processing may be \<^verbatim>\<open>nil\<close>, and is then kept.\<close>

definition RollingUpgradeStatus_DeepCopyInto :: "copy_lib \<Rightarrow> RollingUpgradeStatus_obj copier" where
  "RollingUpgradeStatus_DeepCopyInto L s h = do {
     (cs, h1) \<leftarrow> copy_slice ConditionsCell as_conditions zero_condition copy_plain (so_Conditions s) h;
     (tt, h2) \<leftarrow> copy_set (lib_Time_DeepCopy L) (so_LastNodeTerminationTime s) h1;
     (td, h3) \<leftarrow> copy_set (lib_Time_DeepCopy L) (so_LastNodeDrainTime s) h2;
     (st, h4) \<leftarrow> copy_slice StatisticsRefsCell as_statistics_refs None
       (copy_new StatisticsCell as_statistics zero_statistics copy_plain) (so_Statistics s) h3;
     (bn, h5) \<leftarrow> copy_slice StringsCell as_strings '''' copy_plain (so_LastBatchNodes s) h4;
     (np, h6) \<leftarrow> copy_map NodesInProcessingCell as_nodes_in_processing (lib_range L)
       (copy_new NodeInProcessingCell as_node_in_processing zero_node_in_processing (NodeInProcessing_DeepCopyInto L))
       (so_NodeInProcessing s) h5;
     Some (s\<lparr>so_Conditions := cs, so_LastNodeTerminationTime := tt, so_LastNodeDrainTime := td, so_Statistics := st,
       so_LastBatchNodes := bn, so_NodeInProcessing := np\<rparr>, h6) }"

definition RollingUpgrade_DeepCopyInto :: "copy_lib \<Rightarrow> RollingUpgrade_obj copier" where
  "RollingUpgrade_DeepCopyInto L r h = do {
     (m, h1) \<leftarrow> lib_ObjectMeta L (ro_ObjectMeta r) h;
     (sp, h2) \<leftarrow> RollingUpgradeSpec_DeepCopyInto L (ro_Spec r) h1;
     (st, h3) \<leftarrow> RollingUpgradeStatus_DeepCopyInto L (ro_Status r) h2;
     Some (r\<lparr>ro_TypeMeta := ro_TypeMeta r, ro_ObjectMeta := m, ro_Spec := sp, ro_Status := st\<rparr>, h3) }"

definition RollingUpgradeList_DeepCopyInto :: "copy_lib \<Rightarrow> RollingUpgradeList_obj copier" where
  "RollingUpgradeList_DeepCopyInto L l h = do {
     (m, h1) \<leftarrow> lib_ListMeta L (lo_ListMeta l) h;
     (rs, h2) \<leftarrow> copy_slice RollingUpgradesCell as_RollingUpgrades zero_RollingUpgrade (RollingUpgrade_DeepCopyInto L) (lo_Items l) h1;
     Some (l\<lparr>lo_TypeMeta := lo_TypeMeta l, lo_ListMeta := m, lo_Items := rs\<rparr>, h2) }"

section \<open>DeepCopy\<close>

text \<open>Each \<^verbatim>\<open>in.DeepCopy()\<close> returns \<^verbatim>\<open>nil\<close> for \<^verbatim>\<open>nil\<close>, and else a new object that \<^verbatim>\<open>*in\<close> was copied into.\<close>

definition NodeInProcessing_DeepCopy :: "copy_lib \<Rightarrow> addr option copier" where
  "NodeInProcessing_DeepCopy L =
     copy_new NodeInProcessingCell as_node_in_processing zero_node_in_processing (NodeInProcessing_DeepCopyInto L)"

definition NodeReadinessGate_DeepCopy :: "copy_lib \<Rightarrow> addr option copier" where
  "NodeReadinessGate_DeepCopy L = copy_new GateCell as_gate zero_gate (NodeReadinessGate_DeepCopyInto L)"

definition NodeStepDuration_DeepCopy :: "addr option copier" where
  "NodeStepDuration_DeepCopy = copy_new StepDurationCell as_step_duration zero_step_duration NodeStepDuration_DeepCopyInto"

definition PostDrainSpec_DeepCopy :: "addr option copier" where
  "PostDrainSpec_DeepCopy = copy_new PostDrainCell as_post_drain zero_post_drain PostDrainSpec_DeepCopyInto"

definition PostTerminateSpec_DeepCopy :: "addr option copier" where
  "PostTerminateSpec_DeepCopy = copy_new PostTerminateCell as_post_terminate zero_post_terminate PostTerminateSpec_DeepCopyInto"

definition PreDrainSpec_DeepCopy :: "addr option copier" where
  "PreDrainSpec_DeepCopy = copy_new PreDrainCell as_pre_drain zero_pre_drain PreDrainSpec_DeepCopyInto"

definition RollingUpgrade_DeepCopy :: "copy_lib \<Rightarrow> addr option copier" where
  "RollingUpgrade_DeepCopy L = copy_new RollingUpgradeCell as_RollingUpgrade zero_RollingUpgrade (RollingUpgrade_DeepCopyInto L)"

definition RollingUpgradeCondition_DeepCopy :: "addr option copier" where
  "RollingUpgradeCondition_DeepCopy = copy_new ConditionCell as_condition zero_condition RollingUpgradeCondition_DeepCopyInto"

definition RollingUpgradeList_DeepCopy :: "copy_lib \<Rightarrow> addr option copier" where
  "RollingUpgradeList_DeepCopy L =
     copy_new RollingUpgradeListCell as_RollingUpgradeList zero_RollingUpgradeList (RollingUpgradeList_DeepCopyInto L)"

definition RollingUpgradeSpec_DeepCopy :: "copy_lib \<Rightarrow> addr option copier" where
  "RollingUpgradeSpec_DeepCopy L = copy_new SpecCell as_spec zero_spec (RollingUpgradeSpec_DeepCopyInto L)"

definition RollingUpgradeStatistics_DeepCopy :: "addr option copier" where
  "RollingUpgradeStatistics_DeepCopy = copy_new StatisticsCell as_statistics zero_statistics RollingUpgradeStatistics_DeepCopyInto"

definition RollingUpgradeStatus_DeepCopy :: "copy_lib \<Rightarrow> addr option copier" where
  "RollingUpgradeStatus_DeepCopy L = copy_new StatusCell as_status zero_status (RollingUpgradeStatus_DeepCopyInto L)"

definition UpdateStrategy_DeepCopy :: "addr option copier" where
  "UpdateStrategy_DeepCopy = copy_new StrategyCell as_strategy zero_strategy UpdateStrategy_DeepCopyInto"

text \<open>A \<^verbatim>\<open>runtime.Object\<close> that is not \<^verbatim>\<open>nil\<close> is a pointer to one of the two kinds of object.\<close>

datatype Object = RollingUpgradeObject addr | RollingUpgradeListObject addr

definition RollingUpgrade_DeepCopyObject :: "copy_lib \<Rightarrow> addr option \<Rightarrow> cell heap \<Rightarrow> (Object option \<times> cell heap) option" where
  "RollingUpgrade_DeepCopyObject L p h = do {
     (c, h1) \<leftarrow> RollingUpgrade_DeepCopy L p h;
     Some (case c of Some q \<Rightarrow> Some (RollingUpgradeObject q) | None \<Rightarrow> None, h1) }"

definition RollingUpgradeList_DeepCopyObject :: "copy_lib \<Rightarrow> addr option \<Rightarrow> cell heap \<Rightarrow> (Object option \<times> cell heap) option" where
  "RollingUpgradeList_DeepCopyObject L p h = do {
     (c, h1) \<leftarrow> RollingUpgradeList_DeepCopy L p h;
     Some (case c of Some q \<Rightarrow> Some (RollingUpgradeListObject q) | None \<Rightarrow> None, h1) }"

section \<open>The content of an object\<close>

text \<open>The fields with references of each struct, in the order in which they are copied.\<close>

abbreviation nip_times :: "NodeInProcessing \<Rightarrow> time \<times> time \<times> time" where
  "nip_times n \<equiv> (nip_UpgradeStartTime n, nip_StepStartTime n, nip_StepEndTime n)"

abbreviation set_nip_times :: "time \<times> time \<times> time \<Rightarrow> NodeInProcessing \<Rightarrow> NodeInProcessing" where
  "set_nip_times t n \<equiv> n\<lparr>nip_UpgradeStartTime := fst t, nip_StepStartTime := fst (snd t), nip_StepEndTime := snd (snd t)\<rparr>"

abbreviation spec_refs :: "RollingUpgradeSpec_obj \<Rightarrow> UpdateStrategy_obj \<times> addr option \<times> slice" where
  "spec_refs s \<equiv> (po_Strategy s, po_IgnoreDrainFailures s, po_ReadinessGates s)"

abbreviation set_spec_refs :: "UpdateStrategy_obj \<times> addr option \<times> slice \<Rightarrow> RollingUpgradeSpec_obj \<Rightarrow> RollingUpgradeSpec_obj" where
  "set_spec_refs t s \<equiv> s\<lparr>po_Strategy := fst t, po_IgnoreDrainFailures := fst (snd t), po_ReadinessGates := snd (snd t)\<rparr>"

type_synonym status_fields = "slice \<times> addr option \<times> addr option \<times> slice \<times> slice \<times> addr option"

abbreviation status_refs :: "RollingUpgradeStatus_obj \<Rightarrow> status_fields" where
  "status_refs s \<equiv> (so_Conditions s, so_LastNodeTerminationTime s, so_LastNodeDrainTime s, so_Statistics s,
     so_LastBatchNodes s, so_NodeInProcessing s)"

abbreviation set_status_refs :: "status_fields \<Rightarrow> RollingUpgradeStatus_obj \<Rightarrow> RollingUpgradeStatus_obj" where
  "set_status_refs t s \<equiv> s\<lparr>so_Conditions := fst t, so_LastNodeTerminationTime := fst (snd t),
     so_LastNodeDrainTime := fst (snd (snd t)), so_Statistics := fst (snd (snd (snd t))),
     so_LastBatchNodes := fst (snd (snd (snd (snd t)))), so_NodeInProcessing := snd (snd (snd (snd (snd t))))\<rparr>"

type_synonym ru_fields = "ObjectMeta_obj \<times> RollingUpgradeSpec_obj \<times> RollingUpgradeStatus_obj"

abbreviation ru_refs :: "RollingUpgrade_obj \<Rightarrow> ru_fields" where
  "ru_refs r \<equiv> (ro_ObjectMeta r, ro_Spec r, ro_Status r)"

abbreviation set_ru_refs :: "ru_fields \<Rightarrow> RollingUpgrade_obj \<Rightarrow> RollingUpgrade_obj" where
  "set_ru_refs t r \<equiv> r\<lparr>ro_ObjectMeta := fst t, ro_Spec := fst (snd t), ro_Status := snd (snd t)\<rparr>"

abbreviation list_refs :: "RollingUpgradeList_obj \<Rightarrow> ListMeta_obj \<times> slice" where
  "list_refs l \<equiv> (lo_ListMeta l, lo_Items l)"

abbreviation set_list_refs :: "ListMeta_obj \<times> slice \<Rightarrow> RollingUpgradeList_obj \<Rightarrow> RollingUpgradeList_obj" where
  "set_list_refs t l \<equiv> l\<lparr>lo_ListMeta := fst t, lo_Items := snd t\<rparr>"

type_synonym nip_view = "NodeInProcessing \<times> time \<times> time \<times> time"
type_synonym gate_view = "NodeReadinessGate_obj \<times> (string \<rightharpoonup> string) option"
type_synonym strategy_view = "UpdateStrategy_obj \<times> int option"
type_synonym spec_view = "RollingUpgradeSpec_obj \<times> strategy_view \<times> bool option \<times> gate_view list option"
type_synonym status_view = "RollingUpgradeStatus_obj \<times> RollingUpgradeCondition list option \<times> time option \<times> time option \<times>
  RollingUpgradeStatistics option list option \<times> string list option \<times> (string \<rightharpoonup> nip_view option) option"
type_synonym ru_view = "RollingUpgrade_obj \<times> (ObjectMeta_obj \<times> (string \<rightharpoonup> string) option \<times> time option) \<times> spec_view \<times> status_view"
type_synonym list_view = "RollingUpgradeList_obj \<times> (ListMeta_obj \<times> int option) \<times> ru_view list option"

definition view_NodeInProcessing :: "cell heap \<Rightarrow> NodeInProcessing \<Rightarrow> nip_view option" where
  "view_NodeInProcessing = view_struct nip_times set_nip_times (0, 0, 0) (view_fields view_plain (view_fields view_plain view_plain))"

definition reach_NodeInProcessing :: "cell heap \<Rightarrow> NodeInProcessing \<Rightarrow> addr set" where
  "reach_NodeInProcessing = reach_struct nip_times (reach_fields reach_plain (reach_fields reach_plain reach_plain))"

definition view_gate :: "cell heap \<Rightarrow> NodeReadinessGate_obj \<Rightarrow> gate_view option" where
  "view_gate = view_struct go_MatchLabels (\<lambda>m g. g\<lparr>go_MatchLabels := m\<rparr>) None view_labels"

definition reach_gate :: "cell heap \<Rightarrow> NodeReadinessGate_obj \<Rightarrow> addr set" where
  "reach_gate = reach_struct go_MatchLabels reach_labels"

definition view_strategy :: "cell heap \<Rightarrow> UpdateStrategy_obj \<Rightarrow> strategy_view option" where
  "view_strategy = view_struct uo_DrainTimeout (\<lambda>p s. s\<lparr>uo_DrainTimeout := p\<rparr>) None (view_ref as_int view_plain)"

definition reach_strategy :: "cell heap \<Rightarrow> UpdateStrategy_obj \<Rightarrow> addr set" where
  "reach_strategy = reach_struct uo_DrainTimeout (reach_ref as_int reach_plain)"

definition view_spec :: "cell heap \<Rightarrow> RollingUpgradeSpec_obj \<Rightarrow> spec_view option" where
  "view_spec = view_struct spec_refs set_spec_refs (zero_strategy, None, None)
     (view_fields view_strategy (view_fields (view_ref as_bool view_plain) (view_slice as_gates view_gate)))"

definition reach_spec :: "cell heap \<Rightarrow> RollingUpgradeSpec_obj \<Rightarrow> addr set" where
  "reach_spec = reach_struct spec_refs
     (reach_fields reach_strategy (reach_fields (reach_ref as_bool reach_plain) (reach_slice as_gates reach_gate)))"

definition view_status :: "cell heap \<Rightarrow> RollingUpgradeStatus_obj \<Rightarrow> status_view option" where
  "view_status = view_struct status_refs set_status_refs (None, None, None, None, None, None)
     (view_fields (view_slice as_conditions view_plain) (view_fields view_time (view_fields view_time
     (view_fields (view_slice as_statistics_refs (view_ref as_statistics view_plain)) (view_fields (view_slice as_strings view_plain)
     (view_ref as_nodes_in_processing (view_entries (view_ref as_node_in_processing view_NodeInProcessing))))))))"

definition reach_status :: "cell heap \<Rightarrow> RollingUpgradeStatus_obj \<Rightarrow> addr set" where
  "reach_status = reach_struct status_refs
     (reach_fields (reach_slice as_conditions reach_plain) (reach_fields reach_time (reach_fields reach_time
     (reach_fields (reach_slice as_statistics_refs (reach_ref as_statistics reach_plain)) (reach_fields (reach_slice as_strings reach_plain)
     (reach_ref as_nodes_in_processing (reach_entries (reach_ref as_node_in_processing reach_NodeInProcessing))))))))"

definition view_RollingUpgrade :: "cell heap \<Rightarrow> RollingUpgrade_obj \<Rightarrow> ru_view option" where
  "view_RollingUpgrade = view_struct ru_refs set_ru_refs (zero_object_meta, zero_spec, zero_status)
     (view_fields view_ObjectMeta (view_fields view_spec view_status))"

definition reach_RollingUpgrade :: "cell heap \<Rightarrow> RollingUpgrade_obj \<Rightarrow> addr set" where
  "reach_RollingUpgrade = reach_struct ru_refs (reach_fields reach_ObjectMeta (reach_fields reach_spec reach_status))"

definition view_RollingUpgradeList :: "cell heap \<Rightarrow> RollingUpgradeList_obj \<Rightarrow> list_view option" where
  "view_RollingUpgradeList = view_struct list_refs set_list_refs (lo_ListMeta zero_RollingUpgradeList, None)
     (view_fields view_ListMeta (view_slice as_RollingUpgrades view_RollingUpgrade))"

definition reach_RollingUpgradeList :: "cell heap \<Rightarrow> RollingUpgradeList_obj \<Rightarrow> addr set" where
  "reach_RollingUpgradeList = reach_struct list_refs (reach_fields reach_ListMeta (reach_slice as_RollingUpgrades reach_RollingUpgrade))"

section \<open>Every copy is deep\<close>

lemma plain_structs:
  "NodeStepDuration_DeepCopyInto = copy_plain" "PostDrainSpec_DeepCopyInto = copy_plain" "PostTerminateSpec_DeepCopyInto = copy_plain"
  "PreDrainSpec_DeepCopyInto = copy_plain" "RollingUpgradeCondition_DeepCopyInto = copy_plain"
  "RollingUpgradeStatistics_DeepCopyInto = copy_plain"
  by (simp_all add: fun_eq_iff copy_plain_def NodeStepDuration_DeepCopyInto_def PostDrainSpec_DeepCopyInto_def
      PostTerminateSpec_DeepCopyInto_def PreDrainSpec_DeepCopyInto_def RollingUpgradeCondition_DeepCopyInto_def
      RollingUpgradeStatistics_DeepCopyInto_def)

lemma structs_by_fields:
  "NodeInProcessing_DeepCopyInto L = copy_struct nip_times set_nip_times (copy_fields (lib_Time L) (copy_fields (lib_Time L) (lib_Time L)))"
  "NodeReadinessGate_DeepCopyInto L = copy_struct go_MatchLabels (\<lambda>m g. g\<lparr>go_MatchLabels := m\<rparr>)
     (copy_map LabelsCell as_labels (lib_range L) copy_plain)"
  "UpdateStrategy_DeepCopyInto = copy_struct uo_DrainTimeout (\<lambda>p s. s\<lparr>uo_DrainTimeout := p\<rparr>) (copy_new IntCell as_int 0 copy_plain)"
  "RollingUpgradeSpec_DeepCopyInto L = copy_struct spec_refs set_spec_refs
     (copy_fields UpdateStrategy_DeepCopyInto (copy_fields (copy_new BoolCell as_bool False copy_plain)
       (copy_slice GatesCell as_gates zero_gate (NodeReadinessGate_DeepCopyInto L))))"
  "RollingUpgradeStatus_DeepCopyInto L = copy_struct status_refs set_status_refs
     (copy_fields (copy_slice ConditionsCell as_conditions zero_condition copy_plain)
     (copy_fields (copy_set (lib_Time_DeepCopy L)) (copy_fields (copy_set (lib_Time_DeepCopy L))
     (copy_fields (copy_slice StatisticsRefsCell as_statistics_refs None (copy_new StatisticsCell as_statistics zero_statistics copy_plain))
     (copy_fields (copy_slice StringsCell as_strings '''' copy_plain)
     (copy_map NodesInProcessingCell as_nodes_in_processing (lib_range L)
       (copy_new NodeInProcessingCell as_node_in_processing zero_node_in_processing (NodeInProcessing_DeepCopyInto L))))))))"
  "RollingUpgrade_DeepCopyInto L = copy_struct ru_refs set_ru_refs
     (copy_fields (lib_ObjectMeta L) (copy_fields (RollingUpgradeSpec_DeepCopyInto L) (RollingUpgradeStatus_DeepCopyInto L)))"
  "RollingUpgradeList_DeepCopyInto L = copy_struct list_refs set_list_refs (copy_fields (lib_ListMeta L)
     (copy_slice RollingUpgradesCell as_RollingUpgrades zero_RollingUpgrade (RollingUpgrade_DeepCopyInto L)))"
  by (simp_all add: fun_eq_iff copy_struct_def copy_fields_def case_prod_beta' NodeInProcessing_DeepCopyInto_def
      NodeReadinessGate_DeepCopyInto_def UpdateStrategy_DeepCopyInto_def RollingUpgradeSpec_DeepCopyInto_def
      RollingUpgradeStatus_DeepCopyInto_def RollingUpgrade_DeepCopyInto_def RollingUpgradeList_DeepCopyInto_def)

lemma lib_okD:
  assumes "lib_ok L"
  shows "set (lib_range L ks) = set ks" "deep_copier view_plain reach_plain (lib_Time L)"
    "deep_copier view_time reach_time (lib_Time_DeepCopy L)" "deep_copier view_ObjectMeta reach_ObjectMeta (lib_ObjectMeta L)"
    "deep_copier view_ListMeta reach_ListMeta (lib_ListMeta L)"
  using assms by (auto simp: lib_ok_def)

lemmas copiers = plain_copier fields_copier new_copier set_copier slice_copier map_copier lib_okD

lemma UpdateStrategy_copier: "deep_copier view_strategy reach_strategy UpdateStrategy_DeepCopyInto"
  unfolding view_strategy_def reach_strategy_def structs_by_fields(3) by (intro struct_copier copiers) simp_all

lemma NodeInProcessing_copier:
  "lib_ok L \<Longrightarrow> deep_copier view_NodeInProcessing reach_NodeInProcessing (NodeInProcessing_DeepCopyInto L)"
  unfolding view_NodeInProcessing_def reach_NodeInProcessing_def structs_by_fields(1) by (intro struct_copier copiers) simp_all

lemma NodeReadinessGate_copier: "lib_ok L \<Longrightarrow> deep_copier view_gate reach_gate (NodeReadinessGate_DeepCopyInto L)"
  unfolding view_gate_def reach_gate_def structs_by_fields(2) by (intro struct_copier copiers) simp_all

lemma RollingUpgradeSpec_copier: "lib_ok L \<Longrightarrow> deep_copier view_spec reach_spec (RollingUpgradeSpec_DeepCopyInto L)"
  unfolding view_spec_def reach_spec_def structs_by_fields(4)
  by (intro struct_copier copiers UpdateStrategy_copier NodeReadinessGate_copier) simp_all

lemma RollingUpgradeStatus_copier: "lib_ok L \<Longrightarrow> deep_copier view_status reach_status (RollingUpgradeStatus_DeepCopyInto L)"
  unfolding view_status_def reach_status_def structs_by_fields(5)
  by (intro struct_copier copiers NodeInProcessing_copier) simp_all

lemma RollingUpgrade_copier: "lib_ok L \<Longrightarrow> deep_copier view_RollingUpgrade reach_RollingUpgrade (RollingUpgrade_DeepCopyInto L)"
  unfolding view_RollingUpgrade_def reach_RollingUpgrade_def structs_by_fields(6)
  by (intro struct_copier copiers RollingUpgradeSpec_copier RollingUpgradeStatus_copier) simp_all

lemma RollingUpgradeList_copier:
  "lib_ok L \<Longrightarrow> deep_copier view_RollingUpgradeList reach_RollingUpgradeList (RollingUpgradeList_DeepCopyInto L)"
  unfolding view_RollingUpgradeList_def reach_RollingUpgradeList_def structs_by_fields(7)
  by (intro struct_copier copiers RollingUpgrade_copier) simp_all

interpretation strategy: deep_copier view_strategy reach_strategy UpdateStrategy_DeepCopyInto
  by (rule UpdateStrategy_copier)

interpretation strategy_ref: deep_copier "view_ref as_strategy view_strategy" "reach_ref as_strategy reach_strategy" UpdateStrategy_DeepCopy
  unfolding UpdateStrategy_DeepCopy_def by (intro new_copier UpdateStrategy_copier) simp

text \<open>The pointers that \<^verbatim>\<open>DeepCopy\<close> takes and returns.\<close>

abbreviation view_resource :: "cell heap \<Rightarrow> addr option \<Rightarrow> ru_view option option" where
  "view_resource \<equiv> view_ref as_RollingUpgrade view_RollingUpgrade"

abbreviation reach_resource :: "cell heap \<Rightarrow> addr option \<Rightarrow> addr set" where
  "reach_resource \<equiv> reach_ref as_RollingUpgrade reach_RollingUpgrade"

abbreviation view_resources :: "cell heap \<Rightarrow> addr option \<Rightarrow> list_view option option" where
  "view_resources \<equiv> view_ref as_RollingUpgradeList view_RollingUpgradeList"

abbreviation reach_resources :: "cell heap \<Rightarrow> addr option \<Rightarrow> addr set" where
  "reach_resources \<equiv> reach_ref as_RollingUpgradeList reach_RollingUpgradeList"

lemma DeepCopy_copiers:
  assumes "lib_ok L"
  shows "deep_copier view_resource reach_resource (RollingUpgrade_DeepCopy L)"
    "deep_copier view_resources reach_resources (RollingUpgradeList_DeepCopy L)"
    "deep_copier (view_ref as_spec view_spec) (reach_ref as_spec reach_spec) (RollingUpgradeSpec_DeepCopy L)"
    "deep_copier (view_ref as_status view_status) (reach_ref as_status reach_status) (RollingUpgradeStatus_DeepCopy L)"
    "deep_copier (view_ref as_gate view_gate) (reach_ref as_gate reach_gate) (NodeReadinessGate_DeepCopy L)"
    "deep_copier (view_ref as_node_in_processing view_NodeInProcessing) (reach_ref as_node_in_processing reach_NodeInProcessing)
       (NodeInProcessing_DeepCopy L)"
  unfolding RollingUpgrade_DeepCopy_def RollingUpgradeList_DeepCopy_def RollingUpgradeSpec_DeepCopy_def RollingUpgradeStatus_DeepCopy_def
    NodeReadinessGate_DeepCopy_def NodeInProcessing_DeepCopy_def
  by (intro new_copier RollingUpgrade_copier RollingUpgradeList_copier RollingUpgradeSpec_copier RollingUpgradeStatus_copier
      NodeReadinessGate_copier NodeInProcessing_copier assms; simp)+

lemma DeepCopy_plain_copiers:
  "deep_copier (view_ref as_step_duration view_plain) (reach_ref as_step_duration reach_plain) NodeStepDuration_DeepCopy"
  "deep_copier (view_ref as_post_drain view_plain) (reach_ref as_post_drain reach_plain) PostDrainSpec_DeepCopy"
  "deep_copier (view_ref as_post_terminate view_plain) (reach_ref as_post_terminate reach_plain) PostTerminateSpec_DeepCopy"
  "deep_copier (view_ref as_pre_drain view_plain) (reach_ref as_pre_drain reach_plain) PreDrainSpec_DeepCopy"
  "deep_copier (view_ref as_condition view_plain) (reach_ref as_condition reach_plain) RollingUpgradeCondition_DeepCopy"
  "deep_copier (view_ref as_statistics view_plain) (reach_ref as_statistics reach_plain) RollingUpgradeStatistics_DeepCopy"
  unfolding NodeStepDuration_DeepCopy_def PostDrainSpec_DeepCopy_def PostTerminateSpec_DeepCopy_def PreDrainSpec_DeepCopy_def
    RollingUpgradeCondition_DeepCopy_def RollingUpgradeStatistics_DeepCopy_def plain_structs
  by (intro new_copier plain_copier; simp)+

section \<open>Properties\<close>

text \<open>C14: a copy of a resource, or of a list of resources, has the content of the original and is independent of
  it: whatever is later written to the objects of one, also through the pointers, slices and maps in
  it, leaves the content of the other as it is. Copying always comes to an end and changes no object that
  there was. The copy of nothing is nothing.\<close>

theorem DeepCopyObject_independent:
  assumes "lib_ok L" and "heap_ok h"
  shows "(\<forall>p v. view_resource h (Some p) = Some v \<longrightarrow>
      (\<exists>q h'. RollingUpgrade_DeepCopyObject L (Some p) h = Some (Some (RollingUpgradeObject q), h') \<and> heap_ok h' \<and> grows h h' \<and>
         unshared view_resource reach_resource v h' (Some p) (Some q))) \<and>
    (\<forall>p v. view_resources h (Some p) = Some v \<longrightarrow>
      (\<exists>q h'. RollingUpgradeList_DeepCopyObject L (Some p) h = Some (Some (RollingUpgradeListObject q), h') \<and> heap_ok h' \<and> grows h h' \<and>
         unshared view_resources reach_resources v h' (Some p) (Some q))) \<and>
    RollingUpgrade_DeepCopyObject L None h = Some (None, h) \<and> RollingUpgradeList_DeepCopyObject L None h = Some (None, h)"
proof -
  have ref: "\<exists>b. y = Some b" if "unshared (view_ref sel vf) rf v h' (Some p) y" for sel vf rf v h' p y
    using that by (cases y) (auto simp: unshared_def view_ref_Some)
  have "\<exists>q h'. RollingUpgrade_DeepCopyObject L (Some p) h = Some (Some (RollingUpgradeObject q), h') \<and> heap_ok h' \<and> grows h h' \<and>
      unshared view_resource reach_resource v h' (Some p) (Some q)" if v: "view_resource h (Some p) = Some v" for p v
    using deep_copier.copy_independent [OF DeepCopy_copiers(1) [OF assms(1)] assms(2) v] ref
    by (fastforce simp: RollingUpgrade_DeepCopyObject_def)
  moreover have "\<exists>q h'. RollingUpgradeList_DeepCopyObject L (Some p) h = Some (Some (RollingUpgradeListObject q), h') \<and> heap_ok h' \<and>
      grows h h' \<and> unshared view_resources reach_resources v h' (Some p) (Some q)" if v: "view_resources h (Some p) = Some v" for p v
    using deep_copier.copy_independent [OF DeepCopy_copiers(2) [OF assms(1)] assms(2) v] ref
    by (fastforce simp: RollingUpgradeList_DeepCopyObject_def)
  ultimately show ?thesis
    by (simp add: RollingUpgrade_DeepCopyObject_def RollingUpgrade_DeepCopy_def RollingUpgradeList_DeepCopyObject_def
        RollingUpgradeList_DeepCopy_def copy_new_def)
qed

text \<open>The API machinery as it is documented, and a resource with references of every kind.\<close>

definition sample_lib :: copy_lib where
  "sample_lib = \<lparr>lib_range = rev, lib_Time = copy_plain, lib_Time_DeepCopy = copy_new TimeCell as_time zero_time copy_plain,
     lib_ObjectMeta = copy_struct meta_refs set_meta_refs
       (copy_fields (copy_map LabelsCell as_labels rev copy_plain) (copy_new TimeCell as_time zero_time copy_plain)),
     lib_ListMeta = copy_struct lm_RemainingItemCount (\<lambda>p m. m\<lparr>lm_RemainingItemCount := p\<rparr>) (copy_new IntCell as_int 0 copy_plain)\<rparr>"

lemma sample_lib_ok: "lib_ok sample_lib"
proof -
  have "deep_copier view_time reach_time (lib_Time_DeepCopy sample_lib)"
    unfolding sample_lib_def by (simp, intro copiers) simp
  moreover have "deep_copier view_ObjectMeta reach_ObjectMeta (lib_ObjectMeta sample_lib)"
    unfolding sample_lib_def view_ObjectMeta_def reach_ObjectMeta_def by (simp, intro struct_copier copiers) simp_all
  moreover have "deep_copier view_ListMeta reach_ListMeta (lib_ListMeta sample_lib)"
    unfolding sample_lib_def view_ListMeta_def reach_ListMeta_def by (simp, intro struct_copier copiers) simp_all
  ultimately show ?thesis using plain_copier by (simp add: lib_ok_def sample_lib_def)
qed

definition sample_object :: RollingUpgrade_obj where
  "sample_object = zero_RollingUpgrade
     \<lparr>ro_ObjectMeta := zero_object_meta\<lparr>mo_Name := ''ru'', mo_Labels := Some 1\<rparr>,
      ro_Spec := zero_spec\<lparr>po_Strategy := zero_strategy\<lparr>uo_DrainTimeout := Some 0\<rparr>, po_ReadinessGates := Some (2, 0, 1)\<rparr>,
      ro_Status := zero_status\<lparr>so_Statistics := Some (3, 0, 2), so_LastNodeDrainTime := Some 5, so_NodeInProcessing := Some 6\<rparr>\<rparr>"

definition sample_heap :: "cell heap" where
  "sample_heap = \<lparr>cells = [0 \<mapsto> IntCell 0, 1 \<mapsto> LabelsCell [(''k'', ''v'')], 2 \<mapsto> GatesCell [\<lparr>go_MatchLabels = Some 1\<rparr>],
     3 \<mapsto> StatisticsRefsCell [None, Some 4], 4 \<mapsto> StatisticsCell zero_statistics, 5 \<mapsto> TimeCell 7,
     6 \<mapsto> NodesInProcessingCell [(''n1'', Some 7), (''n2'', None)], 7 \<mapsto> NodeInProcessingCell zero_node_in_processing,
     8 \<mapsto> RollingUpgradeCell sample_object], next_addr = 9\<rparr>"

lemma sample_heap_ok: "heap_ok sample_heap"
  by (auto simp: heap_ok_def sample_heap_def split: if_splits)

lemma sample_content: "\<exists>v. view_resource sample_heap (Some 8) = Some (Some v) \<and> snd (fst (snd (fst (snd (snd v))))) = Some 0"
  by (simp add: view_ref_def sample_heap_def sample_object_def view_RollingUpgrade_def view_struct_def view_fields_def
      view_ObjectMeta_def view_spec_def view_strategy_def view_gate_def view_status_def view_slice_def sel_part_def view_elems_def
      view_entries_def view_NodeInProcessing_def zero_RollingUpgrade_def zero_object_meta_def zero_spec_def zero_strategy_def
      zero_status_def)

text \<open>The drain timeout of the copy is changed as \<^verbatim>\<open>Validate\<close> changes it, through the pointer; the original keeps its own.\<close>

theorem DeepCopyObject_independent_witness:
  "\<exists>q h' v. RollingUpgrade_DeepCopyObject sample_lib (Some 8) sample_heap = Some (Some (RollingUpgradeObject q), h') \<and>
     snd (fst (snd (fst (snd (snd v))))) = Some 0 \<and> view_resource h' (Some q) = Some (Some v) \<and>
     (\<forall>a \<in> reach_resource h' (Some q). view_resource (put a (IntCell (- 1)) h') (Some 8) = Some (Some v))"
proof -
  obtain v where v: "view_resource sample_heap (Some 8) = Some (Some v)" "snd (fst (snd (fst (snd (snd v))))) = Some 0"
    using sample_content by blast
  from conjunct1 [OF DeepCopyObject_independent [OF sample_lib_ok sample_heap_ok]] v(1)
  obtain q h' where q: "RollingUpgrade_DeepCopyObject sample_lib (Some 8) sample_heap = Some (Some (RollingUpgradeObject q), h')"
    "unshared view_resource reach_resource (Some v) h' (Some 8) (Some q)" by blast
  have "same_on (- reach_resource h' (Some q)) h' (put a c h')" if "a \<in> reach_resource h' (Some q)" for a c
    using that by (auto simp: same_on_def)
  then show ?thesis using q v(2) unfolding unshared_def by blast
qed

end
