(* ===== verification/Spec2Isabelle.thy ===== *)
theory Spec2Isabelle
  imports Manager_Startup Concurrent_Reconciles Event_Writer Upgrade_Completion Deep_Copy
begin

text \<open>
  A verification development of keiko's upgrade-manager, a Kubernetes controller that replaces the
  instances of AWS auto scaling groups one batch at a time when their launch configuration changes.

  \<^bold>\<open>The program.\<close> A \<^verbatim>\<open>RollingUpgrade\<close> resource names a scaling group. The controller
  (\<^verbatim>\<open>controllers/rollingupgrade_controller.go\<close>) reconciles it every 30 seconds: it validates the resource,
  admits it if no other upgrade of the same group is admitted and the limit of parallel upgrades is
  not reached, and runs one pass of \<^verbatim>\<open>RotateNodes\<close> (\<^verbatim>\<open>controllers/upgrade.go\<close>). A pass discovers launch
  templates, groups and tagged instances, ends the upgrade if no instance drifts from its launch
  configuration or template, and otherwise selects a batch of targets and replaces it: in eager mode the
  targets are first set to stand-by and the replacements awaited; then a goroutine per target runs the
  pre-drain script, cordons and drains the node and runs the post-drain scripts, while the pass waits on
  a wait group, a channel of errors and a timeout; when all goroutines are done the instances are
  terminated. The goroutines, the wait group and the channel outlive a pass that times out.

  \<^bold>\<open>The theories\<close>, each with the definitions of a part of the code, in the order the code calls them:
  \<^item> \<open>Prelude\<close>, \<open>Go_Strings\<close>, \<open>Go_Numbers\<close>, \<open>Go_Sync\<close>: lists, options and association lists; Go's
    strings (\<open>EqualFold\<close>, \<open>Split\<close>, \<open>Trim\<close>, \<open>Atoi\<close>, \<open>Itoa\<close>), 64-bit integers with wrap-around, times, durations and
    floats, and \<^verbatim>\<open>sync.Map\<close>. The locales \<open>key_equivalence\<close>, \<open>first_match\<close> (look-up by a case-insensitive name),
    \<open>sync_map\<close> and \<open>invariant_system\<close> state the contracts that the components use; each is interpreted on
    the definitions of the components.
  \<^item> \<open>Common_Utils\<close> (\<^verbatim>\<open>controllers/common/utils.go\<close>), \<open>Api_Types\<close> (\<^verbatim>\<open>api/v1alpha1/rollingupgrade_types.go\<close>: the
    resource with all its accessors, and \<open>Validate\<close>).
  \<^item> \<open>World\<close>: everything outside the sources. AWS, the Kubernetes API, the drain library, the shell, the
    clock and the order of Go's map iteration are functions of the record \<open>env\<close>; every call is appended
    with its outcome to the history \<open>hist\<close>, so that orderings are statements about \<open>hist\<close>.
  \<^item> \<open>Metric_Registry\<close> (\<^verbatim>\<open>controllers/common/metrics.go\<close>), \<open>Aws_Provider\<close> (\<^verbatim>\<open>controllers/providers/aws\<close>),
    \<open>Kube_Provider\<close> (\<^verbatim>\<open>controllers/providers/kubernetes\<close>), \<open>Script_Runner\<close> (\<^verbatim>\<open>controllers/script_runner.go\<close>),
    \<open>Step_Metrics\<close> (\<^verbatim>\<open>controllers/metrics.go\<close>).
  \<^item> \<open>Upgrade_Context\<close> (\<^verbatim>\<open>controllers/cloud.go\<close> and the context of \<^verbatim>\<open>upgrade.go\<close>), \<open>Drift\<close>, \<open>Target_Selection\<close>,
    \<open>Capacity\<close>, \<open>Early_Cordon\<close>, \<open>Drain_Pool\<close>, \<open>Batch_Rotation\<close>, \<open>Node_Rotation\<close>: the functions of
    \<^verbatim>\<open>controllers/upgrade.go\<close>; \<open>Rotation_Progress\<close>: that a pass gets on.
  \<^item> \<open>Reconciler\<close>, \<open>Admission\<close>, \<open>Upgrade_Controller\<close>: \<^verbatim>\<open>controllers/rollingupgrade_controller.go\<close>;
    \<open>Upgrade_Completion\<close>: that reconciles get an upgrade done; \<open>Concurrent_Reconciles\<close>: \<open>Reconcile\<close> as the program
    of concurrent workers; \<open>Admission_Spec\<close>, \<open>Concurrent_Admission\<close>: the abstract admission, one request
    and one admission per step, and that the workers refine it.
  \<^item> \<open>Logging\<close>: \<^verbatim>\<open>controllers/common/log\<close>, with logrus as a parameter; \<open>Manager_Startup\<close>: \<^verbatim>\<open>main.go\<close> with its flags
    and options.
  \<^item> \<open>Go_Json\<close>, \<open>Event_Writer\<close>: Go's JSON of a map of strings, and \<^verbatim>\<open>controllers/providers/kubernetes/events.go\<close>.
  \<^item> \<open>Go_Heap\<close>, \<open>Deep_Copy\<close>: a heap of Go objects, with the locales \<open>viewer\<close> (the content of a value with what it
    refers to) and \<open>deep_copier\<close> (what it is to copy that), and on it \<^verbatim>\<open>api/v1alpha1/zz_generated.deepcopy.go\<close>.

  \<^bold>\<open>State and errors.\<close> The state of a part is a record: \<open>world\<close> (history and metrics), extended by \<open>ctx\<close> for a
  pass and by \<open>reconciler\<close> for the controller. Operations pass it explicitly. A Go error is \<open>error option\<close>
  in the result; a panic or a loop that does not end is \<open>None\<close> of the whole result. A function with many
  returns is split where it returns; \<open>Inl\<close> of a part is a return.

  \<^bold>\<open>Concurrency.\<close> The drain goroutines are jobs with a program counter; \<open>pool_step\<close> has every interleaving of
  their stages, and the select of a pass takes a schedule of goroutine steps and the case that Go picks,
  over which all theorems are quantified. The reconciles of the controller interleave in \<open>con_step\<close>, with
  each other, node events and goroutine steps: every worker is at a stage of \<open>Reconcile\<close>, one per
  access to a shared map, and as many workers run as \<^verbatim>\<open>MaxConcurrentReconciles\<close> allows; that a request is
  not given to two workers is what the work queue of controller-runtime documents. A worker that is not
  interrupted does what \<open>Reconcile\<close> does (\<open>run_Getting\<close>). A pass of \<open>RotateNodes\<close> is one stage; the counter of
  replacement nodes, which passes share, is treated at its two atomic steps in \<open>Capacity\<close>.

  \<^bold>\<open>What is shown.\<close>
  \<^item> Safety: over every interleaving of the workers an instance is terminated only by the one worker that
    rotates its valid, unfinished and admitted upgrade, and only after its node was cordoned and drained in
    the same pass, with the settings of the upgrade or of the flags. The exceptions: where failures are
    ignored the cordon or the drain was tried, and nothing is said of a pass with drains of an earlier pass
    outstanding. A pass terminates only instances of its group that are drifted or in progress; in eager
    mode not before the group is at full strength; never while a goroutine runs.
  \<^item> Invariants over every interleaving of the workers: the lock of an upgrade is never contended or leaked,
    only admitted upgrades are rotated, each by one worker, the wait groups count the unfinished
    goroutines, what is written is well-formed, and the number of admissions is bounded. The limit and the
    exclusion of groups are not invariants: how they are violated is shown. The step durations of a node add up.
  \<^item> Refinement: each step of the workers is one step of the abstract admission, whose admissions are guarded
    by checks made earlier in the same reconcile, and after a restart exactly the upgrades with the status
    running are recovered.
  \<^item> Liveness and termination: a reconcile and a pass return; a lazy upgrade is written to be complete
    within as many reconciles that come to a pass as instances were to be replaced and one more, a ready
    batch is replaced, goroutines end, if calls succeed, goroutines get to run and the cloud replaces what
    is terminated; a batch is selected if there is a candidate, the strategy type is literally one of the two
    constants and EC2 answers; the loops over chunks and zones end.
  \<^item> Functional behaviour on every branch of \<open>Validate\<close>, \<open>RotateNodes\<close>, \<open>Reconcile\<close>, drift detection against a
    specification of what the group wants to launch, batch sizes, chunks, statistics, stand-by requests
    and early cordon.
  \<^item> Aliasing: a copy of a resource or of a list of resources has the content of the original and shares no
    object with it.
  \<^item> Where the code does not do what it means to: a target that is terminated without being drained, tags
    removed from instances of other groups, a strategy type that selects nothing, races between workers
    for a group, for the limit and for replacement nodes, a limit of zero that upgrades nothing, and slips of
    the controller (the last section of \<open>Upgrade_Controller\<close>).

  \<^bold>\<open>Fuel and bounds.\<close> No operation takes fuel. The retry loops of \<open>Early_Cordon\<close> have the bound of the code;
  \<open>GetChunks_loop\<close> and \<open>az_rounds\<close> are partial functions whose termination is proved. Hypotheses that keep sums
  within 64 bits are named (\<open>capacity_ok\<close>), and so are those on the cloud's answers (\<open>rotation_ok\<close>: tags have
  keys and values, instances have ids, percentages are not negative).

  \<^bold>\<open>Not modelled.\<close> The text of log lines, the encoder of zap and the registration of types in
  the scheme. What the cache of the AWS session answers is an answer of \<open>env\<close>. Outside \<open>Deep_Copy\<close> resources
  are values, so that a copy is the resource itself; that copies are independent is what is shown there.
  Node objects are values: what a goroutine's cordon changes of a node stays with the goroutine's nodes,
  while what a pass changes is stored back into the controller's map.
\<close>

end
